(* ===== verification/Prelude.thy ===== *)
theory Prelude
  imports Main "HOL-Library.Word" "HOL-Library.Sublist" "HOL-Library.Signed_Division"
begin

text \<open>
  What every component of the model shares: Go errors and panics as values, the clock, durations and
  contexts of the Go standard library, and the generic lemmas on lists and options that the component
  theories use.

  A function of the source that only returns an error is given the result type \<open>goerr + 'a\<close>
  (\<open>Inl\<close> is the non-nil error). A function that can also panic returns an \<open>outcome\<close>. Calls that touch
  anything outside the process thread a world of type \<open>'w\<close>, which is a parameter of the model.
\<close>

named_theorems go_defs \<open>definitions of the small Go primitives, unfolded by the simplifier on request\<close>
named_theorems never_panics \<open>facts that an operation returns a value or an error, never a panic\<close>

section \<open>Errors, panics and outcomes\<close>

text \<open>
  The concrete error types that the program builds or inspects. \<open>Plain\<close> is \<open>errors.New\<close> or
  \<open>fmt.Errorf\<close> with the rendered text, and also any error handed over by code outside the program.
\<close>

datatype goerr =
    Plain string
  | Wrapped goerr string
  | PgError string string string  \<comment> \<open>severity, SQLSTATE code, message\<close>
  | NoQuorumError
  | InvalidNodeIDError string
  | Status string string          \<comment> \<open>gRPC status: code, description\<close>

text \<open>The \<open>Error()\<close> methods.\<close>

primrec err_string :: "goerr \<Rightarrow> string" where
  "err_string (Plain s) = s"
| "err_string (Wrapped e s) = s @ '': '' @ err_string e"
| "err_string (PgError sev code msg) = sev @ '': '' @ msg @ '' (SQLSTATE '' @ code @ '')''"
| "err_string NoQuorumError = ''pacemaker reports no quorum, cannot get results''"
| "err_string (InvalidNodeIDError n) =
     ''invalid nodeID, must be single integer: '' @ CHR 0x27 # n @ [CHR 0x27]"
| "err_string (Status code desc) = ''rpc error: code = '' @ code @ '' desc = '' @ desc"

datatype panic =
    NilDereference
  | IndexOutOfRange
  | SendOnClosedChannel
  | Explicit string

datatype 'a outcome = Ok 'a | Err goerr | Panic panic

primrec is_panic :: "'a outcome \<Rightarrow> bool" where
  "is_panic (Ok x) = False"
| "is_panic (Err e) = False"
| "is_panic (Panic p) = True"

primrec panic_of :: "'a outcome \<Rightarrow> panic option" where
  "panic_of (Ok x) = None"
| "panic_of (Err e) = None"
| "panic_of (Panic p) = Some p"

definition is_ok :: "'a outcome \<Rightarrow> bool" where
  "is_ok r \<longleftrightarrow> (case r of Ok _ \<Rightarrow> True | _ \<Rightarrow> False)"

text \<open>An error-returning call seen as an outcome: \<open>nil\<close> is success.\<close>

definition of_err :: "goerr option \<Rightarrow> unit outcome" where
  "of_err e = (case e of None \<Rightarrow> Ok () | Some e' \<Rightarrow> Err e')"

definition of_sum :: "goerr + 'a \<Rightarrow> 'a outcome" where
  "of_sum r = (case r of Inl e \<Rightarrow> Err e | Inr x \<Rightarrow> Ok x)"

lemma is_ok_simps [simp]: "is_ok (Ok x)" "\<not> is_ok (Err e)" "\<not> is_ok (Panic p)"
  by (simp_all add: is_ok_def)

lemma is_ok_iff: "is_ok r \<longleftrightarrow> (\<exists>x. r = Ok x)"
  by (cases r) auto

lemma of_err_simps [simp]: "of_err None = Ok ()" "of_err (Some e) = Err e"
  by (simp_all add: of_err_def)

lemma of_sum_simps [simp]: "of_sum (Inl e) = Err e" "of_sum (Inr x) = Ok x"
  by (simp_all add: of_sum_def)

lemma of_err_not_panic [never_panics]: "of_err e \<noteq> Panic p" "\<not> is_panic (of_err e)"
  by (cases e; simp)+

lemma of_err_eq_Ok [simp]: "of_err e = Ok u \<longleftrightarrow> e = None"
  by (cases e) auto

lemma panic_of_eq_None [simp]: "panic_of r = None \<longleftrightarrow> \<not> is_panic r"
  by (cases r) auto

section \<open>Time, durations and contexts\<close>

text \<open>
  A \<open>time.Time\<close> is a number of nanoseconds since the Unix epoch; a \<open>time.Duration\<close> is the \<open>int64\<close> the
  source has, so that its arithmetic wraps.
\<close>

type_synonym time = int
type_synonym duration = "64 word"
type_synonym int32 = "32 word"

definition Second :: duration where
  "Second = 1000000000"

definition time_add :: "time \<Rightarrow> duration \<Rightarrow> time" where
  "time_add t d = t + sint d"

text \<open>Go's integer division truncates towards zero.\<close>

definition duration_div :: "duration \<Rightarrow> duration \<Rightarrow> duration" where
  "duration_div a b = word_of_int (sint a sdiv sint b)"

text \<open>
  A context is the moment at which it is done, if there is one. \<open>WithDeadline\<close> and \<open>WithTimeout\<close> keep
  the earlier of the parent's moment and the new one; \<open>context.Background\<close> is never done. A cancel
  function called at a known moment is a \<open>WithDeadline\<close> at that moment, since the program never
  tells \<open>Canceled\<close> from \<open>DeadlineExceeded\<close>.
\<close>

datatype ctx = Ctx (done_at: "time option")

definition Background :: ctx where
  "Background = Ctx None"

definition WithDeadline :: "ctx \<Rightarrow> time \<Rightarrow> ctx" where
  "WithDeadline c t = Ctx (Some (case done_at c of None \<Rightarrow> t | Some t' \<Rightarrow> min t' t))"

definition WithTimeout :: "ctx \<Rightarrow> time \<Rightarrow> duration \<Rightarrow> ctx" where
  "WithTimeout c now d = WithDeadline c (time_add now d)"

text \<open>\<open>ctx_expired c now\<close> is \<open>ctx.Err() != nil\<close> at the moment \<open>now\<close>.\<close>

definition ctx_expired :: "ctx \<Rightarrow> time \<Rightarrow> bool" where
  "ctx_expired c now \<longleftrightarrow> (case done_at c of None \<Rightarrow> False | Some t \<Rightarrow> t \<le> now)"

lemma sint_in_range:
  fixes x :: int
  assumes "- (2 ^ (LENGTH('a) - 1)) \<le> x" and "x < 2 ^ (LENGTH('a) - 1)"
  shows "sint (word_of_int x :: 'a :: len word) = x"
  using assms by (simp add: sint_sbintrunc' signed_take_bit_int_eq_self)

lemma sint_Second [simp]: "sint Second = 1000000000"
  by (simp add: Second_def)

lemma not_expired_Background [simp]: "\<not> ctx_expired Background now"
  by (simp add: ctx_expired_def Background_def)

lemma expired_WithDeadline [simp]:
  "ctx_expired (WithDeadline c t) now \<longleftrightarrow> ctx_expired c now \<or> t \<le> now"
  by (auto simp: ctx_expired_def WithDeadline_def split: option.splits)

lemma expired_WithTimeout [simp]:
  "ctx_expired (WithTimeout c t d) now \<longleftrightarrow> ctx_expired c now \<or> t + sint d \<le> now"
  by (simp add: WithTimeout_def time_add_def)

lemma ctx_expired_mono: "ctx_expired c t \<Longrightarrow> t \<le> t' \<Longrightarrow> ctx_expired c t'"
  by (auto simp: ctx_expired_def split: option.splits)

text \<open>
  Contexts are ordered by the moment at which they are done, \<open>Background\<close> last. Deriving a context takes the
  minimum, so that it is never done later than its parent.
\<close>

instantiation ctx :: linorder
begin

definition less_eq_ctx :: "ctx \<Rightarrow> ctx \<Rightarrow> bool" where
  "c \<le> d \<longleftrightarrow> (case done_at d of None \<Rightarrow> True | Some t \<Rightarrow> (case done_at c of None \<Rightarrow> False | Some s \<Rightarrow> s \<le> t))"

definition less_ctx :: "ctx \<Rightarrow> ctx \<Rightarrow> bool" where
  "(c :: ctx) < d \<longleftrightarrow> c \<le> d \<and> \<not> d \<le> c"

instance
  by standard (auto simp: less_eq_ctx_def less_ctx_def ctx.expand split: option.splits)

end

lemma WithDeadline_min: "WithDeadline c t = min c (Ctx (Some t))"
  by (cases c) (auto simp: WithDeadline_def min_def less_eq_ctx_def split: option.splits)

lemma WithDeadline_le [simp]: "WithDeadline c t \<le> c"
  by (simp add: WithDeadline_min)

lemma le_Background [simp]: "c \<le> Background"
  by (simp add: less_eq_ctx_def Background_def)

lemma ctx_expired_antimono: "c \<le> d \<Longrightarrow> ctx_expired d now \<Longrightarrow> ctx_expired c now"
  by (auto simp: ctx_expired_def less_eq_ctx_def split: option.splits)

section \<open>Lists\<close>

lemma subseq_set: "subseq xs ys \<Longrightarrow> set xs \<subseteq> set ys"
  by (induction rule: list_emb.induct) auto

end
