(* ===== verification/Text.thy ===== *)
theory Text
  imports Prelude "HOL-Library.Char_ord"
begin

text \<open>
  The string functions of the Go standard library that the program uses, on byte strings:
  \<open>strings.Index\<close>, \<open>strings.Split\<close>, \<open>strings.Join\<close>, \<open>strings.TrimSpace\<close>, \<open>strconv.Atoi\<close>, decimal
  printing, and the character classes of \<open>regexp\<close>.
\<close>

section \<open>Character classes\<close>

definition re_space :: "char \<Rightarrow> bool" where
  \<comment> \<open>the class \<open>\s\<close> of RE2: tab, newline, form feed, carriage return, space\<close>
  "re_space c \<longleftrightarrow> c \<in> {CHR 0x09, CHR 0x0A, CHR 0x0C, CHR 0x0D, CHR '' ''}"

definition re_digit :: "char \<Rightarrow> bool" where
  \<comment> \<open>the class \<open>\d\<close>\<close>
  "re_digit c \<longleftrightarrow> CHR ''0'' \<le> c \<and> c \<le> CHR ''9''"

definition digit_value :: "char \<Rightarrow> nat" where
  "digit_value c = of_char c - 48"

definition quote :: char where "quote = CHR 0x27"

section \<open>Searching, splitting, joining\<close>

fun str_index :: "string \<Rightarrow> string \<Rightarrow> nat option" where
  "str_index s sub =
     (if prefix sub s then Some 0
      else case s of [] \<Rightarrow> None | c # cs \<Rightarrow> map_option Suc (str_index cs sub))"

declare str_index.simps [simp del]

definition contains :: "string \<Rightarrow> string \<Rightarrow> bool" where
  "contains s sub \<longleftrightarrow> str_index s sub \<noteq> None"

lemma contains_iff: "contains s sub \<longleftrightarrow> (\<exists>a b. s = a @ sub @ b)"
proof -
  have "str_index s sub \<noteq> None \<longleftrightarrow> sublist sub s"
  proof (induction s)
    case Nil
    then show ?case by (simp add: str_index.simps)
  next
    case (Cons c cs)
    then show ?case by (simp add: str_index.simps [of "c # cs"] sublist_Cons_right)
  qed
  then show ?thesis by (simp add: contains_def sublist_def)
qed

fun split_on :: "char \<Rightarrow> string \<Rightarrow> string list" where
  "split_on d [] = [[]]"
| "split_on d (c # cs) =
     (if c = d then [] # split_on d cs
      else case split_on d cs of [] \<Rightarrow> [[c]] | p # ps \<Rightarrow> (c # p) # ps)"

fun join :: "string \<Rightarrow> string list \<Rightarrow> string" where
  "join sep [] = []"
| "join sep [x] = x"
| "join sep (x # y # xs) = x @ sep @ join sep (y # xs)"

lemma split_on_nonempty [simp]: "split_on d s \<noteq> []"
  by (induction s) (auto split: list.splits)

lemma join_split_on: "join [d] (split_on d s) = s"
proof (induction s)
  case Nil
  then show ?case by simp
next
  case (Cons c cs)
  obtain p ps where s: "split_on d cs = p # ps" by (cases "split_on d cs") auto
  with Cons show ?case by (cases ps) auto
qed

lemma split_on_append: "d \<notin> set x \<Longrightarrow> split_on d (x @ d # s) = x # split_on d s"
  by (induction x) auto

lemma split_on_none: "d \<notin> set x \<Longrightarrow> split_on d x = [x]"
  by (induction x) auto

lemma split_on_join: "xs \<noteq> [] \<Longrightarrow> (\<And>x. x \<in> set xs \<Longrightarrow> d \<notin> set x) \<Longrightarrow> split_on d (join [d] xs) = xs"
  by (induction "[d]" xs rule: join.induct) (auto simp: split_on_append split_on_none)

section \<open>TrimSpace\<close>

text \<open>
  The encodings of the code points for which \<open>unicode.IsSpace\<close> holds. No encoding is a proper prefix
  or suffix of another's tail, so trimming encodings from either end is trimming decoded runes.
\<close>

definition go_spaces :: "string list" where
  "go_spaces =
     [[CHR 0x09], [CHR 0x0A], [CHR 0x0B], [CHR 0x0C], [CHR 0x0D], [CHR 0x20],
      [CHR 0xC2, CHR 0x85], [CHR 0xC2, CHR 0xA0], [CHR 0xE1, CHR 0x9A, CHR 0x80],
      [CHR 0xE2, CHR 0x80, CHR 0x80], [CHR 0xE2, CHR 0x80, CHR 0x81], [CHR 0xE2, CHR 0x80, CHR 0x82],
      [CHR 0xE2, CHR 0x80, CHR 0x83], [CHR 0xE2, CHR 0x80, CHR 0x84], [CHR 0xE2, CHR 0x80, CHR 0x85],
      [CHR 0xE2, CHR 0x80, CHR 0x86], [CHR 0xE2, CHR 0x80, CHR 0x87], [CHR 0xE2, CHR 0x80, CHR 0x88],
      [CHR 0xE2, CHR 0x80, CHR 0x89], [CHR 0xE2, CHR 0x80, CHR 0x8A], [CHR 0xE2, CHR 0x80, CHR 0xA8],
      [CHR 0xE2, CHR 0x80, CHR 0xA9], [CHR 0xE2, CHR 0x80, CHR 0xAF], [CHR 0xE2, CHR 0x81, CHR 0x9F],
      [CHR 0xE3, CHR 0x80, CHR 0x80]]"

fun drop_prefix :: "string list \<Rightarrow> string \<Rightarrow> string option" where
  "drop_prefix [] s = None"
| "drop_prefix (t # ts) s = (if prefix t s then Some (drop (length t) s) else drop_prefix ts s)"

function trim_with :: "string list \<Rightarrow> string \<Rightarrow> string" where
  "trim_with ts s =
     (case drop_prefix (filter (\<lambda>t. t \<noteq> []) ts) s of None \<Rightarrow> s | Some s' \<Rightarrow> trim_with ts s')"
  by pat_completeness auto

lemma drop_prefix_shorter:
  "drop_prefix (filter (\<lambda>t. t \<noteq> []) ts) s = Some s' \<Longrightarrow> length s' < length s"
  by (induction ts) (auto split: if_splits simp: prefix_def)

termination trim_with
  by (relation "measure (\<lambda>(ts, s). length s)") (auto dest: drop_prefix_shorter)

declare trim_with.simps [simp del]

definition TrimSpace :: "string \<Rightarrow> string" where
  "TrimSpace s = rev (trim_with (map rev go_spaces) (rev (trim_with go_spaces s)))"

lemma drop_prefix_None: "drop_prefix ts s = None \<longleftrightarrow> (\<forall>t \<in> set ts. \<not> prefix t s)"
  by (induction ts) auto

lemma drop_prefix_Some: "drop_prefix ts s = Some s' \<Longrightarrow> \<exists>t \<in> set ts. s = t @ s'"
  by (induction ts) (auto split: if_splits simp: prefix_def)

lemma trim_with_suffix: "suffix (trim_with ts s) s"
proof (induction ts s rule: trim_with.induct)
  case (1 ts s)
  show ?case
  proof (cases "drop_prefix (filter (\<lambda>t. t \<noteq> []) ts) s")
    case None
    then show ?thesis by (simp add: trim_with.simps)
  next
    case (Some s')
    with 1 have "suffix (trim_with ts s') s'" by blast
    moreover from drop_prefix_Some [OF Some] have "suffix s' s" by (auto simp: suffix_def)
    ultimately show ?thesis using Some by (simp add: trim_with.simps [of ts s])
  qed
qed

lemma trim_with_no_prefix: "t \<in> set ts \<Longrightarrow> t \<noteq> [] \<Longrightarrow> \<not> prefix t (trim_with ts s)"
proof (induction ts s rule: trim_with.induct)
  case (1 ts s)
  show ?case
  proof (cases "drop_prefix (filter (\<lambda>t. t \<noteq> []) ts) s")
    case None
    with 1(2,3) have "\<not> prefix t s" by (auto simp: drop_prefix_None)
    with None show ?thesis by (simp add: trim_with.simps [of ts s])
  next
    case (Some s')
    with 1 show ?thesis by (simp add: trim_with.simps [of ts s])
  qed
qed

lemma trim_with_id: "(\<forall>t \<in> set ts. t \<noteq> [] \<longrightarrow> \<not> prefix t s) \<Longrightarrow> trim_with ts s = s"
  by (simp add: trim_with.simps [of ts s] drop_prefix_None [THEN iffD2])

section \<open>Numbers\<close>

fun digits_value :: "nat \<Rightarrow> string \<Rightarrow> nat option" where
  "digits_value acc [] = Some acc"
| "digits_value acc (c # cs) =
     (if re_digit c then digits_value (10 * acc + digit_value c) cs else None)"

text \<open>
  \<open>strconv.Atoi\<close> on a 64-bit machine: an optional sign, at least one decimal digit, and the value in
  the range of \<open>int64\<close>, outside which the nearest bound comes with the error. The quoted input is left
  out of the error's text.
\<close>

definition Atoi_pair :: "string \<Rightarrow> int \<times> goerr option" where
  "Atoi_pair s =
     (let neg = (case s of c # _ \<Rightarrow> c = CHR ''-'' | [] \<Rightarrow> False);
          body = (case s of c # cs \<Rightarrow> if c = CHR ''-'' \<or> c = CHR ''+'' then cs else s | [] \<Rightarrow> []) in
      if body = [] then (0, Some (Plain ''strconv.Atoi: invalid syntax''))
      else case digits_value 0 body of
        None \<Rightarrow> (0, Some (Plain ''strconv.Atoi: invalid syntax''))
      | Some n \<Rightarrow>
          (let v = (if neg then - int n else int n) in
           if v < - (2 ^ 63) then (- (2 ^ 63), Some (Plain ''strconv.Atoi: value out of range''))
           else if 2 ^ 63 \<le> v then (2 ^ 63 - 1, Some (Plain ''strconv.Atoi: value out of range''))
           else (v, None)))"

definition Atoi :: "string \<Rightarrow> goerr + int" where
  "Atoi s = (case Atoi_pair s of (v, None) \<Rightarrow> Inr v | (v, Some e) \<Rightarrow> Inl e)"

fun itoa_nat :: "nat \<Rightarrow> string" where
  "itoa_nat n =
     (if n < 10 then [char_of (48 + n)] else itoa_nat (n div 10) @ [char_of (48 + n mod 10)])"

declare itoa_nat.simps [simp del]

definition itoa :: "int \<Rightarrow> string" where
  "itoa i = (if i < 0 then CHR ''-'' # itoa_nat (nat (- i)) else itoa_nat (nat i))"

lemma digits_value_append:
  "digits_value acc (xs @ ys) =
     (case digits_value acc xs of None \<Rightarrow> None | Some v \<Rightarrow> digits_value v ys)"
  by (induction xs arbitrary: acc) auto

lemma of_char_digit [simp]: "n < 10 \<Longrightarrow> of_char (char_of (48 + n :: nat) :: char) = 48 + n"
  by simp

lemma re_digit_char_of: "n < 10 \<Longrightarrow> re_digit (char_of (48 + n :: nat))"
  by (simp add: re_digit_def less_eq_char_def)

lemma digits_value_itoa: "digits_value 0 (itoa_nat n) = Some n"
proof (induction n rule: itoa_nat.induct)
  case (1 n)
  show ?case
  proof (cases "n < 10")
    case True
    then show ?thesis
      by (simp add: itoa_nat.simps [of n] re_digit_char_of digit_value_def)
  next
    case False
    with 1 show ?thesis
      by (simp add: itoa_nat.simps [of n] digits_value_append re_digit_char_of digit_value_def)
  qed
qed

lemma itoa_nat_digits: "c \<in> set (itoa_nat n) \<Longrightarrow> re_digit c"
proof (induction n rule: itoa_nat.induct)
  case (1 n)
  then show ?case
    by (cases "n < 10") (auto simp: itoa_nat.simps [of n] re_digit_char_of)
qed

lemma itoa_nat_nonempty [simp]: "itoa_nat n \<noteq> []"
  by (subst itoa_nat.simps) simp

lemma re_digit_not_sign [simp]: "\<not> re_digit (CHR ''-'')" "\<not> re_digit (CHR ''+'')"
  by (simp_all add: re_digit_def less_eq_char_def)

text \<open>Reading back what was printed.\<close>

lemma Atoi_itoa: "n < 2 ^ 63 \<Longrightarrow> Atoi (itoa_nat n) = Inr (int n)"
proof -
  assume n: "n < 2 ^ 63"
  obtain c cs where s: "itoa_nat n = c # cs" by (cases "itoa_nat n") auto
  with itoa_nat_digits [of c n] have "c \<noteq> CHR ''-''" "c \<noteq> CHR ''+''" by auto
  moreover from s have "digits_value 0 (c # cs) = Some n" using digits_value_itoa [of n] by simp
  ultimately show ?thesis using n by (simp add: Atoi_def Atoi_pair_def s del: digits_value.simps)
qed

text \<open>What \<open>TrimSpace\<close> promises: a middle piece of the input that no space borders.\<close>

lemma TrimSpace_sublist: "sublist (TrimSpace s) s"
proof -
  have "suffix (trim_with (map rev go_spaces) (rev (trim_with go_spaces s))) (rev (trim_with go_spaces s))"
    by (rule trim_with_suffix)
  then have "prefix (TrimSpace s) (trim_with go_spaces s)"
    by (simp add: TrimSpace_def suffix_to_prefix)
  with trim_with_suffix [of go_spaces s] show ?thesis
    by (meson prefix_imp_sublist suffix_imp_sublist sublist_order.order_trans)
qed

lemma TrimSpace_no_space:
  assumes "t \<in> set go_spaces"
  shows "\<not> prefix t (TrimSpace s)" and "\<not> suffix t (TrimSpace s)"
proof -
  from assms have ne: "t \<noteq> []" by (auto simp: go_spaces_def)
  have "prefix (TrimSpace s) (trim_with go_spaces s)"
    using trim_with_suffix [of "map rev go_spaces" "rev (trim_with go_spaces s)"]
    by (simp add: TrimSpace_def suffix_to_prefix)
  with trim_with_no_prefix [OF assms ne, of s] show "\<not> prefix t (TrimSpace s)"
    by (meson prefix_order.order_trans)
  have "\<not> prefix (rev t) (rev (TrimSpace s))"
    using trim_with_no_prefix [of "rev t" "map rev go_spaces" "rev (trim_with go_spaces s)"] assms ne
    by (simp add: TrimSpace_def)
  then show "\<not> suffix t (TrimSpace s)" by (simp add: suffix_to_prefix)
qed

lemma TrimSpace_id:
  assumes "\<forall>t \<in> set go_spaces. \<not> prefix t s \<and> \<not> suffix t s"
  shows "TrimSpace s = s"
  using assms by (simp add: TrimSpace_def trim_with_id suffix_to_prefix)

end
