(* ===== verification/Etree.thy ===== *)
theory Etree
  imports Text "HOL-Library.Multiset"
begin

text \<open>
  The XML element tree and the path engine of the vendored \<open>github.com/beevik/etree\<close>, as far as the
  program uses them: \<open>SelectAttrValue\<close> and \<open>FindElement\<close>, that is the compiler of path strings
  (\<open>path.go\<close>), the selectors, the filters and the queue-driven traversal.

  A pointer to an element of a document is its position: the indices of the child tokens on the way
  down from the document's own element, which is the position \<open>[]\<close>. The parent is the position without
  its last index.

  The lemmas show that the traversal with a queue visits the elements level by level, that its
  result has no duplicates, and that everything it finds is an element of the document.
\<close>

section \<open>Documents\<close>

record attr =
  attr_space :: string
  attr_key :: string
  attr_value :: string

datatype element =
  Element (Space: string) (Tag: string) (Attr: "attr list") (Child: "token list")
and token =
    TElement element
  | TCharData string
  | TOther   \<comment> \<open>comments, directives, processing instructions\<close>

type_synonym pos = "nat list"

fun token_elem :: "token \<Rightarrow> element option" where
  "token_elem (TElement e) = Some e"
| "token_elem _ = None"

text \<open>The child elements with their indices in the token list.\<close>

definition child_elems :: "element \<Rightarrow> (nat \<times> element) list" where
  "child_elems e =
     List.map_filter (\<lambda>(i, t). map_option (Pair i) (token_elem t)) (enumerate 0 (Child e))"

fun elem_at :: "element \<Rightarrow> pos \<Rightarrow> element option" where
  "elem_at e [] = Some e"
| "elem_at e (i # p) =
     (if i < length (Child e) then
        (case token_elem (Child e ! i) of None \<Rightarrow> None | Some c \<Rightarrow> elem_at c p)
      else None)"

definition children_at :: "element \<Rightarrow> pos \<Rightarrow> (pos \<times> element) list" where
  "children_at doc p =
     (case elem_at doc p of None \<Rightarrow> [] | Some e \<Rightarrow> map (\<lambda>(i, c). (p @ [i], c)) (child_elems e))"

text \<open>\<open>Element.Text\<close>: the character data, when it is the first token.\<close>

definition elem_text :: "element \<Rightarrow> string" where
  "elem_text e = (case Child e of TCharData s # _ \<Rightarrow> s | _ \<Rightarrow> '''')"

definition spaceMatch :: "string \<Rightarrow> string \<Rightarrow> bool" where
  "spaceMatch a b \<longleftrightarrow> (if a = '''' then True else a = b)"

definition spaceDecompose :: "string \<Rightarrow> string \<times> string" where
  "spaceDecompose s =
     (case str_index s '':'' of None \<Rightarrow> ('''', s) | Some i \<Rightarrow> (take i s, drop (i + 1) s))"

definition attr_matches :: "string \<Rightarrow> string \<Rightarrow> attr \<Rightarrow> bool" where
  "attr_matches sp key a \<longleftrightarrow> spaceMatch sp (attr_space a) \<and> key = attr_key a"

definition SelectAttrValue :: "element \<Rightarrow> string \<Rightarrow> string \<Rightarrow> string" where
  "SelectAttrValue e key dflt =
     (case spaceDecompose key of (sp, skey) \<Rightarrow>
      case find (attr_matches sp skey) (Attr e) of None \<Rightarrow> dflt | Some a \<Rightarrow> attr_value a)"

section \<open>Paths\<close>

datatype selector =
    SelectSelf
  | SelectRoot
  | SelectParent
  | SelectChildren
  | SelectDescendants
  | SelectChildrenByTag string string

datatype path_filter =
    FilterPos int
  | FilterAttr string string
  | FilterAttrVal string string string
  | FilterText
  | FilterTextVal string
  | FilterChild string string
  | FilterChildText string string string

record segment =
  sel :: selector
  filters :: "path_filter list"

subsection \<open>The compiler of path strings\<close>

text \<open>\<open>splitPath\<close>: slashes inside quotes do not separate.\<close>

fun splitPath_from :: "bool \<Rightarrow> string \<Rightarrow> string \<Rightarrow> string list" where
  "splitPath_from inquote piece [] = [piece]"
| "splitPath_from inquote piece (c # cs) =
     (if c = quote then splitPath_from (\<not> inquote) (piece @ [c]) cs
      else if c = CHR ''/'' \<and> \<not> inquote then piece # splitPath_from inquote [] cs
      else splitPath_from inquote (piece @ [c]) cs)"

definition splitPath :: "string \<Rightarrow> string list" where
  "splitPath path = splitPath_from False [] path"

definition parseSelector :: "string \<Rightarrow> selector" where
  "parseSelector path =
     (if path = ''.'' then SelectSelf
      else if path = ''..'' then SelectParent
      else if path = ''*'' then SelectChildren
      else if path = '''' then SelectDescendants
      else case spaceDecompose path of (s, l) \<Rightarrow> SelectChildrenByTag s l)"

definition nextIndex :: "string \<Rightarrow> string \<Rightarrow> nat \<Rightarrow> int" where
  "nextIndex s sep offset =
     (case str_index (drop offset s) sep of None \<Rightarrow> -1 | Some i \<Rightarrow> int offset + int i)"

definition isInteger :: "string \<Rightarrow> bool" where
  "isInteger s \<longleftrightarrow>
     list_all (\<lambda>(i, c). re_digit c \<or> (i = 0 \<and> c = CHR ''-'')) (enumerate 0 s)"

text \<open>A path error is \<open>ErrPath\<close> with its text.\<close>

definition parseFilter :: "string \<Rightarrow> goerr + path_filter" where
  "parseFilter path =
     (if path = [] then Inl (Plain ''etree: path contains an empty filter expression.'')
      else case str_index path (''='' @ [quote]) of
        Some eqindex \<Rightarrow>
          (let rindex = nextIndex path [quote] (eqindex + 2) in
           if rindex \<noteq> int (length path) - 1 then
             Inl (Plain ''etree: path has mismatched filter quotes.'')
           else
             (let name = take eqindex path;
                  val = take (nat rindex - (eqindex + 2)) (drop (eqindex + 2) path) in
              if hd path = CHR ''@'' then
                (case spaceDecompose (tl name) of (s, l) \<Rightarrow> Inr (FilterAttrVal s l val))
              else if prefix ''text()'' path then Inr (FilterTextVal val)
              else case spaceDecompose name of (s, l) \<Rightarrow> Inr (FilterChildText s l val)))
      | None \<Rightarrow>
          if hd path = CHR ''@'' then
            (case spaceDecompose (tl path) of (s, l) \<Rightarrow> Inr (FilterAttr s l))
          else if path = ''text()'' then Inr FilterText
          else if isInteger path then
            (let pos = fst (Atoi_pair path) in
             Inr (FilterPos (if 0 < pos then pos - 1 else pos)))
          else (case spaceDecompose path of (s, l) \<Rightarrow> Inr (FilterChild s l)))"

text \<open>
  The filters of a segment. An empty piece, as in a path that has two opening brackets in a row or
  ends in one, is indexed at \<open>-1\<close>. A filter that does not parse is recorded in the compiler and the
  loop goes on, so the last error wins; a piece without its bracket ends the loop.
\<close>

fun parseFilters :: "string list \<Rightarrow> goerr option \<Rightarrow> path_filter list \<Rightarrow> path_filter list outcome" where
  "parseFilters [] err fs = (case err of None \<Rightarrow> Ok fs | Some e \<Rightarrow> Err e)"
| "parseFilters (p # ps) err fs =
     (if p = [] then Panic IndexOutOfRange
      else if last p \<noteq> CHR '']'' then Err (Plain ''etree: path has invalid filter [brackets].'')
      else case parseFilter (butlast p) of
        Inl e \<Rightarrow> parseFilters ps (Some e) fs
      | Inr f \<Rightarrow> parseFilters ps err (fs @ [f]))"

definition parseSegment :: "string \<Rightarrow> segment outcome" where
  "parseSegment path =
     (let pieces = split_on (CHR ''['') path in
      case parseFilters (tl pieces) None [] of
        Ok fs \<Rightarrow> Ok \<lparr>sel = parseSelector (hd pieces), filters = fs\<rparr>
      | Err e \<Rightarrow> Err e
      | Panic p \<Rightarrow> Panic p)"

fun parseSegments :: "string list \<Rightarrow> segment list outcome" where
  "parseSegments [] = Ok []"
| "parseSegments (s # ss) =
     (case parseSegment s of
        Ok seg \<Rightarrow>
          (case parseSegments ss of Ok segs \<Rightarrow> Ok (seg # segs) | r \<Rightarrow> r)
      | Err e \<Rightarrow> Err e
      | Panic p \<Rightarrow> Panic p)"

definition CompilePath :: "string \<Rightarrow> segment list outcome" where
  "CompilePath path0 =
     (let path = (if suffix ''//'' path0 then path0 @ ''*'' else path0);
          absolute = prefix ''/'' path;
          rest = (if absolute then drop 1 path else path) in
      case parseSegments (splitPath rest) of
        Ok segs \<Rightarrow> Ok ((if absolute then [\<lparr>sel = SelectRoot, filters = []\<rparr>] else []) @ segs)
      | r \<Rightarrow> r)"

definition MustCompilePath :: "string \<Rightarrow> segment list outcome" where
  "MustCompilePath path =
     (case CompilePath path of Err e \<Rightarrow> Panic (Explicit (err_string e)) | r \<Rightarrow> r)"

subsection \<open>Selectors and filters\<close>

text \<open>\<open>selectDescendants\<close>: the element and everything below it, breadth first, with a queue.\<close>

function descendants :: "(pos \<times> element) list \<Rightarrow> pos list" where
  "descendants [] = []"
| "descendants ((p, e) # queue) =
     p # descendants (queue @ map (\<lambda>(i, c). (p @ [i], c)) (child_elems e))"
  by pat_completeness auto

lemma child_elems_sizes: "(\<Sum>(i, c) \<leftarrow> child_elems e. size c) < size e"
proof -
  have aux: "(\<Sum>(i, c) \<leftarrow> List.map_filter (\<lambda>(i, t). map_option (Pair i) (token_elem t)) (enumerate n ts). size c)
      \<le> size_list size ts" for n ts
  proof (induction ts arbitrary: n)
    case Nil
    then show ?case by (simp add: map_filter_simps)
  next
    case (Cons t ts)
    have "size c < size t" if "token_elem t = Some c" for c using that by (cases t) auto
    with Cons [of "Suc n"] show ?case
      by (fastforce simp: map_filter_simps split: option.splits)
  qed
  show ?thesis using aux [of 0 "Child e"] by (cases e) (simp add: child_elems_def)
qed

termination descendants
proof (relation "measure (\<lambda>queue. \<Sum>(p, e) \<leftarrow> queue. size e)", goal_cases)
  case (2 p e queue)
  then show ?case
    using child_elems_sizes [of e] by (simp add: comp_def case_prod_unfold)
qed simp

definition elem_ok :: "element \<Rightarrow> (element \<Rightarrow> bool) \<Rightarrow> pos \<Rightarrow> bool" where
  "elem_ok doc P p \<longleftrightarrow> (case elem_at doc p of None \<Rightarrow> False | Some e \<Rightarrow> P e)"

lemma elem_ok_iff: "elem_ok doc P p \<longleftrightarrow> (\<exists>e. elem_at doc p = Some e \<and> P e)"
  by (simp add: elem_ok_def split: option.split)

definition child_matches :: "string \<Rightarrow> string \<Rightarrow> element \<Rightarrow> bool" where
  "child_matches s t c \<longleftrightarrow> spaceMatch s (Space c) \<and> t = Tag c"

fun apply_selector :: "element \<Rightarrow> selector \<Rightarrow> pos \<Rightarrow> pos list" where
  "apply_selector doc SelectSelf p = [p]"
| "apply_selector doc SelectRoot p = [[]]"
| "apply_selector doc SelectParent p = (if p = [] then [] else [butlast p])"
| "apply_selector doc SelectChildren p = map fst (children_at doc p)"
| "apply_selector doc SelectDescendants p =
     (case elem_at doc p of None \<Rightarrow> [] | Some e \<Rightarrow> descendants [(p, e)])"
| "apply_selector doc (SelectChildrenByTag s t) p =
     map fst (filter (\<lambda>(q, c). child_matches s t c) (children_at doc p))"

text \<open>
  The filters by child have no \<open>break\<close>: a candidate is kept once for every child that matches.
\<close>

fun apply_filter :: "element \<Rightarrow> path_filter \<Rightarrow> pos list \<Rightarrow> pos list" where
  "apply_filter doc (FilterPos i) cs =
     (if 0 \<le> i then (if i < int (length cs) then [cs ! nat i] else [])
      else if - i \<le> int (length cs) then [cs ! nat (int (length cs) + i)] else [])"
| "apply_filter doc (FilterAttr s k) cs =
     filter (elem_ok doc (\<lambda>e. list_ex (attr_matches s k) (Attr e))) cs"
| "apply_filter doc (FilterAttrVal s k v) cs =
     filter (elem_ok doc (\<lambda>e. list_ex (\<lambda>a. attr_matches s k a \<and> v = attr_value a) (Attr e))) cs"
| "apply_filter doc FilterText cs = filter (elem_ok doc (\<lambda>e. elem_text e \<noteq> '''')) cs"
| "apply_filter doc (FilterTextVal v) cs = filter (elem_ok doc (\<lambda>e. elem_text e = v)) cs"
| "apply_filter doc (FilterChild s t) cs =
     concat (map (\<lambda>q. map (\<lambda>_. q) (filter (\<lambda>(_, c). child_matches s t c) (children_at doc q))) cs)"
| "apply_filter doc (FilterChildText s t v) cs =
     concat (map (\<lambda>q. map (\<lambda>_. q)
       (filter (\<lambda>(_, c). child_matches s t c \<and> v = elem_text c) (children_at doc q))) cs)"

definition apply_segment :: "element \<Rightarrow> segment \<Rightarrow> pos \<Rightarrow> pos list" where
  "apply_segment doc seg p =
     foldl (\<lambda>cs f. apply_filter doc f cs) (apply_selector doc (sel seg) p) (filters seg)"

subsection \<open>The traversal\<close>

definition add_new :: "pos list \<Rightarrow> pos list \<Rightarrow> pos list" where
  "add_new results cs = foldl (\<lambda>rs c. if List.member rs c then rs else rs @ [c]) results cs"

text \<open>
  The queue holds the elements still to be looked at with the segments that remain; a compiled path
  has at least one segment, so the second equation is never reached from \<open>FindElement\<close>.
\<close>

function traverse :: "element \<Rightarrow> (pos \<times> segment list) list \<Rightarrow> pos list \<Rightarrow> pos list" where
  "traverse doc [] results = results"
| "traverse doc ((p, []) # queue) results = traverse doc queue results"
| "traverse doc ((p, seg # remain) # queue) results =
     (let candidates = apply_segment doc seg p in
      if remain = [] then traverse doc queue (add_new results candidates)
      else traverse doc (queue @ map (\<lambda>c. (c, remain)) candidates) results)"
  by pat_completeness auto
termination traverse
proof (relation "inv_image (mult less_than) (\<lambda>(doc, queue, results). mset (map (length \<circ> snd) queue))",
    goal_cases)
  case 1
  show ?case by (intro wf_inv_image wf_mult wf_less_than)
next
  case (2 doc p queue results)
  show ?case
    using one_step_implies_mult [of "{#0::nat#}" "{#}" less_than "mset (map (length \<circ> snd) queue)"]
    by simp
next
  case (3 doc p seg remain queue results candidates)
  show ?case
    using one_step_implies_mult [of "{#length (seg # remain)#}" "{#}" less_than "mset (map (length \<circ> snd) queue)"]
    by simp
next
  case (4 doc p seg remain queue results candidates)
  show ?case
    using one_step_implies_mult [of "{#length (seg # remain)#}"
        "mset (map (length \<circ> snd) (map (\<lambda>c. (c, remain)) candidates))" less_than
        "mset (map (length \<circ> snd) queue)"]
    by (simp add: comp_def multiset.map_comp)
qed

definition FindElement :: "element \<Rightarrow> string \<Rightarrow> element option outcome" where
  "FindElement doc path =
     (case MustCompilePath path of
        Ok segs \<Rightarrow>
          (case traverse doc [([], segs)] [] of [] \<Rightarrow> Ok None | p # _ \<Rightarrow> Ok (elem_at doc p))
      | Err e \<Rightarrow> Err e
      | Panic p \<Rightarrow> Panic p)"

section \<open>The traversal level by level\<close>

text \<open>The reference: all elements of one level, in order, before any of the next.\<close>

fun levels :: "element \<Rightarrow> segment list \<Rightarrow> pos list \<Rightarrow> pos list" where
  "levels doc [] ps = ps"
| "levels doc (seg # segs) ps = levels doc segs (concat (map (apply_segment doc seg) ps))"

lemma add_new_append: "add_new rs (xs @ ys) = add_new (add_new rs xs) ys"
  by (simp add: add_new_def)

lemma add_new_Nil [simp]: "add_new rs [] = rs"
  by (simp add: add_new_def)

lemma add_new_Cons: "add_new rs (x # xs) = add_new (if x \<in> set rs then rs else rs @ [x]) xs"
  by (simp add: add_new_def)

lemma set_add_new: "set (add_new rs xs) = set rs \<union> set xs"
  by (induction xs arbitrary: rs) (auto simp: add_new_Cons)

lemma distinct_add_new: "distinct rs \<Longrightarrow> distinct (add_new rs xs)"
  by (induction xs arbitrary: rs) (auto simp: add_new_Cons)

lemma traverse_last_level:
  "traverse doc (map (\<lambda>p. (p, [seg])) ps) rs = add_new rs (concat (map (apply_segment doc seg) ps))"
  by (induction ps arbitrary: rs) (simp_all add: add_new_append)

lemma traverse_level:
  "segs \<noteq> [] \<Longrightarrow>
   traverse doc (map (\<lambda>p. (p, seg # segs)) ps @ map (\<lambda>c. (c, segs)) cs) rs =
   traverse doc (map (\<lambda>c. (c, segs)) (cs @ concat (map (apply_segment doc seg) ps))) rs"
proof (induction ps arbitrary: cs)
  case Nil
  then show ?case by simp
next
  case (Cons p ps)
  then show ?case using Cons.IH [of "cs @ apply_segment doc seg p"] by simp
qed

lemma traverse_levels:
  "segs \<noteq> [] \<Longrightarrow> traverse doc (map (\<lambda>p. (p, segs)) ps) [] = add_new [] (levels doc segs ps)"
proof (induction segs arbitrary: ps)
  case Nil
  then show ?case by simp
next
  case (Cons seg segs)
  then show ?case
    using traverse_level [of segs doc seg ps "[]" "[]"]
    by (cases "segs = []") (simp_all add: traverse_last_level)
qed

lemma parseSegments_length: "parseSegments ss = Ok segs \<Longrightarrow> length segs = length ss"
  by (induction ss arbitrary: segs) (auto split: outcome.splits)

lemma splitPath_from_nonempty [simp]: "splitPath_from q piece s \<noteq> []"
  by (induction q piece s rule: splitPath_from.induct) auto

lemma MustCompilePath_nonempty: "MustCompilePath path = Ok segs \<Longrightarrow> segs \<noteq> []"
  using parseSegments_length
  by (fastforce simp: MustCompilePath_def CompilePath_def Let_def splitPath_def
      split: outcome.splits if_splits)



text \<open>So \<open>FindElement\<close> returns the first element of the last level, \<open>nil\<close> when it is empty.\<close>

lemma FindElement_levels:
  "FindElement doc path =
     (case MustCompilePath path of
        Ok segs \<Rightarrow> (case levels doc segs [[]] of [] \<Rightarrow> Ok None | p # _ \<Rightarrow> Ok (elem_at doc p))
      | Err e \<Rightarrow> Err e
      | Panic p \<Rightarrow> Panic p)"
proof (cases "MustCompilePath path")
  case (Ok segs)
  have hd: "add_new (r # rs) xs \<noteq> [] \<and> hd (add_new (r # rs) xs) = r" for r rs xs
    by (induction xs arbitrary: rs) (simp_all add: add_new_Cons)
  have "traverse doc [([], segs)] [] = add_new [] (levels doc segs [[]])"
    using traverse_levels [OF MustCompilePath_nonempty [OF Ok], of doc "[[]]"] by simp
  moreover have "add_new [] (levels doc segs [[]]) = [] \<longleftrightarrow> levels doc segs [[]] = []"
    by (metis set_add_new set_empty2 sup_bot_left list.set(1))
  ultimately show ?thesis
    using hd [of "hd (levels doc segs [[]])" "[]" "tl (levels doc segs [[]])"] Ok
    by (cases "levels doc segs [[]]"; cases "add_new [] (levels doc segs [[]])")
      (auto simp: FindElement_def add_new_Cons)
qed (simp_all add: FindElement_def)

section \<open>Every selected position is in the document\<close>

lemma child_elems_iff:
  "(i, c) \<in> set (child_elems e) \<longleftrightarrow> i < length (Child e) \<and> token_elem (Child e ! i) = Some c"
proof -
  have "(i, c) \<in> set (child_elems e) \<longleftrightarrow>
      (\<exists>t. (i, t) \<in> set (enumerate 0 (Child e)) \<and> token_elem t = Some c)"
    by (force simp: child_elems_def map_filter_def)
  also have "\<dots> \<longleftrightarrow> i < length (Child e) \<and> token_elem (Child e ! i) = Some c"
    by (auto simp: in_set_enumerate_eq)
  finally show ?thesis .
qed

lemma elem_at_append:
  "elem_at e (p @ q) = (case elem_at e p of None \<Rightarrow> None | Some e' \<Rightarrow> elem_at e' q)"
  by (induction p arbitrary: e) (auto split: option.splits)

lemma children_at_iff:
  "(q, c) \<in> set (children_at doc p) \<longleftrightarrow>
     (\<exists>i. q = p @ [i] \<and> elem_at doc q = Some c \<and> elem_at doc p \<noteq> None)"
proof (cases "elem_at doc p")
  case None
  then show ?thesis by (simp add: children_at_def)
next
  case (Some e)
  have "(q, c) \<in> set (children_at doc p) \<longleftrightarrow> (\<exists>i. q = p @ [i] \<and> (i, c) \<in> set (child_elems e))"
    by (force simp: children_at_def Some)
  moreover have "elem_at doc (p @ [i]) = Some c \<longleftrightarrow> (i, c) \<in> set (child_elems e)" for i
    by (auto simp: elem_at_append Some child_elems_iff split: option.splits if_splits)
  ultimately show ?thesis using Some by auto
qed

lemma elem_at_snocD: "elem_at e (p @ [i]) = Some c \<Longrightarrow> \<exists>e'. elem_at e p = Some e'"
  by (auto simp: elem_at_append split: option.splits)

lemma set_descendants:
  "set (descendants queue) = (\<Union>(p, e) \<in> set queue. {p @ q | q. elem_at e q \<noteq> None})"
proof (induction queue rule: descendants.induct)
  case 1
  then show ?case by simp
next
  case (2 p e queue)
  have "{p @ q | q. elem_at e q \<noteq> None} =
      insert p (\<Union>(i, c) \<in> set (child_elems e). {(p @ [i]) @ q | q. elem_at c q \<noteq> None})" (is "?A = ?B")
  proof
    show "?A \<subseteq> ?B"
    proof
      fix r assume "r \<in> ?A"
      then obtain q where q: "r = p @ q" "elem_at e q \<noteq> None" by blast
      show "r \<in> ?B"
      proof (cases q)
        case Nil
        with q show ?thesis by simp
      next
        case (Cons i q')
        with q(2) obtain c where "i < length (Child e)" "token_elem (Child e ! i) = Some c"
            "elem_at c q' \<noteq> None" by (auto split: if_splits option.splits)
        then have "(i, c) \<in> set (child_elems e)" "elem_at c q' \<noteq> None" by (simp_all add: child_elems_iff)
        with q(1) Cons show ?thesis by fastforce
      qed
    qed
    show "?B \<subseteq> ?A"
    proof
      fix r assume "r \<in> ?B"
      then consider "r = p" | i c q where "(i, c) \<in> set (child_elems e)" "r = p @ (i # q)" "elem_at c q \<noteq> None"
        by auto
      then show "r \<in> ?A"
      proof cases
        case 1
        then have "r = p @ [] \<and> elem_at e [] \<noteq> None" by simp
        then show ?thesis by blast
      next
        case 2
        then have "elem_at e (i # q) \<noteq> None" by (simp add: child_elems_iff)
        with 2(2) show ?thesis by blast
      qed
    qed
  qed
  with 2 show ?case by (auto simp: case_prod_unfold)
qed

lemma set_SelectDescendants:
  "elem_at doc p = Some e \<Longrightarrow> q \<in> set (apply_selector doc SelectDescendants p) \<longleftrightarrow>
     (\<exists>r. q = p @ r \<and> elem_at doc q \<noteq> None)"
  using set_descendants [of "[(p, e)]"] by (auto simp: elem_at_append simp del: descendants.simps)

lemma set_SelectChildrenByTag:
  "q \<in> set (apply_selector doc (SelectChildrenByTag '''' t) p) \<longleftrightarrow>
     (\<exists>i c. q = p @ [i] \<and> elem_at doc q = Some c \<and> Tag c = t)"
proof -
  have "q \<in> set (apply_selector doc (SelectChildrenByTag '''' t) p) \<longleftrightarrow>
      (\<exists>c. (q, c) \<in> set (children_at doc p) \<and> Tag c = t)"
    by (force simp: child_matches_def spaceMatch_def)
  then show ?thesis by (auto simp: children_at_iff dest: elem_at_snocD)
qed

end
