(* ===== verification/Streams.thy ===== *)
theory Streams
  imports Prelude
begin

text \<open>
  The key-value events of etcd (\<open>mvccpb.KeyValue\<close>) and the two stream filters of
  \<open>pkg/streams/filter.go\<close>. A channel is the list of the values sent on it with the flag "closed";
  a filter is a step function on the map it keeps, run over the values in the order they arrive.

  The locale \<open>keyed_filter\<close> is the contract of the \<open>Filter\<close> type: one remembered value per key decides
  whether an event passes, and what passes is the event itself. From it follow, once for both
  filters, that the output is a subsequence of the input, that a filter is causal, acts on each key
  separately, is idempotent and swallows repeated deliveries.
\<close>

section \<open>The code\<close>

record KeyValue =
  Key :: string
  CreateRevision :: int
  ModRevision :: int
  Version :: int
  Value :: string
  Lease :: int

type_synonym stream = "KeyValue list \<times> bool"

definition makeKv :: "string \<Rightarrow> string \<Rightarrow> int \<Rightarrow> KeyValue" where
  "makeKv k v r =
     \<lparr>Key = k, CreateRevision = 0, ModRevision = r, Version = 0, Value = v, Lease = 0\<rparr>"

text \<open>A missing key of the Go map reads as the zero value: the empty byte string, the revision 0.\<close>

definition previous_value :: "string option \<Rightarrow> string" where
  "previous_value v = (case v of None \<Rightarrow> '''' | Some x \<Rightarrow> x)"

definition previous_revision :: "int option \<Rightarrow> int" where
  "previous_revision r = (case r of None \<Rightarrow> 0 | Some x \<Rightarrow> x)"

definition dedupe_step ::
  "(string \<rightharpoonup> string) \<Rightarrow> KeyValue \<Rightarrow> (string \<rightharpoonup> string) \<times> KeyValue option" where
  "dedupe_step lastValues kv =
     (let previousValue = previous_value (lastValues (Key kv)) in
      if previousValue = Value kv then (lastValues, None)
      else (lastValues(Key kv \<mapsto> Value kv), Some kv))"

definition revision_step ::
  "(string \<rightharpoonup> int) \<Rightarrow> KeyValue \<Rightarrow> (string \<rightharpoonup> int) \<times> KeyValue option" where
  "revision_step lastRevisions kv =
     (let previous = previous_revision (lastRevisions (Key kv)) in
      if ModRevision kv \<le> previous then (lastRevisions, None)
      else (lastRevisions(Key kv \<mapsto> ModRevision kv), Some kv))"

text \<open>The goroutine of a filter: the outputs and the map after a list of inputs.\<close>

fun filter_run :: "('s \<Rightarrow> KeyValue \<Rightarrow> 's \<times> KeyValue option) \<Rightarrow> 's \<Rightarrow> KeyValue list \<Rightarrow> KeyValue list"
where
  "filter_run step m [] = []"
| "filter_run step m (kv # kvs) =
     (case step m kv of
        (m', None) \<Rightarrow> filter_run step m' kvs
      | (m', Some out) \<Rightarrow> out # filter_run step m' kvs)"

fun filter_state :: "('s \<Rightarrow> KeyValue \<Rightarrow> 's \<times> KeyValue option) \<Rightarrow> 's \<Rightarrow> KeyValue list \<Rightarrow> 's" where
  "filter_state step m [] = m"
| "filter_state step m (kv # kvs) = filter_state step (fst (step m kv)) kvs"

definition DedupeFilter :: "stream \<Rightarrow> stream" where
  "DedupeFilter s = (filter_run dedupe_step Map.empty (fst s), snd s)"

definition RevisionFilter :: "stream \<Rightarrow> stream" where
  "RevisionFilter s = (filter_run revision_step Map.empty (fst s), snd s)"

section \<open>The contract of a filter\<close>

locale keyed_filter =
  fixes step :: "(string \<rightharpoonup> 'v) \<Rightarrow> KeyValue \<Rightarrow> (string \<rightharpoonup> 'v) \<times> KeyValue option"
    and emits :: "'v option \<Rightarrow> KeyValue \<Rightarrow> bool"
    and remember :: "KeyValue \<Rightarrow> 'v"
  assumes step_emit: "emits (m (Key kv)) kv \<Longrightarrow> step m kv = (m(Key kv \<mapsto> remember kv), Some kv)"
    and step_skip: "\<not> emits (m (Key kv)) kv \<Longrightarrow> step m kv = (m, None)"
    and repeat_skip: "\<not> emits (Some (remember kv)) kv"
begin

lemma run_Cons:
  "filter_run step m (kv # kvs) =
     (if emits (m (Key kv)) kv then kv # filter_run step (m(Key kv \<mapsto> remember kv)) kvs
      else filter_run step m kvs)"
  by (cases "emits (m (Key kv)) kv") (simp_all add: step_emit step_skip)

lemma state_Cons:
  "filter_state step m (kv # kvs) =
     filter_state step (if emits (m (Key kv)) kv then m(Key kv \<mapsto> remember kv) else m) kvs"
  by (cases "emits (m (Key kv)) kv") (simp_all add: step_emit step_skip)

lemmas run_simps = filter_run.simps(1) run_Cons filter_state.simps(1) state_Cons

lemma run_append:
  "filter_run step m (xs @ ys) = filter_run step m xs @ filter_run step (filter_state step m xs) ys"
  by (induction xs arbitrary: m) (simp_all add: run_simps del: filter_run.simps(2) filter_state.simps(2))

lemma state_append:
  "filter_state step m (xs @ ys) = filter_state step (filter_state step m xs) ys"
  by (induction xs arbitrary: m) simp_all

lemma run_subseq: "subseq (filter_run step m kvs) kvs"
  by (induction kvs arbitrary: m) (auto simp: run_simps simp del: filter_run.simps(2))

lemma run_cong:
  "(\<And>kv. kv \<in> set kvs \<Longrightarrow> m (Key kv) = m' (Key kv)) \<Longrightarrow> filter_run step m kvs = filter_run step m' kvs"
proof (induction kvs arbitrary: m m')
  case Nil
  then show ?case by simp
next
  case (Cons kv kvs)
  have "filter_run step (m(Key kv \<mapsto> remember kv)) kvs = filter_run step (m'(Key kv \<mapsto> remember kv)) kvs"
    and "filter_run step m kvs = filter_run step m' kvs"
    using Cons.prems by (auto intro: Cons.IH)
  then show ?case using Cons.prems by (simp add: run_simps del: filter_run.simps(2))
qed

lemma run_per_key:
  "filter (\<lambda>kv. Key kv = k) (filter_run step m kvs) = filter_run step m (filter (\<lambda>kv. Key kv = k) kvs)"
proof (induction kvs arbitrary: m)
  case Nil
  then show ?case by simp
next
  case (Cons kv kvs)
  have "filter_run step (m(Key kv \<mapsto> remember kv)) (filter (\<lambda>kv. Key kv = k) kvs)
      = filter_run step m (filter (\<lambda>kv. Key kv = k) kvs)" if "Key kv \<noteq> k"
    using that by (intro run_cong) auto
  then show ?case using Cons.IH
    by (auto simp: run_simps simp del: filter_run.simps(2) fun_upd_apply)
qed

lemma run_idem: "filter_run step m (filter_run step m kvs) = filter_run step m kvs"
  by (induction kvs arbitrary: m) (simp_all add: run_simps del: filter_run.simps(2))

lemma run_repeat: "filter_run step m (kv # kv # kvs) = filter_run step m (kv # kvs)"
  by (simp add: run_simps repeat_skip del: filter_run.simps(2))

text \<open>Which positions of the input pass.\<close>

lemma run_positions:
  "filter_run step m kvs =
     map ((!) kvs) (filter (\<lambda>i. emits (filter_state step m (take i kvs) (Key (kvs ! i))) (kvs ! i))
       [0..<length kvs])"
proof (induction kvs rule: rev_induct)
  case Nil
  then show ?case by simp
next
  case (snoc kv kvs)
  have "filter (\<lambda>i. emits (filter_state step m (take i (kvs @ [kv])) (Key ((kvs @ [kv]) ! i))) ((kvs @ [kv]) ! i))
      [0..<length kvs]
    = filter (\<lambda>i. emits (filter_state step m (take i kvs) (Key (kvs ! i))) (kvs ! i)) [0..<length kvs]"
    by (rule filter_cong) (auto simp: nth_append)
  moreover have "map ((!) (kvs @ [kv])) (filter P [0..<length kvs]) = map ((!) kvs) (filter P [0..<length kvs])"
    for P by (simp add: nth_append)
  ultimately show ?case using snoc by (simp add: run_append run_simps del: filter_run.simps(2))
qed

end

section \<open>Both filters keep the contract\<close>

definition dedupe_emits :: "string option \<Rightarrow> KeyValue \<Rightarrow> bool" where
  "dedupe_emits m kv \<longleftrightarrow> previous_value m \<noteq> Value kv"

definition revision_emits :: "int option \<Rightarrow> KeyValue \<Rightarrow> bool" where
  "revision_emits m kv \<longleftrightarrow> previous_revision m < ModRevision kv"

interpretation dedupe: keyed_filter dedupe_step dedupe_emits Value
  by unfold_locales (simp_all add: dedupe_step_def dedupe_emits_def previous_value_def)

interpretation revision: keyed_filter revision_step revision_emits ModRevision
  by unfold_locales (simp_all add: revision_step_def revision_emits_def previous_revision_def)

section \<open>What passes the revision filter\<close>

definition fresh_at :: "KeyValue list \<Rightarrow> nat \<Rightarrow> bool" where
  "fresh_at kvs i \<longleftrightarrow> 0 < ModRevision (kvs ! i) \<and>
     list_all (\<lambda>kv. Key kv = Key (kvs ! i) \<longrightarrow> ModRevision kv < ModRevision (kvs ! i)) (take i kvs)"

lemma revision_state:
  "previous_revision (filter_state revision_step Map.empty kvs k) < n \<longleftrightarrow>
     0 < n \<and> (\<forall>kv \<in> set kvs. Key kv = k \<longrightarrow> ModRevision kv < n)"
proof (induction kvs rule: rev_induct)
  case Nil
  then show ?case by (simp add: previous_revision_def)
next
  case (snoc kv kvs)
  let ?m = "filter_state revision_step Map.empty kvs"
  show ?case
  proof (cases "Key kv = k")
    case True
    then have "previous_revision (filter_state revision_step Map.empty (kvs @ [kv]) k) =
        max (previous_revision (?m k)) (ModRevision kv)"
      by (auto simp: revision.state_append revision_step_def previous_revision_def Let_def)
    with True snoc.IH show ?thesis by auto
  next
    case False
    then have "filter_state revision_step Map.empty (kvs @ [kv]) k = ?m k"
      by (auto simp: revision.state_append revision_step_def Let_def)
    with False snoc.IH show ?thesis by auto
  qed
qed

text \<open>
  C23. The revision filter passes exactly the events whose revision is positive and larger than that
  of every earlier event of the same key, in order; closing is passed on.
\<close>

theorem RevisionFilter_passes_fresh:
  "RevisionFilter (kvs, c) = (map ((!) kvs) (filter (fresh_at kvs) [0..<length kvs]), c)"
proof -
  have "revision_emits (filter_state revision_step Map.empty (take i kvs) (Key (kvs ! i))) (kvs ! i)
      = fresh_at kvs i" for i
    by (simp add: revision_emits_def revision_state fresh_at_def list_all_iff)
  then show ?thesis by (simp add: RevisionFilter_def revision.run_positions)
qed

lemma revision_snoc:
  "fst (RevisionFilter (kvs @ [kv], c)) =
     fst (RevisionFilter (kvs, c)) @
       (if 0 < ModRevision kv \<and> (\<forall>kv' \<in> set kvs. Key kv' = Key kv \<longrightarrow> ModRevision kv' < ModRevision kv)
        then [kv] else [])"
proof -
  have "revision_emits (filter_state revision_step Map.empty kvs (Key kv)) kv \<longleftrightarrow>
      0 < ModRevision kv \<and> (\<forall>kv' \<in> set kvs. Key kv' = Key kv \<longrightarrow> ModRevision kv' < ModRevision kv)"
    by (simp only: revision_emits_def revision_state)
  then show ?thesis
    by (simp add: RevisionFilter_def revision.run_append revision.run_simps del: filter_run.simps(2))
qed

lemma revision_set: "set (fst (RevisionFilter s)) \<subseteq> set (fst s)"
  by (simp add: RevisionFilter_def subseq_set revision.run_subseq)

text \<open>
  After the revision filter the revisions of each key are strictly increasing, although etcd
  hands its events over out of order and more than once.
\<close>

theorem RevisionFilter_increasing:
  "sorted_wrt (\<lambda>a b. Key a = Key b \<longrightarrow> ModRevision a < ModRevision b) (fst (RevisionFilter (kvs, c)))"
proof (induction kvs rule: rev_induct)
  case Nil
  then show ?case by (simp add: RevisionFilter_def)
next
  case (snoc kv kvs)
  with revision_set [of "(kvs, c)"] show ?case
    by (auto simp: revision_snoc sorted_wrt_append)
qed

text \<open>For a single key the last event that passes is the newest one received.\<close>

lemma revision_last:
  assumes "\<forall>kv \<in> set kvs. Key kv = k" and "\<exists>kv \<in> set kvs. 0 < ModRevision kv"
  shows "fst (RevisionFilter (kvs, c)) \<noteq> [] \<and>
    last (fst (RevisionFilter (kvs, c))) \<in> set kvs \<and>
    (\<forall>kv \<in> set kvs. ModRevision kv \<le> ModRevision (last (fst (RevisionFilter (kvs, c)))))"
  using assms
proof (induction kvs rule: rev_induct)
  case Nil
  then show ?case by simp
next
  case (snoc kv kvs)
  let ?out = "fst (RevisionFilter (kvs, c))"
  show ?case
  proof (cases "\<exists>kv \<in> set kvs. 0 < ModRevision kv")
    case True
    with snoc have IH: "?out \<noteq> []" "last ?out \<in> set kvs"
        "\<forall>kv \<in> set kvs. ModRevision kv \<le> ModRevision (last ?out)" by auto
    from True IH(3) have pos: "0 < ModRevision (last ?out)" by fastforce
    show ?thesis
    proof (cases "\<forall>kv' \<in> set kvs. ModRevision kv' < ModRevision kv")
      case True
      with IH(2) pos have "0 < ModRevision kv" by fastforce
      with True snoc.prems show ?thesis by (force simp: revision_snoc)
    next
      case False
      then obtain kv' where "kv' \<in> set kvs" "ModRevision kv \<le> ModRevision kv'" by force
      with IH(3) have "ModRevision kv \<le> ModRevision (last ?out)" by fastforce
      with False IH snoc.prems show ?thesis by (auto simp: revision_snoc)
    qed
  next
    case False
    with snoc.prems have "0 < ModRevision kv" by auto
    moreover have le: "\<forall>kv' \<in> set kvs. ModRevision kv' \<le> 0" using False by force
    ultimately have "\<forall>kv' \<in> set kvs. ModRevision kv' < ModRevision kv" by fastforce
    with \<open>0 < ModRevision kv\<close> show ?thesis by (force simp: revision_snoc)
  qed
qed

section \<open>What passes the dedupe filter\<close>

definition last_value :: "KeyValue list \<Rightarrow> string \<Rightarrow> string" where
  "last_value kvs k =
     (case filter (\<lambda>kv. Key kv = k) kvs of [] \<Rightarrow> '''' | kv # kvs' \<Rightarrow> Value (last (kv # kvs')))"

definition changed_at :: "KeyValue list \<Rightarrow> nat \<Rightarrow> bool" where
  "changed_at kvs i \<longleftrightarrow> last_value (take i kvs) (Key (kvs ! i)) \<noteq> Value (kvs ! i)"

lemma last_value_snoc [simp]:
  "last_value (kvs @ [kv]) k = (if Key kv = k then Value kv else last_value kvs k)"
  by (cases "filter (\<lambda>kv. Key kv = k) kvs") (auto simp: last_value_def)

lemma dedupe_step_value:
  "previous_value (fst (dedupe_step m kv) k) = (if Key kv = k then Value kv else previous_value (m k))"
  by (auto simp: dedupe_step_def Let_def) (simp add: previous_value_def)

lemma dedupe_state:
  "previous_value (filter_state dedupe_step Map.empty kvs k) = last_value kvs k"
proof (induction kvs arbitrary: k rule: rev_induct)
  case Nil
  then show ?case by (simp add: previous_value_def last_value_def)
next
  case (snoc kv kvs)
  then show ?case by (simp add: dedupe.state_append dedupe_step_value)
qed

text \<open>
  The dedupe filter passes exactly the events whose value differs from the last value seen for
  the same key; a key not seen before counts as holding the empty value, so a first event with an
  empty value is dropped.
\<close>

theorem DedupeFilter_passes_changes:
  "DedupeFilter (kvs, c) = (map ((!) kvs) (filter (changed_at kvs) [0..<length kvs]), c)"
proof -
  have "dedupe_emits (filter_state dedupe_step Map.empty (take i kvs) (Key (kvs ! i))) (kvs ! i)
      = changed_at kvs i" for i
    by (simp add: dedupe_emits_def dedupe_state changed_at_def)
  then show ?thesis by (simp add: DedupeFilter_def dedupe.run_positions)
qed

lemma dedupe_snoc:
  "fst (DedupeFilter (kvs @ [kv], c)) =
     fst (DedupeFilter (kvs, c)) @ (if last_value kvs (Key kv) = Value kv then [] else [kv])"
proof -
  have "dedupe_emits (filter_state dedupe_step Map.empty kvs (Key kv)) kv \<longleftrightarrow>
      last_value kvs (Key kv) \<noteq> Value kv"
    by (simp add: dedupe_emits_def dedupe_state)
  then show ?thesis
    by (simp add: DedupeFilter_def dedupe.run_append dedupe.run_simps del: filter_run.simps(2))
qed

text \<open>For one key, the last event that passes carries the value of the last event received.\<close>

lemma dedupe_last:
  assumes "\<forall>kv \<in> set kvs. Key kv = k" and "kvs \<noteq> []" and "\<exists>kv \<in> set kvs. Value kv \<noteq> ''''"
  shows "fst (DedupeFilter (kvs, c)) \<noteq> [] \<and> Value (last (fst (DedupeFilter (kvs, c)))) = Value (last kvs)"
  using assms
proof (induction kvs rule: rev_induct)
  case Nil
  then show ?case by simp
next
  case (snoc kv kvs)
  have lv: "last_value kvs k = (if kvs = [] then '''' else Value (last kvs))"
    using snoc.prems(1) by (cases kvs) (auto simp: last_value_def)
  show ?case
  proof (cases "last_value kvs (Key kv) = Value kv")
    case True
    with snoc.prems lv have "kvs \<noteq> []" "Value (last kvs) = Value kv" 
      by (auto split: if_splits)
    moreover from this snoc.prems(3) have "\<exists>kv \<in> set kvs. Value kv \<noteq> ''''"
      by (auto intro: bexI [of _ "last kvs"])
    ultimately show ?thesis using True snoc by (auto simp: dedupe_snoc)
  next
    case False
    then show ?thesis by (simp add: dedupe_snoc)
  qed
qed

section \<open>Facts of both filters\<close>

text \<open>
  Both filters only leave events out, never reorder or invent them; they treat each key on its
  own (what they pass for a key depends on the events of that key alone); and running a filter a
  second time changes nothing.
\<close>

theorem filters_are_keyed_sublists:
  "subseq (fst (RevisionFilter s)) (fst s) \<and> subseq (fst (DedupeFilter s)) (fst s) \<and>
   filter (\<lambda>kv. Key kv = k) (fst (RevisionFilter (kvs, c))) =
     fst (RevisionFilter (filter (\<lambda>kv. Key kv = k) kvs, c)) \<and>
   filter (\<lambda>kv. Key kv = k) (fst (DedupeFilter (kvs, c))) =
     fst (DedupeFilter (filter (\<lambda>kv. Key kv = k) kvs, c)) \<and>
   RevisionFilter (RevisionFilter s) = RevisionFilter s \<and>
   DedupeFilter (DedupeFilter s) = DedupeFilter s"
  by (simp add: RevisionFilter_def DedupeFilter_def revision.run_subseq dedupe.run_subseq
      revision.run_per_key dedupe.run_per_key revision.run_idem dedupe.run_idem)

end
