(* ===== verification/Interfaces.thy ===== *)
theory Interfaces
  imports Etree Streams
begin

text \<open>
  The Go interfaces through which the components call each other, as records of operations, and the
  contracts behind them, as locales. Each locale is interpreted in the theory of the component that
  provides the operations: \<open>pauser\<close> in \<open>Bouncer\<close>, \<open>crm\<close> in \<open>Pacemaker\<close>, \<open>kv_source\<close> in \<open>Etcd\<close> and
  \<open>PacemakerStream\<close>.
\<close>

section \<open>The interfaces of the failover server\<close>

record 'w pauser =
  pauser_Pause :: "ctx \<Rightarrow> 'w \<Rightarrow> goerr option \<times> 'w"
  pauser_Resume :: "ctx \<Rightarrow> 'w \<Rightarrow> goerr option \<times> 'w"

record 'w crm =
  crm_Get :: "ctx \<Rightarrow> string list \<Rightarrow> 'w \<Rightarrow> element option list outcome \<times> 'w"
  crm_ResolveAddress :: "ctx \<Rightarrow> string \<Rightarrow> 'w \<Rightarrow> (goerr + string) \<times> 'w"
  crm_Migrate :: "ctx \<Rightarrow> string \<Rightarrow> 'w \<Rightarrow> goerr option \<times> 'w"
  crm_Unmigrate :: "ctx \<Rightarrow> 'w \<Rightarrow> goerr option \<times> 'w"

text \<open>
  What a pauser reports is what happened: no error means paused (resumed), an error means unchanged.
  The premise \<open>lawful\<close> is the provider's condition on the service it wraps.
\<close>

locale pauser_contract =
  fixes b :: "'w pauser" and paused :: "'w \<Rightarrow> bool" and lawful :: bool
  assumes pause_ok: "lawful \<Longrightarrow> pauser_Pause b ctx w = (None, w') \<Longrightarrow> paused w'"
    and pause_err: "lawful \<Longrightarrow> pauser_Pause b ctx w = (Some e, w') \<Longrightarrow> paused w' = paused w"
    and resume_ok: "lawful \<Longrightarrow> pauser_Resume b ctx w = (None, w') \<Longrightarrow> \<not> paused w'"
    and resume_err: "lawful \<Longrightarrow> pauser_Resume b ctx w = (Some e, w') \<Longrightarrow> paused w' = paused w"
begin

lemma pause_eq:
  "lawful \<Longrightarrow> pauser_Pause b ctx w = (e, w') \<Longrightarrow> paused w' \<longleftrightarrow> e = None \<or> paused w"
  using pause_ok pause_err by (cases e) auto

lemma resume_eq:
  "lawful \<Longrightarrow> pauser_Resume b ctx w = (e, w') \<Longrightarrow> paused w' \<longleftrightarrow> e \<noteq> None \<and> paused w"
  using resume_ok resume_err by (cases e) auto

end

text \<open>
  A cluster resource manager answers a query with one node for each path, and panics only over a path
  that does not compile; without a well-formed node ID it runs nothing.
\<close>

definition compiles :: "string \<Rightarrow> bool" where
  "compiles path \<longleftrightarrow> is_ok (MustCompilePath path)"

locale crm_contract =
  fixes c :: "'w crm" and valid_id :: "string \<Rightarrow> bool"
  assumes get_length: "crm_Get c ctx xpaths w = (Ok nodes, w') \<Longrightarrow> length nodes = length xpaths"
    and get_no_panic: "list_all compiles xpaths \<Longrightarrow> crm_Get c ctx xpaths w \<noteq> (Panic p, w')"
    and resolve_invalid: "\<not> valid_id n \<Longrightarrow> crm_ResolveAddress c ctx n w = (Inl (InvalidNodeIDError n), w)"
begin

lemma get_one:
  assumes "compiles xpath"
  obtains (Nodes) n w' where "crm_Get c ctx [xpath] w = (Ok [n], w')"
  | (Error) e w' where "crm_Get c ctx [xpath] w = (Err e, w')"
proof -
  obtain r w' where r: "crm_Get c ctx [xpath] w = (r, w')" by fastforce
  show thesis
  proof (cases r)
    case (Ok nodes)
    with get_length [of ctx "[xpath]" w nodes w'] r obtain n where "nodes = [n]"
      by (cases nodes) auto
    with r Ok that(1) show thesis by simp
  next
    case (Err e)
    with r that(2) show thesis by simp
  next
    case (Panic p)
    with r get_no_panic [of "[xpath]" ctx w p w'] assms show thesis by simp
  qed
qed

end

section \<open>Sources of events\<close>

text \<open>
  The producers of the two streams: whatever they interleave, they send only events of the configured
  keys, and nothing once the channel is closed (a send would panic).
\<close>

locale kv_source =
  fixes step :: "'s \<Rightarrow> 's \<Rightarrow> bool" and initial :: "'s \<Rightarrow> bool" and inv :: "'s \<Rightarrow> bool"
    and sent :: "'s \<Rightarrow> KeyValue list" and closed :: "'s \<Rightarrow> bool" and keys :: "string list"
  assumes initial_inv: "initial s \<Longrightarrow> inv s \<and> sent s = []"
    and step_inv: "inv s \<Longrightarrow> step s s' \<Longrightarrow> inv s'"
    and step_sent: "inv s \<Longrightarrow> step s s' \<Longrightarrow>
      sent s' = sent s \<or> (\<exists>kv. Key kv \<in> set keys \<and> \<not> closed s \<and> sent s' = sent s @ [kv])"
    and step_closed: "inv s \<Longrightarrow> step s s' \<Longrightarrow> closed s \<Longrightarrow> closed s'"
begin

lemma reachable_inv: "step\<^sup>*\<^sup>* s s' \<Longrightarrow> inv s \<Longrightarrow> inv s'"
  by (induction rule: rtranclp_induct) (auto dest: step_inv)

lemma sent_keys:
  assumes "initial s" and "step\<^sup>*\<^sup>* s s'"
  shows "\<forall>kv \<in> set (sent s'). Key kv \<in> set keys"
  using assms(2)
proof (induction rule: rtranclp_induct)
  case base
  with assms(1) show ?case by (simp add: initial_inv)
next
  case (step s1 s2)
  then have "inv s1" using assms(1) initial_inv reachable_inv by blast
  with step.IH step_sent [OF _ step.hyps(2)] show ?case by auto
qed

lemma sent_grows: "step\<^sup>*\<^sup>* s s' \<Longrightarrow> inv s \<Longrightarrow> prefix (sent s) (sent s')"
proof (induction rule: rtranclp_induct)
  case base
  then show ?case by simp
next
  case (step s1 s2)
  then have "inv s1" using reachable_inv by blast
  with step.hyps(2) step_sent have "prefix (sent s1) (sent s2)" by (auto dest!: step_sent)
  with step.IH step.prems show ?case using prefix_order.order_trans by blast
qed

lemma closed_final:
  assumes "step\<^sup>*\<^sup>* s s'" and "inv s" and "closed s"
  shows "closed s' \<and> sent s' = sent s"
  using assms
proof (induction rule: rtranclp_induct)
  case base
  then show ?case by simp
next
  case (step s1 s2)
  then have "inv s1" using reachable_inv by blast
  moreover from step have "closed s1" "sent s1 = sent s" by auto
  ultimately show ?case using step_sent [OF _ step.hyps(2)] step_closed [OF _ step.hyps(2)] by auto
qed

end

end
