(* ===== verification/Bouncer.thy ===== *)
theory Bouncer
  imports Interfaces
begin

text \<open>
  \<open>pkg/pgbouncer\<close>: the admin commands of PgBouncer and its configuration file (\<open>pgbouncer.go\<close>), and
  the executor that runs a command on a fresh connection (\<open>executor.go\<close>).

  Parameters of the model: the \<open>pgx\<close> driver (connect, query, execute, the decoding of a cell), the file
  system and the template engine of \<open>html/template\<close>. The regular expressions of the source are
  written out as matchers.
\<close>

section \<open>The executor\<close>

text \<open>
  The rows of a query as the driver hands them over: the column names known after the first \<open>Next\<close>,
  the rows that \<open>Next\<close> finds and the error that ends them, if any. A cell is a text or NULL.
\<close>

record Rows =
  Fields :: "string list"
  Data :: "string option list list"
  EndErr :: "goerr option"

record ConnConfig =
  cfg_Database :: string
  cfg_User :: string
  cfg_Password :: string
  cfg_Host :: string
  cfg_Port :: "16 word"
  cfg_RuntimeParams :: "(string \<times> string) list"
  cfg_PreferSimpleProtocol :: bool

record 'w pgx =
  Connect :: "ConnConfig \<Rightarrow> 'w \<Rightarrow> (goerr + nat) \<times> 'w"   \<comment> \<open>a connection is a handle\<close>
  QueryEx :: "nat \<Rightarrow> ctx \<Rightarrow> string \<Rightarrow> 'w \<Rightarrow> (goerr + Rows) \<times> 'w"
  ExecEx :: "nat \<Rightarrow> ctx \<Rightarrow> string \<Rightarrow> 'w \<Rightarrow> goerr option \<times> 'w"

record AuthorizedExecutor =
  User :: string
  Password :: string
  Database :: string
  SocketDir :: string
  Port :: string

definition Connection :: "AuthorizedExecutor \<Rightarrow> 'w pgx \<Rightarrow> 'w \<Rightarrow> (goerr + nat) \<times> 'w" where
  "Connection e pgx w =
     (case Atoi (Port e) of
        Inl err \<Rightarrow> (Inl (Wrapped err ''failed to parse valid port number''), w)
      | Inr port \<Rightarrow>
          Connect pgx
            \<lparr>cfg_Database = Database e, cfg_User = User e, cfg_Password = Password e,
             cfg_Host = SocketDir e, cfg_Port = word_of_int port,
             cfg_RuntimeParams = [(''client_encoding'', ''UTF8'')],
             cfg_PreferSimpleProtocol = True\<rparr> w)"

definition auth_Query ::
  "AuthorizedExecutor \<Rightarrow> 'w pgx \<Rightarrow> ctx \<Rightarrow> string \<Rightarrow> 'w \<Rightarrow> (goerr + Rows) \<times> 'w" where
  "auth_Query e pgx ctx query w =
     (case Connection e pgx w of
        (Inl err, w') \<Rightarrow> (Inl err, w')
      | (Inr conn, w') \<Rightarrow> QueryEx pgx conn ctx query w')"

definition auth_Execute ::
  "AuthorizedExecutor \<Rightarrow> 'w pgx \<Rightarrow> ctx \<Rightarrow> string \<Rightarrow> 'w \<Rightarrow> goerr option \<times> 'w" where
  "auth_Execute e pgx ctx query w =
     (case Connection e pgx w of
        (Inl err, w') \<Rightarrow> (Some err, w')
      | (Inr conn, w') \<Rightarrow> ExecEx pgx conn ctx query w')"

text \<open>The interface the rest of the package uses, with the decoding of cells by the driver.\<close>

record 'w executor =
  Query :: "ctx \<Rightarrow> string \<Rightarrow> 'w \<Rightarrow> (goerr + Rows) \<times> 'w"
  Execute :: "ctx \<Rightarrow> string \<Rightarrow> 'w \<Rightarrow> goerr option \<times> 'w"
  scan_string :: "string option \<Rightarrow> goerr + string option"
  scan_int :: "string option \<Rightarrow> goerr + int option"

section \<open>The configuration file\<close>

record 'w os =
  ReadFile :: "string \<Rightarrow> 'w \<Rightarrow> goerr + string"
  WriteFile :: "string \<Rightarrow> string \<Rightarrow> 'w \<Rightarrow> goerr option \<times> 'w"

record 't templating =
  Parse :: "string \<Rightarrow> goerr + 't"
  Render :: "'t \<Rightarrow> string \<Rightarrow> goerr + string"   \<comment> \<open>\<open>Execute\<close> on the struct with the field \<open>Host\<close>\<close>

record 'w PgBouncer =
  ConfigFile :: string
  ConfigTemplateFile :: string
  Executor :: "'w executor"

text \<open>
  The match of \<open>^(\S+)\s*\=\s*(\S+)$\<close> on a line. The first group is greedy, so that the longest key that
  lets the rest match wins; after the key the match is determined.
\<close>

definition match_rest :: "string \<Rightarrow> string option" where
  "match_rest s =
     (case dropWhile re_space s of
        c # rest \<Rightarrow>
          (let v = dropWhile re_space rest in
           if c = CHR ''='' \<and> v \<noteq> [] \<and> list_all (\<lambda>x. \<not> re_space x) v then Some v else None)
      | [] \<Rightarrow> None)"

fun match_key :: "nat \<Rightarrow> string \<Rightarrow> (string \<times> string) option" where
  "match_key 0 s = None"
| "match_key (Suc n) s =
     (if list_all (\<lambda>x. \<not> re_space x) (take (Suc n) s) then
        (case match_rest (drop (Suc n) s) of
           Some v \<Rightarrow> Some (take (Suc n) s, v)
         | None \<Rightarrow> match_key n s)
      else match_key n s)"

definition config_match :: "string \<Rightarrow> (string \<times> string) option" where
  "config_match line = match_key (length line) line"

text \<open>
  \<open>bufio.Scanner\<close> over lines: a carriage return before the line break is dropped, an empty last line
  is no token, and a line that does not fit the buffer of 64 KiB ends the scan.
\<close>

definition dropCR :: "string \<Rightarrow> string" where
  "dropCR s = (if s \<noteq> [] \<and> last s = CHR 0x0D then butlast s else s)"

fun scan_pieces :: "string list \<Rightarrow> string list" where
  "scan_pieces [] = []"
| "scan_pieces [p] = (if p = [] \<or> 65536 \<le> length p then [] else [dropCR p])"
| "scan_pieces (p # q # ps) =
     (if 65536 \<le> length p then [] else dropCR p # scan_pieces (q # ps))"

definition scan_lines :: "string \<Rightarrow> string list" where
  "scan_lines s = scan_pieces (split_on (CHR 0x0A) s)"

fun config_lines :: "string list \<Rightarrow> (string \<rightharpoonup> string) \<Rightarrow> (string \<rightharpoonup> string)" where
  "config_lines [] config = config"
| "config_lines (line # lines) config =
     config_lines lines (case config_match line of None \<Rightarrow> config | Some (k, v) \<Rightarrow> config(k \<mapsto> v))"

definition Config :: "'w PgBouncer \<Rightarrow> 'w os \<Rightarrow> 'w \<Rightarrow> goerr + (string \<rightharpoonup> string)" where
  "Config b os w =
     (case ReadFile os (ConfigTemplateFile b) w of
        Inl err \<Rightarrow> Inl (Wrapped err ''failed to read PgBouncer config template file'')
      | Inr content \<Rightarrow> Inr (config_lines (scan_lines content) Map.empty))"

text \<open>The search for \<open>ignore_startup_parameters\s*\=.+extra_float_digits\<close> in the template.\<close>

definition match_float_digits_rest :: "string \<Rightarrow> bool" where
  "match_float_digits_rest s =
     (case dropWhile re_space s of
        c # rest \<Rightarrow>
          (let line = takeWhile (\<lambda>x. x \<noteq> CHR 0x0A) rest in
           c = CHR ''='' \<and> line \<noteq> [] \<and> contains (tl line) ''extra_float_digits'')
      | [] \<Rightarrow> False)"

fun match_float_digits :: "string \<Rightarrow> bool" where
  "match_float_digits s =
     ((prefix ''ignore_startup_parameters'' s \<and>
         match_float_digits_rest (drop (length ''ignore_startup_parameters'') s)) \<or>
      (case s of [] \<Rightarrow> False | c # cs \<Rightarrow> match_float_digits cs))"

declare match_float_digits.simps [simp del]

definition createTemplate :: "'w PgBouncer \<Rightarrow> 'w os \<Rightarrow> 't templating \<Rightarrow> 'w \<Rightarrow> 't outcome" where
  "createTemplate b os tm w =
     (case ReadFile os (ConfigTemplateFile b) w of
        Inl err \<Rightarrow> Err (Wrapped err ''failed to read PgBouncer config template file'')
      | Inr content \<Rightarrow>
          (if \<not> match_float_digits content then
             Err (Plain (''PgBouncer is misconfigured: expected config file '' @ [quote] @
               ConfigTemplateFile b @ [quote] @ '' to define '' @ [quote] @ ''ignore_startup_paramets'' @
               [quote] @ '' to include '' @ [quote] @ ''extra_float_digits'' @ [quote]))
           else case Parse tm content of
             Inl err \<Rightarrow> Panic (Explicit (err_string err))
           | Inr t \<Rightarrow> Ok t))"

definition GenerateConfig ::
  "'w PgBouncer \<Rightarrow> 'w os \<Rightarrow> 't templating \<Rightarrow> string \<Rightarrow> 'w \<Rightarrow> unit outcome \<times> 'w" where
  "GenerateConfig b os tm host w =
     (case createTemplate b os tm w of
        Err err \<Rightarrow> (Err err, w)
      | Panic p \<Rightarrow> (Panic p, w)
      | Ok t \<Rightarrow>
          (case Render tm t host of
             Inl err \<Rightarrow> (Err (Wrapped err ''failed to render PgBouncer config''), w)
           | Inr config \<Rightarrow>
               (case WriteFile os (ConfigFile b) config w of (err, w') \<Rightarrow> (of_err err, w'))))"

section \<open>The admin commands\<close>

record db =
  Name :: string
  Host :: string
  db_Port :: string
  CurrentConnections :: int

definition PoolerError :: string where "PoolerError = ''08P01''"
definition AlreadyPausedError :: string where "AlreadyPausedError = ''already suspended/paused''"
definition AlreadyResumedError :: string where "AlreadyResumedError = ''pooler is not paused/suspended''"

text \<open>\<open>indexOfColumn\<close>: \<open>None\<close> is the index \<open>-1\<close>, at which the assignment to the slice panics.\<close>

fun indexOfColumn :: "string list \<Rightarrow> string \<Rightarrow> nat option" where
  "indexOfColumn [] c = None"
| "indexOfColumn (f # fs) c = (if f = c then Some 0 else map_option Suc (indexOfColumn fs c))"

text \<open>
  \<open>rows.Scan\<close> of one row: every cell goes to the variable that its column is mapped to, left to right;
  columns that are not asked for are scanned as strings and dropped.
\<close>

fun scan_cells ::
  "'w executor \<Rightarrow> string list \<Rightarrow> (nat \<Rightarrow> bool) \<Rightarrow> nat \<Rightarrow> string option list \<Rightarrow> goerr option" where
  "scan_cells ex cols is_int i [] = None"
| "scan_cells ex cols is_int i (c # cs) =
     (case (if is_int i then map_sum id (\<lambda>_. ()) (scan_int ex c) else map_sum id (\<lambda>_. ()) (scan_string ex c)) of
        Inl err \<Rightarrow> Some err
      | Inr _ \<Rightarrow> scan_cells ex cols is_int (Suc i) cs)"

text \<open>The \<open>String\<close> and \<open>Int64\<close> fields of a null value are the zero values.\<close>

definition string_at :: "'w executor \<Rightarrow> string option list \<Rightarrow> nat \<Rightarrow> string" where
  "string_at ex row i = (case scan_string ex (row ! i) of Inr (Some s) \<Rightarrow> s | _ \<Rightarrow> '''')"

definition int_at :: "'w executor \<Rightarrow> string option list \<Rightarrow> nat \<Rightarrow> int" where
  "int_at ex row i = (case scan_int ex (row ! i) of Inr (Some n) \<Rightarrow> n | _ \<Rightarrow> 0)"

fun scan_rows ::
  "'w executor \<Rightarrow> string list \<Rightarrow> nat \<times> nat \<times> nat \<times> nat \<Rightarrow> string option list list \<Rightarrow> goerr + db list" where
  "scan_rows ex cols ix [] = Inr []"
| "scan_rows ex cols (n, h, p, c) (row # rows) =
     (case scan_cells ex cols (\<lambda>i. i = c) 0 row of
        Some err \<Rightarrow> Inl err
      | None \<Rightarrow>
          (case scan_rows ex cols (n, h, p, c) rows of
             Inl err \<Rightarrow> Inl err
           | Inr dbs \<Rightarrow>
               Inr (\<lparr>Name = string_at ex row n, Host = string_at ex row h, db_Port = string_at ex row p,
                     CurrentConnections = int_at ex row c\<rparr> # dbs)))"

text \<open>
  The result of the first \<open>Next\<close> is not looked at: without a row the driver's \<open>Scan\<close> dereferences a
  missing column description, and without a column description (an error from the server) the slice
  of column pointers is indexed at \<open>-1\<close>.
\<close>

definition ShowDatabases :: "'w PgBouncer \<Rightarrow> ctx \<Rightarrow> 'w \<Rightarrow> db list outcome \<times> 'w" where
  "ShowDatabases b ctx w =
     (case Query (Executor b) ctx ''SHOW DATABASES;'' w of
        (Inl err, w') \<Rightarrow> (Err err, w')
      | (Inr rows, w') \<Rightarrow>
          (let ix = indexOfColumn (Fields rows) in
           case (ix ''name'', ix ''host'', ix ''port'', ix ''current_connections'') of
             (Some n, Some h, Some p, Some c) \<Rightarrow>
               (if Data rows = [] then (Panic NilDereference, w')
                else case scan_rows (Executor b) (Fields rows) (n, h, p, c) (Data rows) of
                  Inl err \<Rightarrow> (Err err, w')
                | Inr dbs \<Rightarrow>
                    (case EndErr rows of None \<Rightarrow> (Ok dbs, w') | Some err \<Rightarrow> (Err err, w')))
           | _ \<Rightarrow> (Panic IndexOutOfRange, w')))"

definition tolerated :: "string \<Rightarrow> goerr \<Rightarrow> bool" where
  "tolerated message err \<longleftrightarrow>
     (case err of PgError sev code msg \<Rightarrow> code = PoolerError \<and> msg = message | _ \<Rightarrow> False)"

definition Pause :: "'w PgBouncer \<Rightarrow> ctx \<Rightarrow> 'w \<Rightarrow> goerr option \<times> 'w" where
  "Pause b ctx w =
     (case Execute (Executor b) ctx ''PAUSE;'' w of
        (None, w') \<Rightarrow> (None, w')
      | (Some err, w') \<Rightarrow> ((if tolerated AlreadyPausedError err then None else Some err), w'))"

definition Resume :: "'w PgBouncer \<Rightarrow> ctx \<Rightarrow> 'w \<Rightarrow> goerr option \<times> 'w" where
  "Resume b ctx w =
     (case Execute (Executor b) ctx ''RESUME;'' w of
        (None, w') \<Rightarrow> (None, w')
      | (Some err, w') \<Rightarrow> ((if tolerated AlreadyResumedError err then None else Some err), w'))"

fun disable_each :: "'w PgBouncer \<Rightarrow> ctx \<Rightarrow> string list \<Rightarrow> 'w \<Rightarrow> unit outcome \<times> 'w" where
  "disable_each b ctx [] w = (Ok (), w)"
| "disable_each b ctx (d # ds) w =
     (case Execute (Executor b) ctx (''DISABLE '' @ d @ '';'') w of
        (Some err, w') \<Rightarrow> (Err err, w')
      | (None, w') \<Rightarrow> disable_each b ctx ds w')"

definition Disable :: "'w PgBouncer \<Rightarrow> ctx \<Rightarrow> string list \<Rightarrow> 'w \<Rightarrow> unit outcome \<times> 'w" where
  "Disable b ctx databases w =
     (if databases = [] then
        (case ShowDatabases b ctx w of
           (Ok dbs, w') \<Rightarrow> disable_each b ctx (filter (\<lambda>d. d \<noteq> ''pgbouncer'') (map Name dbs)) w'
         | (Err err, w') \<Rightarrow> (Err err, w')
         | (Panic p, w') \<Rightarrow> (Panic p, w'))
      else disable_each b ctx databases w)"

definition Reload :: "'w PgBouncer \<Rightarrow> ctx \<Rightarrow> 'w \<Rightarrow> goerr option \<times> 'w" where
  "Reload b ctx w = Execute (Executor b) ctx ''RELOAD;'' w"

definition bouncer_Connect :: "'w PgBouncer \<Rightarrow> ctx \<Rightarrow> 'w \<Rightarrow> goerr option \<times> 'w" where
  "bouncer_Connect b ctx w = Execute (Executor b) ctx ''SHOW VERSION;'' w"

section \<open>The port\<close>

text \<open>
  A decimal port in the 16-bit range is the port connected to. Any other number that fits an
  \<open>int\<close> is not rejected but reduced modulo 65536, for instance 70000 to 4464.
\<close>

theorem Connection_port:
  assumes "Atoi (Port e) = Inr n"
  shows "\<exists>cfg. Connection e pgx w = Connect pgx cfg w \<and> uint (cfg_Port cfg) = n mod 65536 \<and>
    (uint (cfg_Port cfg) = n \<longleftrightarrow> 0 \<le> n \<and> n < 65536)"
proof -
  have "uint (word_of_int n :: 16 word) = n mod 65536"
    by (simp add: uint_word_of_int take_bit_eq_mod)
  moreover have "n mod 65536 = n \<longleftrightarrow> 0 \<le> n \<and> n < 65536"
    by (metis mod_pos_pos_trivial pos_mod_bound pos_mod_sign zero_less_numeral)
  ultimately show ?thesis using assms by (auto simp: Connection_def)
qed

theorem Connection_port_witness:
  "\<exists>cfg. Connection \<lparr>User = ''u'', Password = '''', Database = ''pgbouncer'', SocketDir = ''/run'', Port = ''70000''\<rparr>
       \<lparr>Connect = (\<lambda>cfg w. (Inr 0, cfg # w)), QueryEx = (\<lambda>c ctx q w. (Inl NoQuorumError, w)),
        ExecEx = (\<lambda>c ctx q w. (None, w))\<rparr> [] = (Inr 0, [cfg]) \<and> uint (cfg_Port cfg) = 4464"
proof -
  have a: "Atoi ''70000'' = Inr 70000"
    by (simp add: Atoi_def Atoi_pair_def digit_value_def re_digit_def less_eq_char_def)
  let ?e = "\<lparr>User = ''u'', Password = '''', Database = ''pgbouncer'', SocketDir = ''/run'', Port = ''70000''\<rparr>"
  let ?p = "\<lparr>Connect = (\<lambda>cfg w. (Inr 0, cfg # w)), QueryEx = (\<lambda>c ctx q w. (Inl NoQuorumError, w)),
        ExecEx = (\<lambda>c ctx q w. (None, w))\<rparr>"
  from Connection_port [of ?e 70000 ?p "[]"] a show ?thesis by auto
qed

section \<open>Pausing and resuming\<close>

text \<open>
  The documented behaviour of the admin console, for a predicate \<open>paused\<close> on the world: a command
  that succeeds has its effect, the two tolerated errors mean that the effect is already there, and
  any other error leaves the pooler as it was.
\<close>

definition console_ok :: "'w executor \<Rightarrow> ('w \<Rightarrow> bool) \<Rightarrow> bool" where
  "console_ok ex paused \<longleftrightarrow>
     (\<forall>ctx w e w'. Execute ex ctx ''PAUSE;'' w = (e, w') \<longrightarrow>
        (case e of None \<Rightarrow> paused w'
         | Some err \<Rightarrow> if tolerated AlreadyPausedError err then paused w' else paused w' = paused w)) \<and>
     (\<forall>ctx w e w'. Execute ex ctx ''RESUME;'' w = (e, w') \<longrightarrow>
        (case e of None \<Rightarrow> \<not> paused w'
         | Some err \<Rightarrow> if tolerated AlreadyResumedError err then \<not> paused w' else paused w' = paused w))"

definition bouncer_pauser :: "'w PgBouncer \<Rightarrow> 'w pauser" where
  "bouncer_pauser b = \<lparr>pauser_Pause = Pause b, pauser_Resume = Resume b\<rparr>"

lemma console_pause:
  "console_ok ex paused \<Longrightarrow> Execute ex ctx ''PAUSE;'' w = (None, w') \<Longrightarrow> paused w'"
  "console_ok ex paused \<Longrightarrow> Execute ex ctx ''PAUSE;'' w = (Some err, w') \<Longrightarrow>
     if tolerated AlreadyPausedError err then paused w' else paused w' = paused w"
  by (fastforce simp: console_ok_def)+

lemma console_resume:
  "console_ok ex paused \<Longrightarrow> Execute ex ctx ''RESUME;'' w = (None, w') \<Longrightarrow> \<not> paused w'"
  "console_ok ex paused \<Longrightarrow> Execute ex ctx ''RESUME;'' w = (Some err, w') \<Longrightarrow>
     if tolerated AlreadyResumedError err then \<not> paused w' else paused w' = paused w"
  by (fastforce simp: console_ok_def)+

lemma Pause_cases:
  obtains (Success) w' where "Execute (Executor b) ctx ''PAUSE;'' w = (None, w')" "Pause b ctx w = (None, w')"
  | (Error) err w' where "Execute (Executor b) ctx ''PAUSE;'' w = (Some err, w')"
      "Pause b ctx w = ((if tolerated AlreadyPausedError err then None else Some err), w')"
  by (cases "Execute (Executor b) ctx ''PAUSE;'' w"; cases "fst (Execute (Executor b) ctx ''PAUSE;'' w)")
    (auto simp: Pause_def)

lemma Resume_cases:
  obtains (Success) w' where "Execute (Executor b) ctx ''RESUME;'' w = (None, w')" "Resume b ctx w = (None, w')"
  | (Error) err w' where "Execute (Executor b) ctx ''RESUME;'' w = (Some err, w')"
      "Resume b ctx w = ((if tolerated AlreadyResumedError err then None else Some err), w')"
  by (cases "Execute (Executor b) ctx ''RESUME;'' w"; cases "fst (Execute (Executor b) ctx ''RESUME;'' w)")
    (auto simp: Resume_def)

lemma Pause_effect:
  assumes "console_ok (Executor b) paused" and "Pause b ctx w = (e, w')"
  shows "case e of None \<Rightarrow> paused w' | Some _ \<Rightarrow> paused w' = paused w"
  by (rule Pause_cases [of b ctx w])
    (use assms console_pause [OF assms(1)] in \<open>auto split: if_splits option.splits\<close>)

lemma Resume_effect:
  assumes "console_ok (Executor b) paused" and "Resume b ctx w = (e, w')"
  shows "case e of None \<Rightarrow> \<not> paused w' | Some _ \<Rightarrow> paused w' = paused w"
  by (rule Resume_cases [of b ctx w])
    (use assms console_resume [OF assms(1)] in \<open>auto split: if_splits option.splits\<close>)

interpretation pgb: pauser_contract "bouncer_pauser b" paused "console_ok (Executor b) paused"
  for b :: "'w PgBouncer" and paused
  using Pause_effect [of b paused] Resume_effect [of b paused]
  by unfold_locales (fastforce simp: bouncer_pauser_def)+


text \<open>A console for the witnesses: its state is the pause flag, and it answers as PgBouncer does.\<close>

definition example_console :: "bool executor" where
  "example_console =
     \<lparr>Query = (\<lambda>ctx q w. (Inl (Plain ''no rows''), w)),
      Execute = (\<lambda>ctx q w.
        if q = ''PAUSE;'' then
          (if w then (Some (PgError ''ERROR'' PoolerError AlreadyPausedError), w) else (None, True))
        else if q = ''RESUME;'' then
          (if w then (None, False) else (Some (PgError ''ERROR'' PoolerError AlreadyResumedError), w))
        else (None, w)),
      scan_string = Inr, scan_int = (\<lambda>c. Inr None)\<rparr>"

definition example_bouncer :: "bool PgBouncer" where
  "example_bouncer = \<lparr>ConfigFile = ''ini'', ConfigTemplateFile = ''template'', Executor = example_console\<rparr>"

lemma example_console_ok: "console_ok example_console (\<lambda>w. w)"
  by (auto simp: console_ok_def example_console_def tolerated_def)


section \<open>Disabling databases\<close>

lemma disable_each_stops:
  "fst (disable_each b ctx ds w) = Ok () \<longleftrightarrow>
     (\<forall>k < length ds. fst (Execute (Executor b) ctx (''DISABLE '' @ ds ! k @ '';'')
        (snd (disable_each b ctx (take k ds) w))) = None)"
proof (induction ds arbitrary: w)
  case Nil
  then show ?case by simp
next
  case (Cons d ds)
  obtain e w' where e: "Execute (Executor b) ctx (''DISABLE '' @ d @ '';'') w = (e, w')" by fastforce
  show ?case
  proof (cases e)
    case None
    have "(\<forall>k < length (d # ds). fst (Execute (Executor b) ctx (''DISABLE '' @ (d # ds) ! k @ '';'')
          (snd (disable_each b ctx (take k (d # ds)) w))) = None) \<longleftrightarrow>
        (\<forall>k < length ds. fst (Execute (Executor b) ctx (''DISABLE '' @ ds ! k @ '';'')
          (snd (disable_each b ctx (take k ds) w'))) = None)"
      using e None by (simp add: All_less_Suc2)
    with Cons.IH [of w'] e None show ?thesis by simp
  next
    case (Some err)
    with e show ?thesis by (auto intro: exI [of _ "0::nat"])
  qed
qed

lemma indexOfColumn_Some:
  "indexOfColumn fs c = Some i \<Longrightarrow> i < length fs \<and> fs ! i = c \<and> (\<forall>j < i. fs ! j \<noteq> c)"
proof (induction fs arbitrary: i)
  case Nil
  then show ?case by simp
next
  case (Cons f fs)
  show ?case
  proof (cases "f = c")
    case True
    with Cons.prems show ?thesis by auto
  next
    case False
    with Cons.prems obtain i' where "i = Suc i'" "indexOfColumn fs c = Some i'" by auto
    with Cons.IH [of i'] False show ?thesis by (auto simp: nth_Cons split: nat.splits)
  qed
qed

lemma indexOfColumn_None: "indexOfColumn fs c = None \<longleftrightarrow> c \<notin> set fs"
  by (induction fs) auto

lemma scan_rows_map:
  assumes "scan_rows ex cols (n, h, p, c) rows = Inr dbs"
  shows "dbs = map (\<lambda>row. \<lparr>Name = string_at ex row n, Host = string_at ex row h,
    db_Port = string_at ex row p, CurrentConnections = int_at ex row c\<rparr>) rows"
  using assms by (induction rows arbitrary: dbs) (auto split: option.splits sum.splits)

text \<open>A console that answers a query with an error of the server.\<close>

definition example_bouncer_refusing :: "bool PgBouncer" where
  "example_bouncer_refusing = example_bouncer\<lparr>Executor := example_console
     \<lparr>Query := \<lambda>ctx q w. (Inr \<lparr>Fields = [], Data = [], EndErr = Some (Plain ''not allowed'')\<rparr>, w)\<rparr>\<rparr>"

text \<open>
  \<open>ShowDatabases\<close>: on success there is one entry for each row, in order, read from the first
  columns that carry the four names; the call panics exactly when the query itself succeeds but a
  column is missing, as in an error answer of the server, or there is no row.
\<close>

theorem ShowDatabases_result:
  assumes "Query (Executor b) ctx ''SHOW DATABASES;'' w = (Inr rows, w')"
  shows "(is_panic (fst (ShowDatabases b ctx w)) \<longleftrightarrow>
      \<not> {''name'', ''host'', ''port'', ''current_connections''} \<subseteq> set (Fields rows) \<or> Data rows = []) \<and>
    (\<forall>dbs. fst (ShowDatabases b ctx w) = Ok dbs \<longrightarrow> EndErr rows = None \<and>
      (\<exists>n h p c. indexOfColumn (Fields rows) ''name'' = Some n \<and> indexOfColumn (Fields rows) ''host'' = Some h \<and>
         indexOfColumn (Fields rows) ''port'' = Some p \<and>
         indexOfColumn (Fields rows) ''current_connections'' = Some c \<and>
         dbs = map (\<lambda>row. \<lparr>Name = string_at (Executor b) row n, Host = string_at (Executor b) row h,
           db_Port = string_at (Executor b) row p, CurrentConnections = int_at (Executor b) row c\<rparr>) (Data rows)))"
proof -
  have col: "x \<in> set (Fields rows) \<longleftrightarrow> indexOfColumn (Fields rows) x \<noteq> None" for x
    by (simp add: indexOfColumn_None)
  show ?thesis
    using assms
    by (auto simp: ShowDatabases_def Let_def col dest: scan_rows_map
        split: option.splits sum.splits if_splits)
qed

theorem ShowDatabases_result_witness:
  "is_panic (fst (ShowDatabases example_bouncer_refusing Background True))"
proof -
  have q: "Query (Executor example_bouncer_refusing) Background ''SHOW DATABASES;'' True =
      (Inr \<lparr>Fields = [], Data = [], EndErr = Some (Plain ''not allowed'')\<rparr>, True)"
    by (simp add: example_bouncer_refusing_def example_bouncer_def example_console_def)
  from ShowDatabases_result [OF q] show ?thesis by simp
qed

text \<open>The databases that are disabled when none are named.\<close>

definition all_but_pgbouncer :: "db list \<Rightarrow> string list" where
  "all_but_pgbouncer dbs = filter (\<lambda>d. d \<noteq> ''pgbouncer'') (map Name dbs)"

lemma Disable_none:
  "ShowDatabases b ctx w = (Ok dbs, w') \<Longrightarrow> Disable b ctx [] w = disable_each b ctx (all_but_pgbouncer dbs) w'"
  by (simp add: Disable_def all_but_pgbouncer_def)

lemma disable_each_not_panic [never_panics]: "fst (disable_each b ctx ds w) \<noteq> Panic p"
  by (induction ds arbitrary: w) (auto split: prod.splits option.splits)

text \<open>
  A console that records the commands it is given, and refuses those in a given set: what
  \<open>disable_each\<close> sends is the longest prefix without a refused command and the refused one after it.
\<close>

definition disable_query :: "string \<Rightarrow> string" where
  "disable_query d = ''DISABLE '' @ d @ '';''"

lemma disable_each_log:
  assumes ex: "\<And>q w. Execute (Executor b) ctx q w = (if refused q then Some (e q) else None, w @ [q])"
  shows "snd (disable_each b ctx ds w) =
      w @ map disable_query (take (Suc (length (takeWhile (\<lambda>d. \<not> refused (disable_query d)) ds))) ds)"
    and "fst (disable_each b ctx ds w) = Ok () \<longleftrightarrow> (\<forall>d \<in> set ds. \<not> refused (disable_query d))"
proof -
  have step: "disable_each b ctx (d # ds) w =
      (if refused (disable_query d) then (Err (e (disable_query d)), w @ [disable_query d])
       else disable_each b ctx ds (w @ [disable_query d]))" for d ds w
    using ex [of "disable_query d" w] by (simp add: disable_query_def)
  show "snd (disable_each b ctx ds w) =
      w @ map disable_query (take (Suc (length (takeWhile (\<lambda>d. \<not> refused (disable_query d)) ds))) ds)"
    by (induction ds arbitrary: w) (simp_all add: step del: disable_each.simps(2))
  show "fst (disable_each b ctx ds w) = Ok () \<longleftrightarrow> (\<forall>d \<in> set ds. \<not> refused (disable_query d))"
    by (induction ds arbitrary: w) (simp_all add: step del: disable_each.simps(2))
qed

text \<open>
  \<open>Disable\<close> without arguments sends \<open>DISABLE\<close> for every database of the pooler except the special
  database \<open>pgbouncer\<close>, which would cut off the administrator, and with arguments for just those; the
  commands go out in order and the first refusal is returned with nothing sent after it.
\<close>

theorem Disable_commands:
  assumes ex: "\<And>q w. Execute (Executor b) ctx q w = (if refused q then Some (e q) else None, w @ [q])"
    and dbs: "ShowDatabases b ctx w = (Ok dbs, w')"
    and ds: "ds = (if databases = [] then all_but_pgbouncer dbs else databases)"
    and start: "w0 = (if databases = [] then w' else w)"
  shows "snd (Disable b ctx databases w) =
      w0 @ map disable_query (take (Suc (length (takeWhile (\<lambda>d. \<not> refused (disable_query d)) ds))) ds) \<and>
    (fst (Disable b ctx databases w) = Ok () \<longleftrightarrow> (\<forall>d \<in> set ds. \<not> refused (disable_query d))) \<and>
    (databases = [] \<longrightarrow> set ds = Name ` set dbs - {''pgbouncer''})"
proof -
  have run: "Disable b ctx databases w = disable_each b ctx ds w0"
    using ds start dbs by (cases "databases = []") (simp_all add: Disable_none, simp add: Disable_def)
  have "set (all_but_pgbouncer dbs) = Name ` set dbs - {''pgbouncer''}"
    by (auto simp: all_but_pgbouncer_def)
  with run ds disable_each_log [where b = b and ctx = ctx and refused = refused and e = e, OF ex, of ds w0]
  show ?thesis by simp
qed

text \<open>A pooler with two databases whose console records the commands and refuses those on \<open>b\<close>.\<close>

definition recording_bouncer :: "string list PgBouncer" where
  "recording_bouncer = \<lparr>ConfigFile = ''ini'', ConfigTemplateFile = ''template'', Executor =
     \<lparr>Query = (\<lambda>ctx q w. (Inr \<lparr>Fields = [''name'', ''host'', ''port'', ''current_connections''],
        Data = [[Some ''pgbouncer'', None, Some ''6432'', None], [Some ''a'', Some ''h'', None, None],
                [Some ''b'', Some ''h'', None, None], [Some ''c'', Some ''h'', None, None]],
        EndErr = None\<rparr>, w)),
      Execute = (\<lambda>ctx q w. (if q = disable_query ''b'' then Some (Plain q) else None, w @ [q])),
      scan_string = Inr, scan_int = (\<lambda>c. Inr None)\<rparr>\<rparr>"

theorem Disable_commands_witness:
  "snd (Disable recording_bouncer Background [] []) = [disable_query ''a'', disable_query ''b'']"
proof -
  have ex: "\<And>q w. Execute (Executor recording_bouncer) Background q w =
      (if q = disable_query ''b'' then Some (Plain q) else None, w @ [q])"
    by (simp add: recording_bouncer_def)
  let ?dbs = "map (\<lambda>(n, h, p). \<lparr>Name = n, Host = h, db_Port = p, CurrentConnections = 0\<rparr>)
    [(''pgbouncer'', '''', ''6432''), (''a'', ''h'', ''''), (''b'', ''h'', ''''), (''c'', ''h'', '''')]"
  have dbs: "ShowDatabases recording_bouncer Background [] = (Ok ?dbs, [])"
    by (simp add: ShowDatabases_def recording_bouncer_def string_at_def int_at_def)
  from Disable_commands [OF ex dbs refl refl, of "[]"] show ?thesis
    by (simp add: all_but_pgbouncer_def disable_query_def)
qed

section \<open>Reading the configuration\<close>

text \<open>
  A reading of a line as a setting: a key and a value without spaces, and an equals sign between them,
  with spaces around it or not.
\<close>

definition setting :: "string \<Rightarrow> string \<Rightarrow> string \<Rightarrow> bool" where
  "setting line k v \<longleftrightarrow> k \<noteq> [] \<and> v \<noteq> [] \<and> list_all (\<lambda>x. \<not> re_space x) k \<and> list_all (\<lambda>x. \<not> re_space x) v \<and>
     (\<exists>a b. list_all re_space a \<and> list_all re_space b \<and> line = k @ a @ CHR ''='' # b @ v)"

lemma re_space_eq [simp]: "\<not> re_space (CHR ''='')"
  by (simp add: re_space_def)

lemma match_rest_iff:
  "match_rest s = Some v \<longleftrightarrow> v \<noteq> [] \<and> list_all (\<lambda>x. \<not> re_space x) v \<and>
     (\<exists>a b. list_all re_space a \<and> list_all re_space b \<and> s = a @ CHR ''='' # b @ v)" (is "_ \<longleftrightarrow> ?r")
proof
  assume m: "match_rest s = Some v"
  then obtain rest where r: "dropWhile re_space s = CHR ''='' # rest" "v = dropWhile re_space rest"
    "v \<noteq> []" "list_all (\<lambda>x. \<not> re_space x) v"
    by (auto simp: match_rest_def Let_def split: list.splits if_splits)
  have "s = takeWhile re_space s @ CHR ''='' # takeWhile re_space rest @ v"
    using r(1,2) takeWhile_dropWhile_id [of re_space s] takeWhile_dropWhile_id [of re_space rest] by metis
  moreover have "list_all re_space (takeWhile re_space t)" for t
    by (auto simp: list_all_iff dest: set_takeWhileD)
  ultimately show ?r using r(3,4) by blast
next
  assume ?r
  then obtain a b where s: "s = a @ CHR ''='' # b @ v" "list_all re_space a" "list_all re_space b"
    and v: "v \<noteq> []" "list_all (\<lambda>x. \<not> re_space x) v" by blast
  have "dropWhile re_space s = CHR ''='' # b @ v"
    using s by (simp add: dropWhile_append2 list_all_iff)
  moreover have "dropWhile re_space (b @ v) = v"
    using s(3) v by (cases v) (simp_all add: dropWhile_append2 list_all_iff)
  ultimately show "match_rest s = Some v"
    using v by (simp add: match_rest_def Let_def del: dropWhile_eq_Nil_conv)
qed

lemma setting_iff:
  "setting line k v \<longleftrightarrow> (\<exists>n. n < length line \<and> k = take (Suc n) line \<and>
     list_all (\<lambda>x. \<not> re_space x) k \<and> match_rest (drop (Suc n) line) = Some v)"
proof
  assume s: "setting line k v"
  then obtain r where "line = k @ r" "match_rest r = Some v" "k \<noteq> []" "list_all (\<lambda>x. \<not> re_space x) k"
    unfolding setting_def match_rest_iff by blast
  then show "\<exists>n. n < length line \<and> k = take (Suc n) line \<and> list_all (\<lambda>x. \<not> re_space x) k \<and>
      match_rest (drop (Suc n) line) = Some v"
    by (intro exI [of _ "length k - 1"]) (cases k; simp)
next
  assume "\<exists>n. n < length line \<and> k = take (Suc n) line \<and> list_all (\<lambda>x. \<not> re_space x) k \<and>
      match_rest (drop (Suc n) line) = Some v"
  then obtain n where n: "n < length line" "k = take (Suc n) line" "list_all (\<lambda>x. \<not> re_space x) k"
    "match_rest (drop (Suc n) line) = Some v" by blast
  then obtain a b where "drop (Suc n) line = a @ CHR ''='' # b @ v" "list_all re_space a" "list_all re_space b"
    "v \<noteq> []" "list_all (\<lambda>x. \<not> re_space x) v" unfolding match_rest_iff by blast
  moreover have "line = k @ drop (Suc n) line" using n(2) by simp
  moreover have "k \<noteq> []" using n(1,2) by (cases line) auto
  ultimately show "setting line k v" using n(3) unfolding setting_def by metis
qed

lemma match_key_max:
  "match_key n s = Some (k, v) \<longleftrightarrow> (\<exists>m < n. k = take (Suc m) s \<and> list_all (\<lambda>x. \<not> re_space x) k \<and>
     match_rest (drop (Suc m) s) = Some v \<and>
     (\<forall>j. m < j \<longrightarrow> j < n \<longrightarrow> list_all (\<lambda>x. \<not> re_space x) (take (Suc j) s) \<longrightarrow> match_rest (drop (Suc j) s) = None))"
proof (induction n)
  case 0
  then show ?case by simp
next
  case (Suc n)
  show ?case
  proof (cases "list_all (\<lambda>x. \<not> re_space x) (take (Suc n) s) \<and> match_rest (drop (Suc n) s) \<noteq> None")
    case True
    then obtain v' where v': "match_rest (drop (Suc n) s) = Some v'" "list_all (\<lambda>x. \<not> re_space x) (take (Suc n) s)"
      by auto
    have last: "m = n" if "m < Suc n" "\<forall>j. m < j \<longrightarrow> j < Suc n \<longrightarrow> list_all (\<lambda>x. \<not> re_space x) (take (Suc j) s) \<longrightarrow>
        match_rest (drop (Suc j) s) = None" for m
      using that(2) [rule_format, of n] that(1) v' by (cases "m = n") auto
    have "match_key (Suc n) s = Some (k, v) \<longleftrightarrow> k = take (Suc n) s \<and> v = v'"
      using v' by auto
    also have "\<dots> \<longleftrightarrow> (\<exists>m < Suc n. k = take (Suc m) s \<and> list_all (\<lambda>x. \<not> re_space x) k \<and>
        match_rest (drop (Suc m) s) = Some v \<and> (\<forall>j. m < j \<longrightarrow> j < Suc n \<longrightarrow>
          list_all (\<lambda>x. \<not> re_space x) (take (Suc j) s) \<longrightarrow> match_rest (drop (Suc j) s) = None))"
      (is "_ \<longleftrightarrow> ?max")
    proof
      assume "k = take (Suc n) s \<and> v = v'"
      with v' show ?max by (intro exI [of _ n]) simp
    next
      assume ?max
      then obtain m where "m < Suc n" "k = take (Suc m) s" "match_rest (drop (Suc m) s) = Some v"
        "\<forall>j. m < j \<longrightarrow> j < Suc n \<longrightarrow> list_all (\<lambda>x. \<not> re_space x) (take (Suc j) s) \<longrightarrow>
          match_rest (drop (Suc j) s) = None" by blast
      with last [of m] v'(1) show "k = take (Suc n) s \<and> v = v'" by simp
    qed
    finally show ?thesis .
  next
    case False
    then have "match_key (Suc n) s = match_key n s" by auto
    moreover have "(\<forall>j. m < j \<longrightarrow> j < Suc n \<longrightarrow> list_all (\<lambda>x. \<not> re_space x) (take (Suc j) s) \<longrightarrow>
          match_rest (drop (Suc j) s) = None) \<longleftrightarrow>
        (\<forall>j. m < j \<longrightarrow> j < n \<longrightarrow> list_all (\<lambda>x. \<not> re_space x) (take (Suc j) s) \<longrightarrow> match_rest (drop (Suc j) s) = None)"
      for m
      using False less_Suc_eq by auto
    moreover have "m < n" if "m < Suc n" "list_all (\<lambda>x. \<not> re_space x) (take (Suc m) s)"
      "match_rest (drop (Suc m) s) = Some v" for m
      using that False by (cases "m = n") auto
    ultimately show ?thesis using Suc.IH by (smt (verit, best) less_SucI)
  qed
qed

lemma config_match_setting:
  "(config_match line = None \<longleftrightarrow> (\<nexists>k v. setting line k v)) \<and>
   (config_match line = Some (k, v) \<longleftrightarrow>
      setting line k v \<and> (\<forall>k' v'. setting line k' v' \<longrightarrow> length k' \<le> length k))"
proof -
  have one: "config_match line = Some (k, v) \<longleftrightarrow>
      setting line k v \<and> (\<forall>k' v'. setting line k' v' \<longrightarrow> length k' \<le> length k)" for k v
  proof
    assume "config_match line = Some (k, v)"
    then obtain m where m: "m < length line" "k = take (Suc m) line" "list_all (\<lambda>x. \<not> re_space x) k"
      "match_rest (drop (Suc m) line) = Some v"
      "\<forall>j. m < j \<longrightarrow> j < length line \<longrightarrow> list_all (\<lambda>x. \<not> re_space x) (take (Suc j) line) \<longrightarrow>
        match_rest (drop (Suc j) line) = None"
      unfolding config_match_def match_key_max by blast
    have "length k' \<le> length k" if k': "setting line k' v'" for k' v'
    proof -
      from k' obtain n where n: "n < length line" "k' = take (Suc n) line"
        "list_all (\<lambda>x. \<not> re_space x) k'" "match_rest (drop (Suc n) line) = Some v'"
        unfolding setting_iff by blast
      with m(5) have "\<not> m < n" by auto
      with n(2) m(1,2) show ?thesis by simp
    qed
    moreover from m have "setting line k v" unfolding setting_iff by blast
    ultimately show "setting line k v \<and> (\<forall>k' v'. setting line k' v' \<longrightarrow> length k' \<le> length k)" by blast
  next
    assume s: "setting line k v \<and> (\<forall>k' v'. setting line k' v' \<longrightarrow> length k' \<le> length k)"
    then obtain m where m: "m < length line" "k = take (Suc m) line" "list_all (\<lambda>x. \<not> re_space x) k"
      "match_rest (drop (Suc m) line) = Some v" unfolding setting_iff by blast
    have "match_rest (drop (Suc j) line) = None"
      if "m < j" "j < length line" "list_all (\<lambda>x. \<not> re_space x) (take (Suc j) line)" for j
    proof (rule ccontr)
      assume "match_rest (drop (Suc j) line) \<noteq> None"
      with that obtain v' where "setting line (take (Suc j) line) v'" unfolding setting_iff by blast
      with s that(1,2) m(2) show False by fastforce
    qed
    with m show "config_match line = Some (k, v)" unfolding config_match_def match_key_max by blast
  qed
  have "config_match line = None" if "\<nexists>k v. setting line k v"
    using that one by (cases "config_match line") auto
  moreover have "setting line k v \<Longrightarrow> config_match line \<noteq> None" for k v
    unfolding setting_iff config_match_def
  proof
    assume n: "\<exists>n<length line. k = take (Suc n) line \<and> list_all (\<lambda>x. \<not> re_space x) k \<and>
      match_rest (drop (Suc n) line) = Some v"
    have "match_key i line \<noteq> None" if "n < i" "list_all (\<lambda>x. \<not> re_space x) (take (Suc n) line)"
      "match_rest (drop (Suc n) line) = Some v" for i n
      using that by (induction i) (auto simp: less_Suc_eq split: option.splits)
    note found = this
    assume "match_key (length line) line = None"
    moreover from n obtain i where "i < length line" "list_all (\<lambda>x. \<not> re_space x) (take (Suc i) line)"
      "match_rest (drop (Suc i) line) = Some v" by blast
    ultimately show False using found by blast
  qed
  ultimately show ?thesis using one by blast
qed



section \<open>Writing the configuration\<close>

lemma split_at_word:
  "(\<exists>a b. c # cs = a @ x @ b \<and> P b) \<longleftrightarrow>
     prefix x (c # cs) \<and> P (drop (length x) (c # cs)) \<or> (\<exists>a b. cs = a @ x @ b \<and> P b)"
proof -
  have "(\<exists>b. c # cs = x @ b \<and> P b) \<longleftrightarrow> prefix x (c # cs) \<and> P (drop (length x) (c # cs))"
    unfolding prefix_def by (metis append_eq_conv_conj)
  then show ?thesis by (metis Cons_eq_append_conv append_Nil append_Cons)
qed

text \<open>The language of the expression \<open>ignore_startup_parameters\s*\=.+extra_float_digits\<close>, as a search.\<close>

definition names_float_digits :: "string \<Rightarrow> bool" where
  "names_float_digits content \<longleftrightarrow> (\<exists>before spaces value after.
     content = before @ ''ignore_startup_parameters'' @ spaces @ CHR ''='' # value @ ''extra_float_digits'' @ after \<and>
     list_all re_space spaces \<and> value \<noteq> [] \<and> CHR 0x0A \<notin> set value)"

lemma match_float_digits_rest_iff:
  "match_float_digits_rest s \<longleftrightarrow> (\<exists>spaces value after.
     s = spaces @ CHR ''='' # value @ ''extra_float_digits'' @ after \<and>
     list_all re_space spaces \<and> value \<noteq> [] \<and> CHR 0x0A \<notin> set value)" (is "_ \<longleftrightarrow> ?r")
proof
  let ?line = "\<lambda>t. takeWhile (\<lambda>x. x \<noteq> CHR 0x0A) t"
  assume "match_float_digits_rest s"
  then obtain rest where rest: "dropWhile re_space s = CHR ''='' # rest" "?line rest \<noteq> []"
    "contains (tl (?line rest)) ''extra_float_digits''"
    by (auto simp: match_float_digits_rest_def Let_def split: list.splits)
  then obtain v t where v: "tl (?line rest) = v @ ''extra_float_digits'' @ t"
    unfolding contains_iff by blast
  obtain c where c: "?line rest = c # v @ ''extra_float_digits'' @ t"
    using rest(2) v by (cases "?line rest") auto
  have "rest = (c # v) @ ''extra_float_digits'' @ t @ dropWhile (\<lambda>x. x \<noteq> CHR 0x0A) rest"
    using takeWhile_dropWhile_id [of "\<lambda>x. x \<noteq> CHR 0x0A" rest] c by (metis append_Cons append_assoc)
  moreover have "CHR 0x0A \<notin> set (c # v)"
  proof
    assume "CHR 0x0A \<in> set (c # v)"
    then have "CHR 0x0A \<in> set (?line rest)" unfolding c by auto
    then show False by (auto dest: set_takeWhileD)
  qed
  moreover have "s = takeWhile re_space s @ CHR ''='' # rest" using rest(1) by (metis takeWhile_dropWhile_id)
  moreover have "list_all re_space (takeWhile re_space s)" by (auto simp: list_all_iff dest: set_takeWhileD)
  ultimately show ?r by (metis list.distinct(1))
next
  assume ?r
  then obtain a v t where s: "s = a @ CHR ''='' # v @ ''extra_float_digits'' @ t" "list_all re_space a"
    "v \<noteq> []" "CHR 0x0A \<notin> set v" by blast
  have d: "dropWhile re_space s = CHR ''='' # v @ ''extra_float_digits'' @ t"
    using s(1,2) by (simp add: dropWhile_append2 list_all_iff)
  have "takeWhile (\<lambda>x. x \<noteq> CHR 0x0A) (v @ ''extra_float_digits'' @ t) =
      v @ ''extra_float_digits'' @ takeWhile (\<lambda>x. x \<noteq> CHR 0x0A) t"
    using s(4) by (subst takeWhile_append2) auto
  moreover obtain c v' where "v = c # v'" using s(3) by (cases v) auto
  ultimately show "match_float_digits_rest s"
    unfolding match_float_digits_rest_def d by (auto simp: contains_iff Let_def)
qed

lemma match_float_digits_iff: "match_float_digits s \<longleftrightarrow> names_float_digits s"
proof -
  have "match_float_digits s \<longleftrightarrow> (\<exists>a b. s = a @ ''ignore_startup_parameters'' @ b \<and> match_float_digits_rest b)"
  proof (induction s)
    case Nil
    then show ?case by (simp add: match_float_digits.simps)
  next
    case (Cons c cs)
    show ?case
      unfolding split_at_word [where x = "''ignore_startup_parameters''" and P = match_float_digits_rest]
        Cons.IH [symmetric]
      by (subst match_float_digits.simps) (simp only: list.case)
  qed
  then show ?thesis unfolding match_float_digits_rest_iff names_float_digits_def by blast
qed

text \<open>
  \<open>GenerateConfig\<close> writes the configuration file only if the template could be read, names
  \<open>extra_float_digits\<close> among the ignored startup parameters, parses and renders; what it writes then is
  the template rendered with the new host. Otherwise it changes nothing; a template that does not
  parse is a panic, not an error.
\<close>

theorem GenerateConfig_writes:
  "(\<exists>content t config e. ReadFile os (ConfigTemplateFile b) w = Inr content \<and>
      names_float_digits content \<and> Parse tm content = Inr t \<and> Render tm t host = Inr config \<and>
      GenerateConfig b os tm host w = (of_err e, snd (WriteFile os (ConfigFile b) config w)) \<and>
      e = fst (WriteFile os (ConfigFile b) config w)) \<or>
   (snd (GenerateConfig b os tm host w) = w \<and> \<not> is_ok (fst (GenerateConfig b os tm host w)) \<and>
      (is_panic (fst (GenerateConfig b os tm host w)) \<longleftrightarrow>
        (\<exists>content err. ReadFile os (ConfigTemplateFile b) w = Inr content \<and> names_float_digits content \<and>
           Parse tm content = Inl err)))"
proof (cases "ReadFile os (ConfigTemplateFile b) w")
  case (Inl err)
  then show ?thesis by (simp add: GenerateConfig_def createTemplate_def match_float_digits_iff)
next
  case content: (Inr content)
  show ?thesis
  proof (cases "names_float_digits content")
    case False
    with content show ?thesis by (simp add: GenerateConfig_def createTemplate_def match_float_digits_iff)
  next
    case True
    show ?thesis
    proof (cases "Parse tm content")
      case (Inl err)
      with content True show ?thesis by (simp add: GenerateConfig_def createTemplate_def match_float_digits_iff)
    next
      case (Inr t)
      with content True show ?thesis
        by (cases "Render tm t host") (simp_all add: GenerateConfig_def createTemplate_def match_float_digits_iff split: prod.splits)
    qed
  qed
qed

end
