(* ===== verification/Pipeline.thy ===== *)
theory Pipeline
  imports Prelude
begin

text \<open>
  The step pipeline of \<open>pkg/failover/pipeline.go\<close>: each step schedules its deferred actions before its
  primary action runs, the first error stops the pipeline, and the deferred actions run last-in,
  first-out when the pipeline returns, their errors dropped.

  The lemmas show that the loop with its defer stack is the nested "try, then clean up" discipline,
  that the actions run in the order expected, and that invariants of the actions are invariants of
  the pipeline.
\<close>

section \<open>The code\<close>

type_synonym 'w action = "ctx \<Rightarrow> 'w \<Rightarrow> unit outcome \<times> 'w"

record 'w pStep =
  action :: "'w action"
  deferred :: "'w action list"

definition Step :: "'w action \<Rightarrow> 'w pStep" where
  "Step a = \<lparr>action = a, deferred = []\<rparr>"

definition Defer :: "'w pStep \<Rightarrow> 'w action list \<Rightarrow> 'w pStep" where
  "Defer s ds = s\<lparr>deferred := ds\<rparr>"

text \<open>
  Running the stack of deferred calls when the function returns or panics: an error is dropped, a
  panic replaces the one in flight, and the remaining calls still run.
\<close>

fun run_deferred :: "'w action list \<Rightarrow> ctx \<Rightarrow> panic option \<Rightarrow> 'w \<Rightarrow> panic option \<times> 'w" where
  "run_deferred [] dctx p w = (p, w)"
| "run_deferred (d # ds) dctx p w =
     (case d dctx w of (r, w') \<Rightarrow>
        run_deferred ds dctx (case r of Panic q \<Rightarrow> Some q | _ \<Rightarrow> p) w')"

text \<open>The loop over the steps, with the stack of deferred calls, the latest first.\<close>

fun run_steps ::
  "'w pStep list \<Rightarrow> 'w action list \<Rightarrow> ctx \<Rightarrow> 'w \<Rightarrow> unit outcome \<times> 'w action list \<times> 'w" where
  "run_steps [] stack ctx w = (Ok (), stack, w)"
| "run_steps (s # ss) stack ctx w =
     (let stack' = rev (deferred s) @ stack in
      case action s ctx w of
        (Ok _, w') \<Rightarrow> run_steps ss stack' ctx w'
      | (r, w') \<Rightarrow> (r, stack', w'))"

definition close_outcome :: "'a outcome \<Rightarrow> panic option \<Rightarrow> 'a outcome" where
  "close_outcome r p = (case p of Some q \<Rightarrow> Panic q | None \<Rightarrow> r)"

definition Pipeline :: "'w pStep list \<Rightarrow> ctx \<Rightarrow> ctx \<Rightarrow> 'w \<Rightarrow> unit outcome \<times> 'w" where
  "Pipeline steps ctx dctx w =
     (case run_steps steps [] ctx w of (r, stack, w1) \<Rightarrow>
      case run_deferred stack dctx (panic_of r) w1 of (p, w2) \<Rightarrow>
        (close_outcome r p, w2))"

section \<open>The nested reference\<close>

text \<open>
  What the pipeline promises: the first step runs, then the rest of the pipeline if it succeeded,
  and in every case the deferred actions of the first step run after all of that, the last given
  first.
\<close>

definition cleanup :: "'w action list \<Rightarrow> ctx \<Rightarrow> unit outcome \<times> 'w \<Rightarrow> unit outcome \<times> 'w" where
  "cleanup ds dctx x =
     (case x of (r, w) \<Rightarrow> case run_deferred ds dctx (panic_of r) w of (p, w') \<Rightarrow>
        (close_outcome r p, w'))"

fun nested :: "'w pStep list \<Rightarrow> ctx \<Rightarrow> ctx \<Rightarrow> 'w \<Rightarrow> unit outcome \<times> 'w" where
  "nested [] ctx dctx w = (Ok (), w)"
| "nested (s # ss) ctx dctx w =
     cleanup (rev (deferred s)) dctx
       (case action s ctx w of
          (Ok _, w') \<Rightarrow> nested ss ctx dctx w'
        | (r, w') \<Rightarrow> (r, w'))"

lemma run_deferred_append:
  "run_deferred (xs @ ys) dctx p w =
     (case run_deferred xs dctx p w of (p', w') \<Rightarrow> run_deferred ys dctx p' w')"
  by (induction xs arbitrary: p w) (auto split: prod.splits outcome.splits)

lemma run_deferred_keeps_panic:
  "run_deferred ds dctx (Some q) w = (p, w') \<Longrightarrow> p \<noteq> None"
  by (induction ds arbitrary: q w) (fastforce split: prod.splits outcome.splits)+

lemma panic_of_close [simp]:
  "panic_of (close_outcome r p) = (case p of Some q \<Rightarrow> Some q | None \<Rightarrow> panic_of r)"
  by (simp add: close_outcome_def split: option.split)

lemma close_outcome_close [simp]:
  "close_outcome (close_outcome r p) p' =
     close_outcome r (case p' of Some q \<Rightarrow> Some q | None \<Rightarrow> p)"
  by (simp add: close_outcome_def split: option.split)

lemma cleanup_append: "cleanup (xs @ ys) dctx x = cleanup ys dctx (cleanup xs dctx x)"
proof -
  obtain r w where x: "x = (r, w)" by fastforce
  obtain p w' where xs: "run_deferred xs dctx (panic_of r) w = (p, w')" by fastforce
  have pin: "(case p of Some q \<Rightarrow> Some q | None \<Rightarrow> panic_of r) = p"
    using xs run_deferred_keeps_panic [of xs dctx "the (panic_of r)" w p w']
    by (cases p; cases r) auto
  obtain p' w'' where ys: "run_deferred ys dctx p w' = (p', w'')" by fastforce
  have pin': "(case p' of Some q \<Rightarrow> Some q | None \<Rightarrow> p) = p'"
    using ys run_deferred_keeps_panic [of ys dctx "the p" w' p' w'']
    by (cases p'; cases p) auto
  show ?thesis
    by (simp add: cleanup_def x run_deferred_append xs ys pin pin')
qed

lemma close_outcome_panic_of [simp]: "close_outcome r (panic_of r) = r"
  by (cases r) (simp_all add: close_outcome_def)

lemma cleanup_Nil [simp]: "cleanup [] dctx x = x"
  by (cases x) (simp add: cleanup_def)

text \<open>The loop with a stack is the nested form, whatever is already on the stack.\<close>

lemma run_steps_nested:
  "(case run_steps ss stack ctx w of (r, stack', w1) \<Rightarrow> cleanup stack' dctx (r, w1)) =
     cleanup stack dctx (nested ss ctx dctx w)"
proof (induction ss arbitrary: stack w)
  case Nil
  then show ?case by simp
next
  case (Cons s ss)
  obtain r w' where a: "action s ctx w = (r, w')" by fastforce
  show ?case
    using Cons.IH [of "rev (deferred s) @ stack" w']
    by (cases r) (simp_all add: a Let_def cleanup_append)
qed

lemma Pipeline_cleanup:
  "Pipeline steps ctx dctx w =
     (case run_steps steps [] ctx w of (r, stack, w1) \<Rightarrow> cleanup stack dctx (r, w1))"
  by (simp add: Pipeline_def cleanup_def split: prod.splits)

lemma Pipeline_nested: "Pipeline steps ctx dctx w = nested steps ctx dctx w"
  using run_steps_nested [where ss = steps and stack = "[]" and ctx = ctx and dctx = dctx and w = w]
  by (simp add: Pipeline_cleanup)

text \<open>
  C15. The pipeline, a loop over the steps with a stack of deferred calls, computes exactly what the
  nested discipline does: run the step, run the rest only on success, and run the step's deferred
  actions after everything that started later, on success, error and panic alike.
\<close>

theorem pipeline_is_nested: "Pipeline steps ctx dctx w = nested steps ctx dctx w"
  by (rule Pipeline_nested)

section \<open>Invariants of the actions\<close>

definition preserves :: "('w \<Rightarrow> bool) \<Rightarrow> 'w action \<Rightarrow> bool" where
  "preserves I a \<longleftrightarrow> (\<forall>ctx w. I w \<longrightarrow> I (snd (a ctx w)))"

lemma preservesD: "preserves I a \<Longrightarrow> I w \<Longrightarrow> a ctx w = (r, w') \<Longrightarrow> I w'"
  by (metis preserves_def snd_conv)

lemma run_deferred_preserves:
  "\<forall>d \<in> set ds. preserves I d \<Longrightarrow> I w \<Longrightarrow> I (snd (run_deferred ds dctx p w))"
  by (induction ds arbitrary: p w) (auto split: prod.splits dest: preservesD)

lemma cleanup_preserves:
  "\<forall>d \<in> set ds. preserves I d \<Longrightarrow> I (snd x) \<Longrightarrow> I (snd (cleanup ds dctx x))"
  using run_deferred_preserves [of ds I "snd x" dctx "panic_of (fst x)"]
  by (cases x) (auto simp: cleanup_def split: prod.splits)

lemma nested_preserves:
  assumes "\<forall>s \<in> set steps. preserves I (action s) \<and> (\<forall>d \<in> set (deferred s). preserves I d)"
    and "I w"
  shows "I (snd (nested steps ctx dctx w))"
  using assms
proof (induction steps arbitrary: w)
  case Nil
  then show ?case by simp
next
  case (Cons s ss)
  obtain r w' where a: "action s ctx w = (r, w')" by fastforce
  have "preserves I (action s)" and ds: "\<forall>d \<in> set (rev (deferred s)). preserves I d"
    and ss: "\<forall>s \<in> set ss. preserves I (action s) \<and> (\<forall>d \<in> set (deferred s). preserves I d)"
    using Cons.prems(1) by simp_all
  with a Cons.prems(2) have I: "I w'" by (blast dest: preservesD)
  with Cons.IH [OF ss] have "I (snd (nested ss ctx dctx w'))" by blast
  with I show ?case
    by (cases r) (simp_all add: a cleanup_preserves [OF ds])
qed

section \<open>The order of the calls\<close>

text \<open>
  An action that also writes its name to a trace, and a pipeline of such actions given by the names
  of each step's action and deferred actions.
\<close>

definition logged :: "'n \<Rightarrow> 'w action \<Rightarrow> ('w \<times> 'n list) action" where
  "logged n a ctx x = (case x of (w, tr) \<Rightarrow> case a ctx w of (r, w') \<Rightarrow> (r, (w', tr @ [n])))"

definition logged_step :: "'n \<times> 'n list \<Rightarrow> ('n \<Rightarrow> 'w action) \<Rightarrow> ('w \<times> 'n list) pStep" where
  "logged_step s act = Defer (Step (logged (fst s) (act (fst s)))) (map (\<lambda>d. logged d (act d)) (snd s))"

lemma logged_step_sel [simp]:
  "action (logged_step s act) = logged (fst s) (act (fst s))"
  "deferred (logged_step s act) = map (\<lambda>d. logged d (act d)) (snd s)"
  by (simp_all add: logged_step_def Defer_def Step_def)

lemma run_deferred_logged:
  "\<exists>p' w'. run_deferred (map (\<lambda>d. logged d (act d)) ds) dctx p (w, tr) = (p', (w', tr @ ds))"
proof (induction ds arbitrary: p w tr)
  case Nil
  then show ?case by simp
next
  case (Cons d ds)
  obtain r w' where d: "act d dctx w = (r, w')" by fastforce
  show ?case
    using Cons.IH [of "case r of Panic q \<Rightarrow> Some q | _ \<Rightarrow> p" w' "tr @ [d]"]
    by (simp add: logged_def d)
qed

lemma cleanup_logged:
  "\<exists>r' w'. cleanup (rev (map (\<lambda>d. logged d (act d)) ds)) dctx (r, (w, tr))
     = (r', (w', tr @ rev ds)) \<and> (is_ok r' \<longrightarrow> is_ok r)"
proof -
  obtain p' w' where "run_deferred (map (\<lambda>d. logged d (act d)) (rev ds)) dctx (panic_of r) (w, tr)
      = (p', (w', tr @ rev ds))"
    using run_deferred_logged [where act = act and ds = "rev ds" and dctx = dctx
        and p = "panic_of r" and w = w and tr = tr] by blast
  then show ?thesis
    by (auto simp: cleanup_def rev_map close_outcome_def split: option.splits)
qed

text \<open>
  Whatever the actions do, there is a number \<open>k\<close> of steps that were started such that the calls
  are the first \<open>k\<close> actions in order and then the deferred actions of exactly these steps, in the
  opposite order; all steps were started if the pipeline succeeds, and a step that was not started
  leaves no trace, neither its action nor its deferred ones.
\<close>

theorem pipeline_order:
  "\<exists>k \<le> length steps. \<exists>r w'.
     Pipeline (map (\<lambda>s. logged_step s act) steps) ctx dctx (w, tr) =
       (r, (w', tr @ map fst (take k steps) @ rev (concat (map snd (take k steps))))) \<and>
     (is_ok r \<longrightarrow> k = length steps) \<and> (steps \<noteq> [] \<longrightarrow> 0 < k)"
proof -
  have "\<exists>k \<le> length steps. \<exists>r w'.
     nested (map (\<lambda>s. logged_step s act) steps) ctx dctx (w, tr) =
       (r, (w', tr @ map fst (take k steps) @ rev (concat (map snd (take k steps))))) \<and>
     (is_ok r \<longrightarrow> k = length steps) \<and> (steps \<noteq> [] \<longrightarrow> 0 < k)"
  proof (induction steps arbitrary: w tr)
    case Nil
    then show ?case by simp
  next
    case (Cons s ss)
    obtain r w1 where a: "act (fst s) ctx w = (r, w1)" by fastforce
    show ?case
    proof (cases "is_ok r")
      case True
      obtain k r' w' where k: "k \<le> length ss" "is_ok r' \<longrightarrow> k = length ss"
        and n: "nested (map (\<lambda>s. logged_step s act) ss) ctx dctx (w1, tr @ [fst s]) =
          (r', (w', (tr @ [fst s]) @ map fst (take k ss) @ rev (concat (map snd (take k ss)))))"
        using Cons.IH [of w1 "tr @ [fst s]"] by blast
      with True a show ?thesis
        using cleanup_logged [where act = act and ds = "snd s" and dctx = dctx and r = r' and w = w'
            and tr = "(tr @ [fst s]) @ map fst (take k ss) @ rev (concat (map snd (take k ss)))"]
        by (intro exI [of _ "Suc k"]) (auto simp: logged_def is_ok_iff)
    next
      case False
      with a show ?thesis
        using cleanup_logged [where act = act and ds = "snd s" and dctx = dctx and r = r and w = w1
            and tr = "tr @ [fst s]"]
        by (intro exI [of _ "1::nat"]) (cases r; auto simp: logged_def)
    qed
  qed
  then show ?thesis
    using run_steps_nested [where ss = "map (\<lambda>s. logged_step s act) steps" and stack = "[]"
        and ctx = ctx and dctx = dctx and w = "(w, tr)"]
    by (simp add: Pipeline_cleanup)
qed

theorem pipeline_order_witness:
  "\<exists>r w. Pipeline (map (\<lambda>s. logged_step s (\<lambda>n ctx w. (Ok (), w))) [(''lock'', [''unlock'']), (''pause'', [''resume''])])
     Background Background ((), []) = (r, (w, [''lock'', ''pause'', ''resume'', ''unlock'']))"
proof -
  let ?steps = "[(''lock'', [''unlock'']), (''pause'', [''resume''])]"
  let ?act = "\<lambda>n ctx w. (Ok (), w)"
  obtain k r w where k: "is_ok r \<longrightarrow> k = length ?steps"
    and p: "Pipeline (map (\<lambda>s. logged_step s ?act) ?steps) Background Background ((), []) =
      (r, (w, [] @ map fst (take k ?steps) @ rev (concat (map snd (take k ?steps)))))"
    using pipeline_order [of ?steps ?act Background Background "()" "[]"] by blast
  have "is_ok (fst (Pipeline (map (\<lambda>s. logged_step s ?act) ?steps) Background Background ((), [])))"
    by (simp add: Pipeline_def logged_def close_outcome_def Let_def)
  with p have "is_ok r" by simp
  with k p show ?thesis by auto
qed

end
