(* ===== verification/Varint.thy ===== *)
theory Varint
  imports Text
begin

unbundle bit_operations_syntax

text \<open>
  The integers of the protobuf wire format (\<open>vendor/github.com/golang/protobuf/proto\<close>, \<open>table_marshal.go\<close>,
  \<open>table_unmarshal.go\<close>, \<open>encode.go\<close>): seven bits to a byte, the lowest ones first, with the top bit set
  in every byte but the last. The unrolled writer is the loop, the size that is computed ahead is the number of bytes
  written, and the reader gives back what was written, whatever follows.

  Bytes are characters, so that a buffer is a \<open>string\<close>. The second part is \<open>utf8.ValidString\<close> of the Go
  library, which the format applies to strings.
\<close>

section \<open>The code\<close>

type_synonym uint64 = "64 word"

definition low_byte :: "uint64 \<Rightarrow> char" where
  "low_byte v = char_of (unat v)"   \<comment> \<open>the low eight bits\<close>

definition byte_value :: "char \<Rightarrow> uint64" where
  "byte_value c = of_nat (of_char c)"

lemma drop_bit_7_less:
  assumes "\<not> v < (128 :: uint64)"
  shows "unat (drop_bit 7 v) < unat v"
proof -
  have "128 \<le> unat v" using assms by (simp add: word_less_nat_alt)
  moreover have "unat (drop_bit 7 v) = unat v div 128" unfolding unat_drop_bit_eq by (simp add: drop_bit_eq_div)
  ultimately show ?thesis by simp
qed

function encodeVarint :: "uint64 \<Rightarrow> string" where
  "encodeVarint x = (if x < 128 then [low_byte x] else low_byte ((x AND 0x7f) OR 0x80) # encodeVarint (drop_bit 7 x))"
  by pat_completeness auto
termination encodeVarint
  by (relation "measure unat") (simp_all add: drop_bit_7_less)

declare encodeVarint.simps [simp del]

text \<open>The seven bits from bit \<open>k\<close>, with the top bit set.\<close>

definition group_byte :: "nat \<Rightarrow> uint64 \<Rightarrow> char" where
  "group_byte k v = low_byte ((drop_bit k v AND 0x7f) OR 0x80)"

definition last_byte :: "nat \<Rightarrow> uint64 \<Rightarrow> char" where
  "last_byte k v = low_byte (drop_bit k v)"

definition appendVarint :: "string \<Rightarrow> uint64 \<Rightarrow> string" where
  "appendVarint b v =
     (if v < push_bit 7 1 then b @ [last_byte 0 v]
      else if v < push_bit 14 1 then b @ [group_byte 0 v, last_byte 7 v]
      else if v < push_bit 21 1 then b @ [group_byte 0 v, group_byte 7 v, last_byte 14 v]
      else if v < push_bit 28 1 then b @ [group_byte 0 v, group_byte 7 v, group_byte 14 v, last_byte 21 v]
      else if v < push_bit 35 1 then b @ [group_byte 0 v, group_byte 7 v, group_byte 14 v, group_byte 21 v, last_byte 28 v]
      else if v < push_bit 42 1 then b @ [group_byte 0 v, group_byte 7 v, group_byte 14 v, group_byte 21 v, group_byte 28 v, last_byte 35 v]
      else if v < push_bit 49 1 then
        b @ [group_byte 0 v, group_byte 7 v, group_byte 14 v, group_byte 21 v, group_byte 28 v, group_byte 35 v, last_byte 42 v]
      else if v < push_bit 56 1 then
        b @ [group_byte 0 v, group_byte 7 v, group_byte 14 v, group_byte 21 v, group_byte 28 v, group_byte 35 v, group_byte 42 v, last_byte 49 v]
      else if v < push_bit 63 1 then
        b @ [group_byte 0 v, group_byte 7 v, group_byte 14 v, group_byte 21 v, group_byte 28 v, group_byte 35 v, group_byte 42 v, group_byte 49 v, last_byte 56 v]
      else b @ [group_byte 0 v, group_byte 7 v, group_byte 14 v, group_byte 21 v, group_byte 28 v, group_byte 35 v, group_byte 42 v, group_byte 49 v, group_byte 56 v, last_byte 63 v])"

definition SizeVarint :: "uint64 \<Rightarrow> nat" where
  "SizeVarint x =
     (if x < push_bit 7 1 then 1
      else if x < push_bit 14 1 then 2
      else if x < push_bit 21 1 then 3
      else if x < push_bit 28 1 then 4
      else if x < push_bit 35 1 then 5
      else if x < push_bit 42 1 then 6
      else if x < push_bit 49 1 then 7
      else if x < push_bit 56 1 then 8
      else if x < push_bit 63 1 then 9
      else 10)"

text \<open>
  \<open>decodeVarint\<close> is unrolled ten times; the step for the byte \<open>i\<close> adds it at its place and, when its top bit is
  set, takes this bit away again. The tenth byte can only be 0 or 1. The result is the value and the number of bytes
  read, and zero bytes for an error.
\<close>

fun decode_from :: "nat \<Rightarrow> uint64 \<Rightarrow> string \<Rightarrow> uint64 \<times> nat" where
  "decode_from i x [] = (0, 0)"
| "decode_from i x (c # b) =
     (let y = byte_value c; x1 = x + push_bit (7 * i) y in
      if i < 9
      then (if y < 0x80 then (x1, i + 1) else decode_from (i + 1) (x1 - push_bit (7 * i) 0x80) b)
      else if y < 2 then (x1, 10) else (0, 0))"

definition decodeVarint :: "string \<Rightarrow> uint64 \<times> nat" where
  "decodeVarint b = decode_from 0 0 b"

section \<open>The unrolled writer is the loop\<close>

lemma unat_bit: "k < 64 \<Longrightarrow> unat (push_bit k 1 :: uint64) = 2 ^ k"
proof -
  assume k: "k < 64"
  have "push_bit k 1 = (of_nat (2 ^ k) :: uint64)" by simp
  moreover have "(2 :: nat) ^ k < 2 ^ 64" using k by (intro power_strict_increasing) simp_all
  ultimately show ?thesis by (simp add: unat_of_nat del: of_nat_power)
qed

lemma drop_bit_less:
  assumes "k < 57"
  shows "drop_bit k v < 128 \<longleftrightarrow> v < (push_bit (k + 7) 1 :: uint64)"
proof -
  have "unat (drop_bit k v) = unat v div 2 ^ k" unfolding unat_drop_bit_eq by (rule drop_bit_eq_div)
  then have "drop_bit k v < 128 \<longleftrightarrow> unat v div 2 ^ k < 128" by (simp add: word_less_nat_alt)
  also have "\<dots> \<longleftrightarrow> unat v < 128 * 2 ^ k" by (simp add: div_less_iff_less_mult)
  also have "\<dots> \<longleftrightarrow> unat v < unat (push_bit (k + 7) 1 :: uint64)" using assms unat_bit [of "k + 7"] by (simp only: power_add) (simp add: mult.commute)
  finally show ?thesis by (simp only: word_less_nat_alt)
qed

lemma encode_step:
  "k < 57 \<Longrightarrow> encodeVarint (drop_bit k v) =
     (if v < push_bit (k + 7) 1 then [last_byte k v] else group_byte k v # encodeVarint (drop_bit (k + 7) v))"
  by (subst encodeVarint.simps) (simp add: drop_bit_less last_byte_def group_byte_def add.commute)

lemma encode_final: "encodeVarint (drop_bit 63 v) = [last_byte 63 v]"
proof -
  have "unat (drop_bit 63 v) = unat v div 2 ^ 63" unfolding unat_drop_bit_eq by (rule drop_bit_eq_div)
  moreover have "unat v < 2 ^ 64" using unsigned_less [of v, where 'a = nat] by simp
  ultimately have "drop_bit 63 v < (128 :: uint64)" by (simp add: word_less_nat_alt)
  then show ?thesis by (subst encodeVarint.simps) (simp add: last_byte_def)
qed

lemmas encode_steps = encode_step [of 0] encode_step [of 7] encode_step [of 14] encode_step [of 21] encode_step [of 28]
  encode_step [of 35] encode_step [of 42] encode_step [of 49] encode_step [of 56] encode_final

lemma encodeVarint_0: "encodeVarint v = encodeVarint (drop_bit 0 v)"
  by simp

lemma appendVarint_loop: "appendVarint b v = b @ encodeVarint v"
  unfolding appendVarint_def
  by (subst encodeVarint_0, simp only: encode_steps add_0 numeral_plus_numeral semiring_norm simp_thms, simp)

lemma SizeVarint_length: "SizeVarint v = length (encodeVarint v)"
  unfolding SizeVarint_def
  by (subst encodeVarint_0, simp only: encode_steps add_0 numeral_plus_numeral semiring_norm simp_thms, simp)

section \<open>The reader gives back what was written\<close>

lemma byte_value_byte: "byte_value (low_byte v) = of_nat (unat v mod 256)"
  by (simp add: byte_value_def low_byte_def)

lemma byte_value_small: "unat v < 256 \<Longrightarrow> byte_value (low_byte v) = v"
  by (simp add: byte_value_byte)

lemma unat_mask_7: "unat (v AND 0x7f :: uint64) = unat v mod 128"
proof -
  have "v AND 0x7f = take_bit 7 v" by (simp add: take_bit_eq_mask mask_eq_exp_minus_1)
  then show ?thesis by (simp add: unsigned_take_bit_eq) (simp add: take_bit_eq_mod)
qed

lemma or_top_bit: "(v AND 0x7f) OR 0x80 = (v AND 0x7f) + (0x80 :: uint64)"
proof -
  have "(v AND 0x7f) AND (0x80 :: uint64) = 0" by (simp add: and.assoc)
  then show ?thesis by (simp add: disjunctive_add_eq_or)
qed

lemma unat_top_bit: "unat ((v AND 0x7f) OR (0x80 :: uint64)) = unat v mod 128 + 128"
proof -
  have "unat (v AND 0x7f) + unat (0x80 :: uint64) < 2 ^ 64" unfolding unat_mask_7 by simp
  then show ?thesis unfolding or_top_bit by (subst unat_add_lem [THEN iffD1]) (simp_all add: unat_mask_7)
qed

lemma split_7: "(v AND 0x7f) + push_bit 7 (drop_bit 7 v) = (v :: uint64)"
proof -
  have "v AND 0x7f = take_bit 7 v" by (simp add: take_bit_eq_mask mask_eq_exp_minus_1)
  then show ?thesis using bits_ident [of 7 v] by (simp add: add.commute)
qed

lemma decode_from_encode:
  "i \<le> 9 \<Longrightarrow> unat v < 2 ^ (64 - 7 * i) \<Longrightarrow>
     decode_from i x (encodeVarint v @ rest) = (x + push_bit (7 * i) v, i + length (encodeVarint v))"
proof (induction v arbitrary: i x rule: encodeVarint.induct)
  case (1 v)
  show ?case
  proof (cases "v < 128")
    case True
    then have v: "unat v < 128" by (simp add: word_less_nat_alt)
    moreover have "v < 2" if "\<not> i < 9"
    proof -
      from that "1.prems" have "i = 9" by simp
      with "1.prems" show ?thesis by (simp add: word_less_nat_alt)
    qed
    ultimately show ?thesis
      using True "1.prems"(1) by (subst (1 2) encodeVarint.simps) (simp add: byte_value_small Let_def)
  next
    case False
    then have v: "128 \<le> unat v" by (simp add: word_less_nat_alt)
    have i: "i < 9"
    proof (rule ccontr)
      assume "\<not> i < 9"
      with "1.prems" have "unat v < 2" by (simp add: le_antisym)
      with v show False by simp
    qed
    let ?y = "(v AND 0x7f) OR 0x80 :: uint64"
    have y: "byte_value (low_byte ?y) = ?y" "\<not> ?y < 0x80"
      using unat_top_bit [of v] by (auto intro!: byte_value_small simp: word_less_nat_alt)
    have "unat (drop_bit 7 v) = unat v div 2 ^ 7" unfolding unat_drop_bit_eq by (rule drop_bit_eq_div)
    moreover have "(2 :: nat) ^ (64 - 7 * i) = 2 ^ (64 - 7 * (i + 1)) * 2 ^ 7"
      unfolding power_add [symmetric] by (rule arg_cong [where f = "(^) 2"]) (use i in presburger)
    ultimately have "unat (drop_bit 7 v) < 2 ^ (64 - 7 * (i + 1))"
      using "1.prems"(2) by (simp only: div_less_iff_less_mult zero_less_power zero_less_numeral)
    then have IH: "decode_from (i + 1) z (encodeVarint (drop_bit 7 v) @ rest) =
        (z + push_bit (7 * (i + 1)) (drop_bit 7 v), i + 1 + length (encodeVarint (drop_bit 7 v)))" for z
      using "1.IH" [OF False] i by simp
    have "push_bit (7 * i) ?y - push_bit (7 * i) 0x80 + push_bit (7 * (i + 1)) (drop_bit 7 v) = push_bit (7 * i) v"
    proof -
      have "push_bit (7 * i) ?y - push_bit (7 * i) 0x80 = push_bit (7 * i) (v AND 0x7f)"
        unfolding or_top_bit by (simp add: push_bit_add)
      moreover have "push_bit (7 * (i + 1)) (drop_bit 7 v) = push_bit (7 * i) (push_bit 7 (drop_bit 7 v))" by (simp add: add.commute)
      ultimately show ?thesis by (simp only: push_bit_add [symmetric] split_7)
    qed
    then have eq: "x + push_bit (7 * i) ?y - push_bit (7 * i) 0x80 + push_bit (7 * (i + 1)) (drop_bit 7 v) = x + push_bit (7 * i) v"
      by (simp only: add_diff_eq [symmetric] add.assoc)
    have "encodeVarint v = low_byte ?y # encodeVarint (drop_bit 7 v)"
      using False by (subst encodeVarint.simps) simp
    then show ?thesis using i y IH [of "x + push_bit (7 * i) ?y - push_bit (7 * i) 0x80"] eq by (simp add: Let_def)
  qed
qed

theorem decode_encode: "decodeVarint (encodeVarint v @ rest) = (v, length (encodeVarint v))"
  using decode_from_encode [of 0 v 0 rest] unsigned_less [of v, where 'a = nat] by (simp add: decodeVarint_def)

text \<open>What is read is a part of the buffer, and an error reads nothing.\<close>

lemma decode_from_bound:
  "decode_from i x b = (v, n) \<Longrightarrow> n \<noteq> 0 \<Longrightarrow> i \<le> 9 \<Longrightarrow> i < n \<and> n \<le> i + length b"
proof (induction i x b rule: decode_from.induct)
  case (2 i x c b)
  then show ?case by (fastforce simp: Let_def split: if_splits)
qed simp

lemma decodeVarint_bound: "decodeVarint b = (v, n) \<Longrightarrow> n \<noteq> 0 \<Longrightarrow> 0 < n \<and> n \<le> length b"
  using decode_from_bound [of 0 0 b v n] by (simp add: decodeVarint_def)

section \<open>UTF-8\<close>

text \<open>
  The first byte of a character tells its length and the range of its second byte; every later byte is in the
  range from 0x80 to 0xbf.
\<close>

definition first_byte :: "char \<Rightarrow> (nat \<times> char \<times> char) option" where
  "first_byte c =
     (if CHR 0xC2 \<le> c \<and> c \<le> CHR 0xDF then Some (2, CHR 0x80, CHR 0xBF)
      else if c = CHR 0xE0 then Some (3, CHR 0xA0, CHR 0xBF)
      else if c = CHR 0xED then Some (3, CHR 0x80, CHR 0x9F)
      else if CHR 0xE1 \<le> c \<and> c \<le> CHR 0xEF then Some (3, CHR 0x80, CHR 0xBF)
      else if c = CHR 0xF0 then Some (4, CHR 0x90, CHR 0xBF)
      else if CHR 0xF1 \<le> c \<and> c \<le> CHR 0xF3 then Some (4, CHR 0x80, CHR 0xBF)
      else if c = CHR 0xF4 then Some (4, CHR 0x80, CHR 0x8F)
      else None)"

definition continues :: "char \<Rightarrow> bool" where
  "continues c \<longleftrightarrow> CHR 0x80 \<le> c \<and> c \<le> CHR 0xBF"

function ValidString :: "string \<Rightarrow> bool" where
  "ValidString [] = True"
| "ValidString (c # cs) =
     (if c < CHR 0x80 then ValidString cs
      else
        (case first_byte c of
           None \<Rightarrow> False
         | Some (width, lo, hi) \<Rightarrow>
             width - 1 \<le> length cs \<and> lo \<le> cs ! 0 \<and> cs ! 0 \<le> hi \<and> (2 < width \<longrightarrow> continues (cs ! 1)) \<and>
             (3 < width \<longrightarrow> continues (cs ! 2)) \<and> ValidString (drop (width - 1) cs)))"
  by pat_completeness auto
termination ValidString
  by (relation "measure length") auto

lemma ValidString_ascii: "list_all (\<lambda>c. c < CHR 0x80) s \<Longrightarrow> ValidString s"
  by (induction s) auto

end
