(* ===== verification/Messages.thy ===== *)
theory Messages
  imports Varint
begin

text \<open>
  The messages of the failover service, its client stubs and its handlers (\<open>failover.pb.go\<close>), and the
  timestamps they carry (\<open>ptypes/timestamp.go\<close>).

  Parameters of the model: the encoding of the messages (a \<open>codec\<close> into a type \<open>'b\<close> of bytes, which \<open>Wire\<close>
  provides) and the transport (\<open>Invoke\<close> of \<open>grpc\<close>). The theorem says that over a transport that delivers, a call of a
  stub is a call of the handler of the same name.
\<close>

section \<open>Timestamps\<close>

type_synonym int64 = "64 word"

record Timestamp =
  Seconds :: int64
  Nanos :: int32

definition minValidSeconds :: int where "minValidSeconds = -62135596800"
definition maxValidSeconds :: int where "maxValidSeconds = 253402300800"

text \<open>The errors, without the printed timestamp.\<close>

definition validateTimestamp :: "Timestamp option \<Rightarrow> goerr option" where
  "validateTimestamp ts =
     (case ts of
        None \<Rightarrow> Some (Plain ''timestamp: nil Timestamp'')
      | Some t \<Rightarrow>
          (if sint (Seconds t) < minValidSeconds then Some (Plain ''timestamp: before 0001-01-01'')
           else if maxValidSeconds \<le> sint (Seconds t) then Some (Plain ''timestamp: after 10000-01-01'')
           else if sint (Nanos t) < 0 \<or> 1000000000 \<le> sint (Nanos t) then
             Some (Plain ''timestamp: nanos not in range [0, 1e9)'')
           else None))"

text \<open>
  \<open>t.Unix()\<close> rounds down to whole seconds; the nanoseconds are the rest. A \<open>time.Time\<close> keeps its seconds in an
  \<open>int64\<close>: \<open>unix_time\<close>.
\<close>

definition TimestampProto :: "time \<Rightarrow> goerr + Timestamp" where
  "TimestampProto t =
     (let seconds = word_of_int (t div 1000000000);
          nanos = word_of_int (t - sint seconds * 1000000000);
          ts = \<lparr>Seconds = seconds, Nanos = nanos\<rparr> in
      case validateTimestamp (Some ts) of Some err \<Rightarrow> Inl err | None \<Rightarrow> Inr ts)"

definition Timestamp_time :: "Timestamp option \<Rightarrow> time \<times> goerr option" where
  "Timestamp_time ts =
     ((case ts of None \<Rightarrow> 0 | Some t \<Rightarrow> sint (Seconds t) * 1000000000 + sint (Nanos t)), validateTimestamp ts)"

definition valid_time :: "time \<Rightarrow> bool" where
  "valid_time t \<longleftrightarrow> minValidSeconds * 1000000000 \<le> t \<and> t < maxValidSeconds * 1000000000"

definition unix_time :: "time \<Rightarrow> bool" where
  "unix_time t \<longleftrightarrow> - (2 ^ 63) \<le> t div 1000000000 \<and> t div 1000000000 < 2 ^ 63"

lemma valid_unix_time: "valid_time t \<Longrightarrow> unix_time t"
proof -
  assume "valid_time t"
  then have "minValidSeconds \<le> t div 1000000000 \<and> t div 1000000000 < maxValidSeconds"
    unfolding valid_time_def minValidSeconds_def maxValidSeconds_def by arith
  then show ?thesis by (simp add: unix_time_def minValidSeconds_def maxValidSeconds_def)
qed

lemma nanos_in_range:
  fixes t :: int
  shows "sint (word_of_int (t mod 1000000000) :: int32) = t mod 1000000000"
proof -
  have "0 \<le> t mod 1000000000" "t mod 1000000000 < 1000000000" by simp_all
  then show ?thesis by (intro sint_in_range) auto
qed

lemma unix_seconds: "unix_time t \<Longrightarrow> sint (word_of_int (t div 1000000000) :: int64) = t div 1000000000"
  by (intro sint_in_range) (auto simp: unix_time_def)

lemma TimestampProto_valid:
  assumes "unix_time t"
  shows "TimestampProto t = (if valid_time t
     then Inr \<lparr>Seconds = word_of_int (t div 1000000000), Nanos = word_of_int (t mod 1000000000)\<rparr>
     else Inl (if t < 0 then Plain ''timestamp: before 0001-01-01'' else Plain ''timestamp: after 10000-01-01''))"
proof -
  have m: "t - t div 1000000000 * 1000000000 = t mod 1000000000" by (simp add: minus_div_mult_eq_mod)
  have r: "0 \<le> t mod 1000000000" "t mod 1000000000 < 1000000000" by simp_all
  have "t div 1000000000 < minValidSeconds \<longleftrightarrow> t < minValidSeconds * 1000000000"
    "maxValidSeconds \<le> t div 1000000000 \<longleftrightarrow> maxValidSeconds * 1000000000 \<le> t"
    unfolding minValidSeconds_def maxValidSeconds_def by arith+
  with r show ?thesis
    unfolding TimestampProto_def Let_def unix_seconds [OF assms] m validateTimestamp_def valid_time_def
    by (auto simp: nanos_in_range unix_seconds [OF assms] minValidSeconds_def maxValidSeconds_def)
qed

lemma TimestampProto_reads:
  assumes "unix_time t"
  shows "(case TimestampProto t of
      Inr ts \<Rightarrow> valid_time t \<and> Timestamp_time (Some ts) = (t, None)
    | Inl err \<Rightarrow> \<not> valid_time t)"
proof -
  have "0 \<le> t mod 1000000000" "t mod 1000000000 < 1000000000" by simp_all
  moreover have "minValidSeconds \<le> t div 1000000000 \<and> t div 1000000000 < maxValidSeconds" if "valid_time t"
    using that unfolding valid_time_def minValidSeconds_def maxValidSeconds_def by arith
  ultimately show ?thesis
    by (auto simp: TimestampProto_valid [OF assms] unix_seconds [OF assms] Timestamp_time_def validateTimestamp_def nanos_in_range)
qed

text \<open>
  A moment in the years 1 to 9999 goes over the wire to the nanosecond: reading the timestamp that
  was made of it gives the moment back, without an error. Outside these years no timestamp is made.
\<close>

theorem TimestampProto_roundtrip:
  assumes "unix_time t"
  shows "(case TimestampProto t of
      Inr ts \<Rightarrow> valid_time t \<and> Timestamp_time (Some ts) = (t, None)
    | Inl err \<Rightarrow> \<not> valid_time t)"
  by (rule TimestampProto_reads [OF assms])

theorem TimestampProto_roundtrip_witness:
  "\<exists>ts. TimestampProto 1528902123456789012 = Inr ts \<and> Timestamp_time (Some ts) = (1528902123456789012, None)"
proof -
  have "unix_time 1528902123456789012" by (simp add: unix_time_def)
  moreover have "valid_time 1528902123456789012" by (simp add: valid_time_def minValidSeconds_def maxValidSeconds_def)
  ultimately show ?thesis
    using TimestampProto_roundtrip [of 1528902123456789012] by (auto split: sum.splits)
qed

section \<open>The messages\<close>

type_synonym status = int32

definition UNKNOWN :: status where "UNKNOWN = 0"
definition HEALTHY :: status where "HEALTHY = 1"
definition UNHEALTHY :: status where "UNHEALTHY = 2"

text \<open>\<open>proto.EnumName\<close>: the name of a known value, the number of any other.\<close>

definition Status_name :: "int \<rightharpoonup> string" where
  "Status_name = [0 \<mapsto> ''UNKNOWN'', 1 \<mapsto> ''HEALTHY'', 2 \<mapsto> ''UNHEALTHY'']"

definition status_String :: "status \<Rightarrow> string" where
  "status_String x = (case Status_name (sint x) of Some n \<Rightarrow> n | None \<Rightarrow> itoa (sint x))"

record HealthCheckResponse =
  status :: status

record PauseRequest =
  Timeout :: int32
  Expiry :: int32

record PauseResponse =
  PauseCreatedAt :: "Timestamp option"
  PauseExpiresAt :: "Timestamp option"

record ResumeResponse =
  ResumeCreatedAt :: "Timestamp option"

record MigrateResponse =
  MigratingTo :: string
  Address :: string
  MigrateCreatedAt :: "Timestamp option"

record UnmigrateResponse =
  UnmigrateCreatedAt :: "Timestamp option"

definition GetStatus :: "HealthCheckResponse option \<Rightarrow> status" where
  "GetStatus m = (case m of Some r \<Rightarrow> status r | None \<Rightarrow> UNKNOWN)"

definition GetTimeout :: "PauseRequest option \<Rightarrow> int32" where
  "GetTimeout m = (case m of Some r \<Rightarrow> Timeout r | None \<Rightarrow> 0)"

definition GetExpiry :: "PauseRequest option \<Rightarrow> int32" where
  "GetExpiry m = (case m of Some r \<Rightarrow> Expiry r | None \<Rightarrow> 0)"

definition GetExpiresAt :: "PauseResponse option \<Rightarrow> Timestamp option" where
  "GetExpiresAt m = (case m of Some r \<Rightarrow> PauseExpiresAt r | None \<Rightarrow> None)"

definition PauseResponse_GetCreatedAt :: "PauseResponse option \<Rightarrow> Timestamp option" where
  "PauseResponse_GetCreatedAt m = (case m of Some r \<Rightarrow> PauseCreatedAt r | None \<Rightarrow> None)"

definition ResumeResponse_GetCreatedAt :: "ResumeResponse option \<Rightarrow> Timestamp option" where
  "ResumeResponse_GetCreatedAt m = (case m of Some r \<Rightarrow> ResumeCreatedAt r | None \<Rightarrow> None)"

definition MigrateResponse_GetCreatedAt :: "MigrateResponse option \<Rightarrow> Timestamp option" where
  "MigrateResponse_GetCreatedAt m = (case m of Some r \<Rightarrow> MigrateCreatedAt r | None \<Rightarrow> None)"

definition UnmigrateResponse_GetCreatedAt :: "UnmigrateResponse option \<Rightarrow> Timestamp option" where
  "UnmigrateResponse_GetCreatedAt m = (case m of Some r \<Rightarrow> UnmigrateCreatedAt r | None \<Rightarrow> None)"

definition GetMigratingTo :: "MigrateResponse option \<Rightarrow> string" where
  "GetMigratingTo m = (case m of Some r \<Rightarrow> MigratingTo r | None \<Rightarrow> '''')"

definition GetAddress :: "MigrateResponse option \<Rightarrow> string" where
  "GetAddress m = (case m of Some r \<Rightarrow> Address r | None \<Rightarrow> '''')"

datatype message =
    MEmpty
  | MHealthCheckResponse HealthCheckResponse
  | MPauseRequest PauseRequest
  | MPauseResponse PauseResponse
  | MResumeResponse ResumeResponse
  | MMigrateResponse MigrateResponse
  | MUnmigrateResponse UnmigrateResponse

text \<open>The types of the messages, and the types of each method as the service definition declares them.\<close>

datatype mtype =
    TEmpty
  | THealthCheckResponse
  | TPauseRequest
  | TPauseResponse
  | TResumeResponse
  | TMigrateResponse
  | TUnmigrateResponse

primrec mtype_of :: "message \<Rightarrow> mtype" where
  "mtype_of MEmpty = TEmpty"
| "mtype_of (MHealthCheckResponse r) = THealthCheckResponse"
| "mtype_of (MPauseRequest r) = TPauseRequest"
| "mtype_of (MPauseResponse r) = TPauseResponse"
| "mtype_of (MResumeResponse r) = TResumeResponse"
| "mtype_of (MMigrateResponse r) = TMigrateResponse"
| "mtype_of (MUnmigrateResponse r) = TUnmigrateResponse"

definition service_types :: "(string \<times> mtype \<times> mtype) list" where
  "service_types =
     [(''health_check'', TEmpty, THealthCheckResponse), (''pause'', TPauseRequest, TPauseResponse),
      (''resume'', TEmpty, TResumeResponse), (''migrate'', TEmpty, TMigrateResponse),
      (''unmigrate'', TEmpty, TUnmigrateResponse)]"

section \<open>The two interfaces\<close>

record 'w FailoverClient =
  HealthCheck :: "ctx \<Rightarrow> 'w \<Rightarrow> (goerr + HealthCheckResponse) \<times> 'w"
  client_Pause :: "ctx \<Rightarrow> PauseRequest \<Rightarrow> 'w \<Rightarrow> (goerr + PauseResponse) \<times> 'w"
  client_Resume :: "ctx \<Rightarrow> 'w \<Rightarrow> (goerr + ResumeResponse) \<times> 'w"
  client_Migrate :: "ctx \<Rightarrow> 'w \<Rightarrow> (goerr + MigrateResponse) \<times> 'w"
  client_Unmigrate :: "ctx \<Rightarrow> 'w \<Rightarrow> (goerr + UnmigrateResponse) \<times> 'w"

record 'w FailoverServer =
  server_HealthCheck :: "ctx \<Rightarrow> 'w \<Rightarrow> HealthCheckResponse outcome \<times> 'w"
  server_Pause :: "ctx \<Rightarrow> PauseRequest \<Rightarrow> 'w \<Rightarrow> PauseResponse outcome \<times> 'w"
  server_Resume :: "ctx \<Rightarrow> 'w \<Rightarrow> ResumeResponse outcome \<times> 'w"
  server_Migrate :: "ctx \<Rightarrow> 'w \<Rightarrow> MigrateResponse outcome \<times> 'w"
  server_Unmigrate :: "ctx \<Rightarrow> 'w \<Rightarrow> UnmigrateResponse outcome \<times> 'w"

record 'b codec =
  marshal :: "message \<Rightarrow> goerr + 'b"
  wire_len :: "'b \<Rightarrow> nat"   \<comment> \<open>the number of bytes\<close>
  dec_Empty :: "'b \<Rightarrow> goerr + unit"
  dec_HealthCheckResponse :: "'b \<Rightarrow> goerr + HealthCheckResponse"
  dec_PauseRequest :: "'b \<Rightarrow> goerr + PauseRequest"
  dec_PauseResponse :: "'b \<Rightarrow> goerr + PauseResponse"
  dec_ResumeResponse :: "'b \<Rightarrow> goerr + ResumeResponse"
  dec_MigrateResponse :: "'b \<Rightarrow> goerr + MigrateResponse"
  dec_UnmigrateResponse :: "'b \<Rightarrow> goerr + UnmigrateResponse"

text \<open>\<open>grpc.Invoke\<close> sends a request to a method and hands back the bytes of the reply.\<close>

type_synonym ('b, 'w) transport = "ctx \<Rightarrow> string \<Rightarrow> 'b \<Rightarrow> 'w \<Rightarrow> (goerr + 'b) \<times> 'w"

text \<open>\<open>grpc\<close> turns an error of the codec into a status, and refuses messages of 4 GiB and more.\<close>

definition grpc_encode :: "'b codec \<Rightarrow> message \<Rightarrow> goerr + 'b" where
  "grpc_encode c msg =
     (case marshal c msg of
        Inl err \<Rightarrow> Inl (Status ''Internal'' (''grpc: error while marshaling: '' @ err_string err))
      | Inr b \<Rightarrow>
          (if 4294967295 < wire_len c b
           then Inl (Status ''ResourceExhausted'' (''grpc: message too large ('' @ itoa (int (wire_len c b)) @ '' bytes)''))
           else Inr b))"

definition call ::
  "('b, 'w) transport \<Rightarrow> 'b codec \<Rightarrow> ('b \<Rightarrow> goerr + 'r) \<Rightarrow> ctx \<Rightarrow> string \<Rightarrow> message \<Rightarrow> 'w \<Rightarrow> (goerr + 'r) \<times> 'w"
where
  "call invoke cd dec ctx method req w =
     (case grpc_encode cd req of
        Inl err \<Rightarrow> (Inl err, w)
      | Inr body \<Rightarrow>
          (case invoke ctx method body w of
             (Inl err, w') \<Rightarrow> (Inl err, w')
           | (Inr reply, w') \<Rightarrow> (dec reply, w')))"

definition NewFailoverClient :: "('b, 'w) transport \<Rightarrow> 'b codec \<Rightarrow> 'w FailoverClient" where
  "NewFailoverClient cc cd =
     \<lparr>HealthCheck = (\<lambda>ctx. call cc cd (dec_HealthCheckResponse cd) ctx ''/failover.Failover/health_check'' MEmpty),
      client_Pause = (\<lambda>ctx req. call cc cd (dec_PauseResponse cd) ctx ''/failover.Failover/pause'' (MPauseRequest req)),
      client_Resume = (\<lambda>ctx. call cc cd (dec_ResumeResponse cd) ctx ''/failover.Failover/resume'' MEmpty),
      client_Migrate = (\<lambda>ctx. call cc cd (dec_MigrateResponse cd) ctx ''/failover.Failover/migrate'' MEmpty),
      client_Unmigrate = (\<lambda>ctx. call cc cd (dec_UnmigrateResponse cd) ctx ''/failover.Failover/unmigrate'' MEmpty)\<rparr>"

section \<open>The handlers\<close>

text \<open>
  An interceptor wraps the call of a handler; it is given the request, the full name of the method and
  the handler. A handler's type assertion on the request panics when it fails.
\<close>

type_synonym 'w handler = "ctx \<Rightarrow> message \<Rightarrow> 'w \<Rightarrow> message outcome \<times> 'w"
type_synonym 'w interceptor = "ctx \<Rightarrow> message \<Rightarrow> string \<Rightarrow> 'w handler \<Rightarrow> 'w \<Rightarrow> message outcome \<times> 'w"

definition bad_assertion :: panic where
  "bad_assertion = Explicit ''interface conversion''"

definition on_empty :: "('r \<Rightarrow> message) \<Rightarrow> (ctx \<Rightarrow> 'w \<Rightarrow> 'r outcome \<times> 'w) \<Rightarrow> 'w handler" where
  "on_empty wrap f ctx req w =
     (case req of MEmpty \<Rightarrow> map_prod (map_outcome wrap) id (f ctx w) | _ \<Rightarrow> (Panic bad_assertion, w))"

definition on_pause :: "(ctx \<Rightarrow> PauseRequest \<Rightarrow> 'w \<Rightarrow> PauseResponse outcome \<times> 'w) \<Rightarrow> 'w handler" where
  "on_pause f ctx req w =
     (case req of
        MPauseRequest r \<Rightarrow> map_prod (map_outcome MPauseResponse) id (f ctx r w)
      | _ \<Rightarrow> (Panic bad_assertion, w))"

definition intercept :: "'w interceptor option \<Rightarrow> ctx \<Rightarrow> message \<Rightarrow> string \<Rightarrow> 'w handler \<Rightarrow> 'w \<Rightarrow> message outcome \<times> 'w"
where
  "intercept i ctx req name h w = (case i of None \<Rightarrow> h ctx req w | Some f \<Rightarrow> f ctx req name h w)"

definition HealthCheck_Handler ::
  "'w FailoverServer \<Rightarrow> 'b codec \<Rightarrow> 'w interceptor option \<Rightarrow> ctx \<Rightarrow> 'b \<Rightarrow> 'w \<Rightarrow> message outcome \<times> 'w" where
  "HealthCheck_Handler srv cd i ctx body w =
     (case dec_Empty cd body of
        Inl err \<Rightarrow> (Err err, w)
      | Inr _ \<Rightarrow> intercept i ctx MEmpty ''/failover.Failover/HealthCheck''
          (on_empty MHealthCheckResponse (server_HealthCheck srv)) w)"

definition Pause_Handler ::
  "'w FailoverServer \<Rightarrow> 'b codec \<Rightarrow> 'w interceptor option \<Rightarrow> ctx \<Rightarrow> 'b \<Rightarrow> 'w \<Rightarrow> message outcome \<times> 'w" where
  "Pause_Handler srv cd i ctx body w =
     (case dec_PauseRequest cd body of
        Inl err \<Rightarrow> (Err err, w)
      | Inr req \<Rightarrow> intercept i ctx (MPauseRequest req) ''/failover.Failover/Pause'' (on_pause (server_Pause srv)) w)"

definition Resume_Handler ::
  "'w FailoverServer \<Rightarrow> 'b codec \<Rightarrow> 'w interceptor option \<Rightarrow> ctx \<Rightarrow> 'b \<Rightarrow> 'w \<Rightarrow> message outcome \<times> 'w" where
  "Resume_Handler srv cd i ctx body w =
     (case dec_Empty cd body of
        Inl err \<Rightarrow> (Err err, w)
      | Inr _ \<Rightarrow> intercept i ctx MEmpty ''/failover.Failover/Resume''
          (on_empty MResumeResponse (server_Resume srv)) w)"

definition Migrate_Handler ::
  "'w FailoverServer \<Rightarrow> 'b codec \<Rightarrow> 'w interceptor option \<Rightarrow> ctx \<Rightarrow> 'b \<Rightarrow> 'w \<Rightarrow> message outcome \<times> 'w" where
  "Migrate_Handler srv cd i ctx body w =
     (case dec_Empty cd body of
        Inl err \<Rightarrow> (Err err, w)
      | Inr _ \<Rightarrow> intercept i ctx MEmpty ''/failover.Failover/Migrate''
          (on_empty MMigrateResponse (server_Migrate srv)) w)"

definition Unmigrate_Handler ::
  "'w FailoverServer \<Rightarrow> 'b codec \<Rightarrow> 'w interceptor option \<Rightarrow> ctx \<Rightarrow> 'b \<Rightarrow> 'w \<Rightarrow> message outcome \<times> 'w" where
  "Unmigrate_Handler srv cd i ctx body w =
     (case dec_Empty cd body of
        Inl err \<Rightarrow> (Err err, w)
      | Inr _ \<Rightarrow> intercept i ctx MEmpty ''/failover.Failover/Unmigrate''
          (on_empty MUnmigrateResponse (server_Unmigrate srv)) w)"

text \<open>
  The service description maps the name of a method to its handler; \<open>grpc\<close> finds it under the service
  name and answers other names with \<open>Unimplemented\<close>.
\<close>

definition serviceDesc ::
  "'w FailoverServer \<Rightarrow> 'b codec \<Rightarrow> (string \<times> ('w interceptor option \<Rightarrow> ctx \<Rightarrow> 'b \<Rightarrow> 'w \<Rightarrow> message outcome \<times> 'w)) list"
where
  "serviceDesc srv cd =
     [(''health_check'', HealthCheck_Handler srv cd), (''pause'', Pause_Handler srv cd),
      (''resume'', Resume_Handler srv cd), (''migrate'', Migrate_Handler srv cd),
      (''unmigrate'', Unmigrate_Handler srv cd)]"

definition dispatch ::
  "'w FailoverServer \<Rightarrow> 'b codec \<Rightarrow> 'w interceptor option \<Rightarrow> ctx \<Rightarrow> string \<Rightarrow> 'b \<Rightarrow> 'w \<Rightarrow> message outcome \<times> 'w"
where
  "dispatch srv cd i ctx method body w =
     (case map_of (map (map_prod ((@) ''/failover.Failover/'') id) (serviceDesc srv cd)) method of
        Some h \<Rightarrow> h i ctx body w
      | None \<Rightarrow> (Err (Status ''Unimplemented'' (''unknown method '' @ method)), w))"

section \<open>A call reaches its handler\<close>

text \<open>
  What is relied on of the codec: what it has marshalled reads back, and every message whose strings are
  valid UTF-8, and not longer than a message can be, is sent. \<open>wire_codec\<close> of \<open>Wire\<close> is the real one.
\<close>

definition decodes :: "'b codec \<Rightarrow> message \<Rightarrow> 'b \<Rightarrow> bool" where
  "decodes cd m b \<longleftrightarrow>
     (case m of
        MEmpty \<Rightarrow> dec_Empty cd b = Inr ()
      | MHealthCheckResponse r \<Rightarrow> dec_HealthCheckResponse cd b = Inr r
      | MPauseRequest r \<Rightarrow> dec_PauseRequest cd b = Inr r
      | MPauseResponse r \<Rightarrow> dec_PauseResponse cd b = Inr r
      | MResumeResponse r \<Rightarrow> dec_ResumeResponse cd b = Inr r
      | MMigrateResponse r \<Rightarrow> dec_MigrateResponse cd b = Inr r
      | MUnmigrateResponse r \<Rightarrow> dec_UnmigrateResponse cd b = Inr r)"

definition sendable :: "message \<Rightarrow> bool" where
  "sendable m \<longleftrightarrow>
     (case m of
        MMigrateResponse r \<Rightarrow> ValidString (MigratingTo r) \<and> ValidString (Address r) \<and>
          length (MigratingTo r) + length (Address r) < 2 ^ 31
      | _ \<Rightarrow> True)"

definition codec_ok :: "'b codec \<Rightarrow> bool" where
  "codec_ok cd \<longleftrightarrow> (\<forall>m b. grpc_encode cd m = Inr b \<longrightarrow> decodes cd m b) \<and>
     (\<forall>m. sendable m \<longrightarrow> (\<exists>b. grpc_encode cd m = Inr b))"

lemma codec_encodes:
  assumes "codec_ok cd"
  obtains b where "grpc_encode cd m = Inr b" "decodes cd m b" | e where "grpc_encode cd m = Inl e" "\<not> sendable m"
proof (cases "grpc_encode cd m")
  case (Inr b)
  with assms that(1) show thesis by (auto simp: codec_ok_def)
next
  case (Inl e)
  then have "\<not> sendable m" using assms by (auto simp: codec_ok_def)
  with Inl that(2) show thesis by simp
qed

text \<open>
  A transport to a running server: the reply is the marshalled result of the dispatch; an error comes
  back as it is, a result that cannot be marshalled as the error of \<open>grpc_encode\<close>, and a server that panics is seen as some
  error.
\<close>

definition connected ::
  "('b, 'w) transport \<Rightarrow> 'w FailoverServer \<Rightarrow> 'b codec \<Rightarrow> 'w interceptor option \<Rightarrow> (panic \<Rightarrow> goerr) \<Rightarrow> bool" where
  "connected cc srv cd i crash \<longleftrightarrow> (\<forall>ctx method body w. cc ctx method body w =
     (case dispatch srv cd i ctx method body w of
        (Ok m, w') \<Rightarrow> (grpc_encode cd m, w')
      | (Err e, w') \<Rightarrow> (Inl e, w')
      | (Panic p, w') \<Rightarrow> (Inl (crash p), w')))"

text \<open>The result of a method as it goes on the wire.\<close>

definition on_wire :: "'b codec \<Rightarrow> ('r \<Rightarrow> message) \<Rightarrow> 'r outcome \<times> 'w \<Rightarrow> 'r outcome \<times> 'w" where
  "on_wire cd wrap x =
     (case x of
        (Ok r, w) \<Rightarrow> (case grpc_encode cd (wrap r) of Inl e \<Rightarrow> (Err e, w) | Inr _ \<Rightarrow> (Ok r, w))
      | y \<Rightarrow> y)"

lemma snd_on_wire [simp]: "snd (on_wire cd wrap x) = snd x"
  by (auto simp: on_wire_def split: prod.splits outcome.splits sum.splits)

lemma on_wire_id:
  assumes "codec_ok cd" and "\<And>r. sendable (wrap r)"
  shows "on_wire cd wrap x = x"
proof -
  have "\<exists>b. grpc_encode cd (wrap r) = Inr b" for r using assms by (auto simp: codec_ok_def)
  then have "on_wire cd wrap (Ok r, w) = (Ok r, w)" for r w
    unfolding on_wire_def by (metis (no_types, lifting) outcome.case(1) prod.case sum.case(2))
  then show ?thesis by (cases x; cases "fst x") (auto simp: on_wire_def)
qed

definition reply :: "(panic \<Rightarrow> goerr) \<Rightarrow> 'r outcome \<times> 'w \<Rightarrow> (goerr + 'r) \<times> 'w" where
  "reply crash x = ((case fst x of Ok r \<Rightarrow> Inr r | Err e \<Rightarrow> Inl e | Panic p \<Rightarrow> Inl (crash p)), snd x)"

lemmas handler_defs = HealthCheck_Handler_def Pause_Handler_def Resume_Handler_def Migrate_Handler_def
  Unmigrate_Handler_def

lemma dispatch_simps:
  "dispatch srv cd i ctx ''/failover.Failover/health_check'' = HealthCheck_Handler srv cd i ctx"
  "dispatch srv cd i ctx ''/failover.Failover/pause'' = Pause_Handler srv cd i ctx"
  "dispatch srv cd i ctx ''/failover.Failover/resume'' = Resume_Handler srv cd i ctx"
  "dispatch srv cd i ctx ''/failover.Failover/migrate'' = Migrate_Handler srv cd i ctx"
  "dispatch srv cd i ctx ''/failover.Failover/unmigrate'' = Unmigrate_Handler srv cd i ctx"
  by (intro ext; simp add: dispatch_def serviceDesc_def)+

text \<open>An interceptor that hands the request through.\<close>

definition transparent :: "'w interceptor option \<Rightarrow> bool" where
  "transparent i \<longleftrightarrow> (\<forall>ctx req name h w. intercept i ctx req name h w = h ctx req w)"

definition server_panics :: "'w FailoverServer \<Rightarrow> panic \<Rightarrow> bool" where
  "server_panics srv p \<longleftrightarrow> (\<exists>ctx w. fst (server_HealthCheck srv ctx w) = Panic p \<or> (\<exists>req. fst (server_Pause srv ctx req w) = Panic p) \<or>
     fst (server_Resume srv ctx w) = Panic p \<or> fst (server_Migrate srv ctx w) = Panic p \<or> fst (server_Unmigrate srv ctx w) = Panic p)"

lemma server_panicsI:
  "fst (server_HealthCheck srv ctx w) = Panic p \<Longrightarrow> server_panics srv p" "fst (server_Pause srv ctx req w) = Panic p \<Longrightarrow> server_panics srv p"
  "fst (server_Resume srv ctx w) = Panic p \<Longrightarrow> server_panics srv p" "fst (server_Migrate srv ctx w) = Panic p \<Longrightarrow> server_panics srv p"
  "fst (server_Unmigrate srv ctx w) = Panic p \<Longrightarrow> server_panics srv p"
  unfolding server_panics_def by blast+

lemma map_outcome_cases:
  "map_outcome f x = Ok y \<longleftrightarrow> (\<exists>z. x = Ok z \<and> y = f z)" "map_outcome f x = Panic p \<longleftrightarrow> x = Panic p"
  by (cases x; auto)+

lemma empty_handler_typed:
  assumes "transparent i"
    and "(case dec_Empty cd body of Inl err \<Rightarrow> (Err err, w) | Inr u \<Rightarrow> intercept i ctx MEmpty name (on_empty wrap f) w) = (r, w')"
  shows "(\<forall>resp. r = Ok resp \<longrightarrow> (\<exists>x. resp = wrap x)) \<and> (\<forall>p. r = Panic p \<longrightarrow> fst (f ctx w) = Panic p)"
  using assms
  by (cases "f ctx w") (auto simp: transparent_def on_empty_def map_outcome_cases split: sum.splits)

lemma pause_handler_typed:
  assumes "transparent i"
    and "(case dec_PauseRequest cd body of Inl err \<Rightarrow> (Err err, w)
      | Inr req \<Rightarrow> intercept i ctx (MPauseRequest req) name (on_pause f) w) = (r, w')"
  shows "(\<forall>resp. r = Ok resp \<longrightarrow> (\<exists>x. resp = MPauseResponse x)) \<and> (\<forall>p. r = Panic p \<longrightarrow> (\<exists>req. fst (f ctx req w) = Panic p))"
proof (cases "dec_PauseRequest cd body")
  case (Inr req)
  with assms show ?thesis
    by (cases "f ctx req w") (auto simp: transparent_def on_pause_def map_outcome_cases intro: exI [of _ req])
qed (use assms in auto)

lemma handler_typed:
  assumes "transparent i" and "(m, h) \<in> set (serviceDesc srv cd)" and "h i ctx body w = (r, w')"
  shows "(\<forall>resp. r = Ok resp \<longrightarrow> (\<exists>q. (m, q, mtype_of resp) \<in> set service_types)) \<and> (\<forall>p. r = Panic p \<longrightarrow> server_panics srv p)"
proof -
  have "m = ''health_check'' \<and> h = HealthCheck_Handler srv cd \<or> m = ''pause'' \<and> h = Pause_Handler srv cd \<or>
      m = ''resume'' \<and> h = Resume_Handler srv cd \<or> m = ''migrate'' \<and> h = Migrate_Handler srv cd \<or>
      m = ''unmigrate'' \<and> h = Unmigrate_Handler srv cd"
    using assms(2) by (simp add: serviceDesc_def)
  then show ?thesis
  proof (elim disjE conjE)
    assume m: "m = ''health_check''" "h = HealthCheck_Handler srv cd"
    from empty_handler_typed [OF assms(1) assms(3) [unfolded m(2) HealthCheck_Handler_def]] m(1) show ?thesis
      by (auto simp: service_types_def intro: server_panicsI)
  next
    assume m: "m = ''pause''" "h = Pause_Handler srv cd"
    from pause_handler_typed [OF assms(1) assms(3) [unfolded m(2) Pause_Handler_def]] m(1) show ?thesis
      by (auto simp: service_types_def intro: server_panicsI)
  next
    assume m: "m = ''resume''" "h = Resume_Handler srv cd"
    from empty_handler_typed [OF assms(1) assms(3) [unfolded m(2) Resume_Handler_def]] m(1) show ?thesis
      by (auto simp: service_types_def intro: server_panicsI)
  next
    assume m: "m = ''migrate''" "h = Migrate_Handler srv cd"
    from empty_handler_typed [OF assms(1) assms(3) [unfolded m(2) Migrate_Handler_def]] m(1) show ?thesis
      by (auto simp: service_types_def intro: server_panicsI)
  next
    assume m: "m = ''unmigrate''" "h = Unmigrate_Handler srv cd"
    from empty_handler_typed [OF assms(1) assms(3) [unfolded m(2) Unmigrate_Handler_def]] m(1) show ?thesis
      by (auto simp: service_types_def intro: server_panicsI)
  qed
qed

text \<open>
  C26. A method of the server answers with a message of the type that the service definition gives to this
  method, whatever the bytes of the request are, or with an error; no type assertion of a handler ever
  fails: a panic is one of the server's own methods. A method that is not in the service definition is answered
  with an error.
\<close>

theorem dispatch_typed:
  assumes "transparent i" and "dispatch srv cd i ctx (''/failover.Failover/'' @ m) body w = (r, w')"
  shows "(\<forall>resp. r = Ok resp \<longrightarrow> (\<exists>q. (m, q, mtype_of resp) \<in> set service_types)) \<and>
    (\<forall>p. r = Panic p \<longrightarrow> server_panics srv p) \<and> (m \<notin> fst ` set service_types \<longrightarrow> (\<exists>e. r = Err e))"
proof (cases "map_of (serviceDesc srv cd) m")
  case None
  then have "map_of (map (map_prod ((@) ''/failover.Failover/'') id) (serviceDesc srv cd)) (''/failover.Failover/'' @ m) = None"
    by (simp add: map_of_eq_None_iff image_image) (auto simp: image_iff)
  with assms(2) have "\<exists>e. r = Err e" unfolding dispatch_def by auto
  then show ?thesis by auto
next
  case (Some h)
  then have mem: "(m, h) \<in> set (serviceDesc srv cd)" by (rule map_of_SomeD)
  then have "m \<in> fst ` set service_types" by (auto simp: serviceDesc_def service_types_def)
  moreover have "map_of (map (map_prod ((@) ''/failover.Failover/'') id) (serviceDesc srv cd)) (''/failover.Failover/'' @ m) = Some h"
  proof -
    have "map_of (map (map_prod ((@) pre) id) xs) (pre @ k) = map_of xs k" for pre k and xs :: "(string \<times> 'z) list"
      by (induction xs) auto
    with Some show ?thesis by metis
  qed
  then have "h i ctx body w = (r, w')" using assms(2) unfolding dispatch_def by simp
  ultimately show ?thesis using handler_typed [OF assms(1) mem] by blast
qed

lemma call_dispatch:
  assumes "connected cc srv cd i crash" and ok: "codec_ok cd" and "sendable req"
    and "\<And>b. decodes cd req b \<Longrightarrow> dispatch srv cd i ctx method b w = map_prod (map_outcome wrap) id x"
    and dec: "\<And>r b. decodes cd (wrap r) b \<Longrightarrow> dec b = Inr r"
  shows "call cc cd dec ctx method req w = reply crash (on_wire cd wrap x)"
proof -
  from codec_encodes [OF ok] assms(3) obtain b where b: "grpc_encode cd req = Inr b" "decodes cd req b" by blast
  with assms(1,4) have cc: "cc ctx method b w = (case x of
      (Ok r, w') \<Rightarrow> (grpc_encode cd (wrap r), w') | (Err e, w') \<Rightarrow> (Inl e, w') | (Panic p, w') \<Rightarrow> (Inl (crash p), w'))"
    by (cases x; cases "fst x") (auto simp: connected_def)
  obtain y w' where x: "x = (y, w')" by fastforce
  show ?thesis
  proof (cases y)
    case (Ok r)
    from codec_encodes [OF ok, of "wrap r"] show ?thesis
    proof cases
      case (1 c)
      with cc b x Ok dec show ?thesis by (auto simp: call_def on_wire_def reply_def)
    next
      case (2 e)
      with cc b x Ok show ?thesis by (auto simp: call_def on_wire_def reply_def)
    qed
  qed (use cc b x in \<open>auto simp: call_def on_wire_def reply_def\<close>)
qed

lemma stub_replies:
  assumes cc: "connected cc srv cd i crash" and cd: "codec_ok cd" and i: "transparent i"
  shows "HealthCheck (NewFailoverClient cc cd) ctx w = reply crash (server_HealthCheck srv ctx w)"
    and "client_Pause (NewFailoverClient cc cd) ctx req w = reply crash (server_Pause srv ctx req w)"
    and "client_Resume (NewFailoverClient cc cd) ctx w = reply crash (server_Resume srv ctx w)"
    and "client_Migrate (NewFailoverClient cc cd) ctx w = reply crash (on_wire cd MMigrateResponse (server_Migrate srv ctx w))"
    and "client_Unmigrate (NewFailoverClient cc cd) ctx w = reply crash (server_Unmigrate srv ctx w)"
proof -
  have i': "intercept i ctx req name h w = h ctx req w" for ctx req name h w using i by (simp add: transparent_def)
  note id = on_wire_id [OF cd] and simps = dispatch_simps handler_defs i' on_empty_def on_pause_def decodes_def sendable_def
  have "HealthCheck (NewFailoverClient cc cd) ctx w = reply crash (on_wire cd MHealthCheckResponse (server_HealthCheck srv ctx w))"
    unfolding NewFailoverClient_def FailoverClient.simps by (rule call_dispatch [OF cc cd]) (simp_all add: simps)
  then show "HealthCheck (NewFailoverClient cc cd) ctx w = reply crash (server_HealthCheck srv ctx w)"
    by (simp add: id sendable_def)
  have "client_Pause (NewFailoverClient cc cd) ctx req w = reply crash (on_wire cd MPauseResponse (server_Pause srv ctx req w))"
    unfolding NewFailoverClient_def FailoverClient.simps by (rule call_dispatch [OF cc cd]) (simp_all add: simps)
  then show "client_Pause (NewFailoverClient cc cd) ctx req w = reply crash (server_Pause srv ctx req w)"
    by (simp add: id sendable_def)
  have "client_Resume (NewFailoverClient cc cd) ctx w = reply crash (on_wire cd MResumeResponse (server_Resume srv ctx w))"
    unfolding NewFailoverClient_def FailoverClient.simps by (rule call_dispatch [OF cc cd]) (simp_all add: simps)
  then show "client_Resume (NewFailoverClient cc cd) ctx w = reply crash (server_Resume srv ctx w)"
    by (simp add: id sendable_def)
  show "client_Migrate (NewFailoverClient cc cd) ctx w = reply crash (on_wire cd MMigrateResponse (server_Migrate srv ctx w))"
    unfolding NewFailoverClient_def FailoverClient.simps by (rule call_dispatch [OF cc cd]) (simp_all add: simps)
  have "client_Unmigrate (NewFailoverClient cc cd) ctx w = reply crash (on_wire cd MUnmigrateResponse (server_Unmigrate srv ctx w))"
    unfolding NewFailoverClient_def FailoverClient.simps by (rule call_dispatch [OF cc cd]) (simp_all add: simps)
  then show "client_Unmigrate (NewFailoverClient cc cd) ctx w = reply crash (server_Unmigrate srv ctx w)"
    by (simp add: id sendable_def)
qed

text \<open>
  C24. A call of a client stub over a transport that delivers is a call of the server's method of the
  same name with the same request, also through an interceptor that hands requests on: its result comes
  back unchanged, an error as an error, and the server's state is the one its method leaves. The one exception is
  an answer of \<open>Migrate\<close> with a string that is not UTF-8 (or of gigabytes): the migration has run, but the caller gets an error.
\<close>

theorem stub_calls_server:
  assumes "connected cc srv cd i crash" and "codec_ok cd" and "transparent i"
  shows "HealthCheck (NewFailoverClient cc cd) ctx w = reply crash (server_HealthCheck srv ctx w) \<and>
    client_Pause (NewFailoverClient cc cd) ctx req w = reply crash (server_Pause srv ctx req w) \<and>
    client_Resume (NewFailoverClient cc cd) ctx w = reply crash (server_Resume srv ctx w) \<and>
    client_Migrate (NewFailoverClient cc cd) ctx w = reply crash (on_wire cd MMigrateResponse (server_Migrate srv ctx w)) \<and>
    client_Unmigrate (NewFailoverClient cc cd) ctx w = reply crash (server_Unmigrate srv ctx w)"
  by (simp add: stub_replies [OF assms])

text \<open>A codec that is the identity, a server that counts its calls, and the transport between them.\<close>

definition identity_codec :: "message codec" where
  "identity_codec =
     \<lparr>marshal = Inr, wire_len = (\<lambda>m. 0),
      dec_Empty = (\<lambda>m. case m of MEmpty \<Rightarrow> Inr () | _ \<Rightarrow> Inl (Plain ''empty'')),
      dec_HealthCheckResponse = (\<lambda>m. case m of MHealthCheckResponse r \<Rightarrow> Inr r | _ \<Rightarrow> Inl (Plain ''health'')),
      dec_PauseRequest = (\<lambda>m. case m of MPauseRequest r \<Rightarrow> Inr r | _ \<Rightarrow> Inl (Plain ''request'')),
      dec_PauseResponse = (\<lambda>m. case m of MPauseResponse r \<Rightarrow> Inr r | _ \<Rightarrow> Inl (Plain ''pause'')),
      dec_ResumeResponse = (\<lambda>m. case m of MResumeResponse r \<Rightarrow> Inr r | _ \<Rightarrow> Inl (Plain ''resume'')),
      dec_MigrateResponse = (\<lambda>m. case m of MMigrateResponse r \<Rightarrow> Inr r | _ \<Rightarrow> Inl (Plain ''migrate'')),
      dec_UnmigrateResponse = (\<lambda>m. case m of MUnmigrateResponse r \<Rightarrow> Inr r | _ \<Rightarrow> Inl (Plain ''unmigrate''))\<rparr>"

definition counting_server :: "nat FailoverServer" where
  "counting_server =
     \<lparr>server_HealthCheck = (\<lambda>ctx n. (Ok \<lparr>status = HEALTHY\<rparr>, n + 1)),
      server_Pause = (\<lambda>ctx req n. (Err (Status ''Unknown'' ''refused''), n + 1)),
      server_Resume = (\<lambda>ctx n. (Panic NilDereference, n)),
      server_Migrate = (\<lambda>ctx n. (Ok \<lparr>MigratingTo = ''pg02'', Address = ''10.0.0.2'', MigrateCreatedAt = None\<rparr>, n + 1)),
      server_Unmigrate = (\<lambda>ctx n. (Ok \<lparr>UnmigrateCreatedAt = None\<rparr>, n + 1))\<rparr>"

definition local_transport :: "'w FailoverServer \<Rightarrow> (message, 'w) transport" where
  "local_transport srv ctx method body w =
     (case dispatch srv identity_codec None ctx method body w of
        (Ok m, w') \<Rightarrow> (Inr m, w')
      | (Err e, w') \<Rightarrow> (Inl e, w')
      | (Panic p, w') \<Rightarrow> (Inl (Status ''Unavailable'' ''connection closed''), w'))"

lemma identity_codec_ok: "codec_ok identity_codec"
  by (simp add: codec_ok_def grpc_encode_def identity_codec_def decodes_def split: message.splits)

lemma encode_identity: "grpc_encode identity_codec m = Inr m"
  by (simp add: grpc_encode_def identity_codec_def)

lemma local_transport_connected:
  "connected (local_transport srv) srv identity_codec None (\<lambda>p. Status ''Unavailable'' ''connection closed'')"
  unfolding connected_def local_transport_def encode_identity by simp

theorem stub_calls_server_witness:
  "client_Migrate (NewFailoverClient (local_transport counting_server) identity_codec) Background 3 =
     (Inr \<lparr>MigratingTo = ''pg02'', Address = ''10.0.0.2'', MigrateCreatedAt = None\<rparr>, 4)"
proof -
  have "transparent None" by (simp add: transparent_def intercept_def)
  from stub_calls_server [OF local_transport_connected identity_codec_ok this, of counting_server Background 3]
  have "client_Migrate (NewFailoverClient (local_transport counting_server) identity_codec) Background 3 =
      reply (\<lambda>p. Status ''Unavailable'' ''connection closed'')
        (on_wire identity_codec MMigrateResponse (server_Migrate counting_server Background 3))"
    by blast
  then show ?thesis by (simp add: reply_def counting_server_def on_wire_def encode_identity)
qed

theorem dispatch_typed_witness:
  "\<exists>resp. fst (dispatch counting_server identity_codec None Background (''/failover.Failover/'' @ ''migrate'') MEmpty 3) = Ok resp \<and>
     (\<exists>q. (''migrate'', q, mtype_of resp) \<in> set service_types)"
proof -
  let ?resp = "MMigrateResponse \<lparr>MigratingTo = ''pg02'', Address = ''10.0.0.2'', MigrateCreatedAt = None\<rparr>"
  have "transparent None" by (simp add: transparent_def intercept_def)
  moreover have call: "dispatch counting_server identity_codec None Background (''/failover.Failover/'' @ ''migrate'') MEmpty 3 = (Ok ?resp, 4)"
    by (simp add: dispatch_def serviceDesc_def Migrate_Handler_def identity_codec_def intercept_def on_empty_def counting_server_def)
  ultimately have "\<exists>q. (''migrate'', q, mtype_of ?resp) \<in> set service_types"
    using dispatch_typed [of None counting_server identity_codec Background "''migrate''" MEmpty 3] by blast
  with call show ?thesis by auto
qed

end
