(* ===== verification/Failover.thy ===== *)
theory Failover
  imports Pipeline Messages Streams "HOL-Library.Multiset"
begin

text \<open>
  The failover procedure (\<open>pkg/failover/failover.go\<close>): health check of all nodes, the exclusive lock, the
  pause of all poolers, the migration that is awaited through etcd, each with its clean-up.

  Parameters of the model: the clients of the nodes, the lock, the clock and the passing of time, and the
  events that the etcd stream for the host key delivers, with their moments. Go's iteration order over
  a map is a parameter too: \<open>iteration\<close> is some permutation, which may differ from call to call. The
  goroutines of \<open>EachClient\<close> take effect one after the other in some such order, which \<open>Parallel\<close> justifies.
\<close>

section \<open>The code\<close>

record FailoverOptions =
  EtcdHostKey :: string
  HealthCheckTimeout :: duration
  LockTimeout :: duration
  PauseTimeout :: duration
  PauseExpiry :: duration
  ResumeTimeout :: duration
  PacemakerTimeout :: duration

record 'w locker =
  Lock :: "ctx \<Rightarrow> 'w \<Rightarrow> goerr option \<times> 'w"
  Unlock :: "ctx \<Rightarrow> 'w \<Rightarrow> goerr option \<times> 'w"

record 'w Failover =
  clients :: "(string \<times> 'w FailoverClient) list"
  locker_of :: "'w locker"
  opt :: FailoverOptions
  Now :: "'w \<Rightarrow> time"
  iteration :: "'w \<Rightarrow> (string \<times> 'w FailoverClient) list \<Rightarrow> (string \<times> 'w FailoverClient) list"
  host_events :: "ctx \<Rightarrow> 'w \<Rightarrow> (time \<times> KeyValue) list"  \<comment> \<open>what the etcd stream delivers from now on\<close>
  wait_until :: "time \<Rightarrow> 'w \<Rightarrow> 'w"
  select_notify :: "'w \<Rightarrow> bool"  \<comment> \<open>the choice of a \<open>select\<close> with both cases ready\<close>

definition ranged :: "'w Failover \<Rightarrow> 'w \<Rightarrow> (string \<times> 'w FailoverClient) list" where
  "ranged f w = iteration f w (clients f)"

fun health_check_each ::
  "'w Failover \<Rightarrow> ctx \<Rightarrow> (string \<times> 'w FailoverClient) list \<Rightarrow> 'w \<Rightarrow> unit outcome \<times> 'w" where
  "health_check_each f ctx [] w = (Ok (), w)"
| "health_check_each f ctx ((endpoint, client) # cs) w =
     (case HealthCheck client (WithTimeout ctx (Now f w) (HealthCheckTimeout (opt f))) w of
        (Inl err, w') \<Rightarrow> (Err (Wrapped err (''client '' @ endpoint @ '' failed health check'')), w')
      | (Inr resp, w') \<Rightarrow>
          (if GetStatus (Some resp) \<noteq> HEALTHY then
             (Err (Plain (''client '' @ endpoint @ '' received non-healthy response: '' @
                status_String (GetStatus (Some resp)))), w')
           else health_check_each f ctx cs w'))"

definition HealthCheckClients :: "'w Failover \<Rightarrow> 'w action" where
  "HealthCheckClients f ctx w = health_check_each f ctx (ranged f w) w"

definition AcquireLock :: "'w Failover \<Rightarrow> 'w action" where
  "AcquireLock f ctx w =
     map_prod of_err id (Lock (locker_of f) (WithTimeout ctx (Now f w) (LockTimeout (opt f))) w)"

definition ReleaseLock :: "'w Failover \<Rightarrow> 'w action" where
  "ReleaseLock f ctx w =
     map_prod of_err id (Unlock (locker_of f) (WithTimeout ctx (Now f w) (LockTimeout (opt f))) w)"

text \<open>The variable \<open>result\<close> is assigned by every goroutine that fails; the last assignment is returned.\<close>

fun each_client ::
  "(string \<Rightarrow> 'w FailoverClient \<Rightarrow> 'w \<Rightarrow> goerr option \<times> 'w) \<Rightarrow> (string \<times> 'w FailoverClient) list \<Rightarrow>
     goerr option \<Rightarrow> 'w \<Rightarrow> goerr option \<times> 'w" where
  "each_client act [] result w = (result, w)"
| "each_client act ((endpoint, client) # cs) result w =
     (case act endpoint client w of
        (None, w') \<Rightarrow> each_client act cs result w'
      | (Some err, w') \<Rightarrow> each_client act cs (Some err) w')"

definition EachClient ::
  "'w Failover \<Rightarrow> (string \<Rightarrow> 'w FailoverClient \<Rightarrow> 'w \<Rightarrow> goerr option \<times> 'w) \<Rightarrow> 'w \<Rightarrow> goerr option \<times> 'w" where
  "EachClient f act w = each_client act (ranged f w) None w"

definition err_of :: "(goerr + 'a) \<times> 'w \<Rightarrow> goerr option \<times> 'w" where
  "err_of x = (case x of (Inl e, w) \<Rightarrow> (Some e, w) | (Inr _, w) \<Rightarrow> (None, w))"

text \<open>\<open>int32(d / time.Second)\<close>: the quotient truncates towards zero, the conversion drops high bits.\<close>

definition whole_seconds :: "duration \<Rightarrow> int32" where
  "whole_seconds d = word_of_int (sint (duration_div d Second))"

definition pause_request :: "FailoverOptions \<Rightarrow> PauseRequest" where
  "pause_request fo = \<lparr>Timeout = whole_seconds (PauseTimeout fo), Expiry = whole_seconds (PauseExpiry fo)\<rparr>"

definition Pause :: "'w Failover \<Rightarrow> 'w action" where
  "Pause f ctx w =
     (let ctx' = WithTimeout ctx (Now f w) (PauseExpiry (opt f) + Second) in
      case EachClient f (\<lambda>endpoint client w. err_of (client_Pause client ctx' (pause_request (opt f)) w)) w of
        (Some err, w') \<Rightarrow> (Err (Plain ''failed to pause pgbouncers''), w')
      | (None, w') \<Rightarrow> (Ok (), w'))"

definition Resume :: "'w Failover \<Rightarrow> 'w action" where
  "Resume f ctx w =
     (let ctx' = WithTimeout ctx (Now f w) (ResumeTimeout (opt f)) in
      case EachClient f (\<lambda>endpoint client w. err_of (client_Resume client ctx' w)) w of
        (Some err, w') \<Rightarrow> (Err (Plain ''failed to resume pgbouncers''), w')
      | (None, w') \<Rightarrow> (Ok (), w'))"

text \<open>\<open>getClient\<close>: the first pair of an iteration; with no clients the client is \<open>nil\<close>.\<close>

definition getClient :: "'w Failover \<Rightarrow> 'w \<Rightarrow> string \<times> 'w FailoverClient option" where
  "getClient f w = (case ranged f w of [] \<Rightarrow> ('''', None) | (endpoint, client) # _ \<Rightarrow> (endpoint, Some client))"

text \<open>The stream of \<open>NotifyWhenMaster\<close> after the revision filter, with the moments of its events.\<close>

fun timed_filter :: "(string \<rightharpoonup> int) \<Rightarrow> (time \<times> KeyValue) list \<Rightarrow> (time \<times> KeyValue) list" where
  "timed_filter m [] = []"
| "timed_filter m ((t, kv) # es) =
     (case revision_step m kv of
        (m', None) \<Rightarrow> timed_filter m' es
      | (m', Some out) \<Rightarrow> (t, out) # timed_filter m' es)"

definition is_master :: "string \<Rightarrow> string \<Rightarrow> KeyValue \<Rightarrow> bool" where
  "is_master key targetAddr kv \<longleftrightarrow> Key kv = key \<and> Value kv = targetAddr"

text \<open>The moment at which \<open>notify\<close> is first sent on, if it ever is.\<close>

definition NotifyWhenMaster :: "'w Failover \<Rightarrow> ctx \<Rightarrow> string \<Rightarrow> 'w \<Rightarrow> time option" where
  "NotifyWhenMaster f ctx targetAddr w =
     (case filter (\<lambda>(t, kv). is_master (EtcdHostKey (opt f)) targetAddr kv)
         (timed_filter Map.empty (host_events f ctx w)) of
        [] \<Rightarrow> None
      | (t, kv) # _ \<Rightarrow> Some t)"

text \<open>
  The goroutine goes on after it has closed \<open>notify\<close>, so that another match is a send on a closed
  channel; \<open>closed\<close> says whether the first match has been consumed.
\<close>

fun notify_loop :: "string \<Rightarrow> string \<Rightarrow> bool \<Rightarrow> KeyValue list \<Rightarrow> unit outcome" where
  "notify_loop key targetAddr closed [] = Ok ()"
| "notify_loop key targetAddr closed (kv # kvs) =
     (if is_master key targetAddr kv then
        (if closed then Panic SendOnClosedChannel else notify_loop key targetAddr True kvs)
      else notify_loop key targetAddr closed kvs)"

definition Migrate :: "'w Failover \<Rightarrow> 'w action" where
  "Migrate f ctx w =
     (case getClient f w of
        (_, None) \<Rightarrow> (Panic NilDereference, w)
      | (endpoint, Some client) \<Rightarrow>
          (case client_Migrate client (WithTimeout ctx (Now f w) (PacemakerTimeout (opt f))) w of
             (Inl err, w') \<Rightarrow> (Err (Wrapped err (''failed to migrate client '' @ endpoint)), w')
           | (Inr resp, w') \<Rightarrow>
               (let expiry = time_add (Now f w') (PauseExpiry (opt f));
                    timeout = (Err (Plain (''timed out waiting for '' @ MigratingTo resp @ '' to become master'')),
                      wait_until f expiry w') in
                case NotifyWhenMaster f ctx (Address resp) w' of
                  None \<Rightarrow> timeout
                | Some t \<Rightarrow>
                    (if t < expiry \<or> t = expiry \<and> select_notify f w' then (Ok (), wait_until f t w')
                     else timeout))))"

definition Unmigrate :: "'w Failover \<Rightarrow> 'w action" where
  "Unmigrate f ctx w =
     (case getClient f w of
        (_, None) \<Rightarrow> (Panic NilDereference, w)
      | (endpoint, Some client) \<Rightarrow>
          (case client_Unmigrate client (WithTimeout ctx (Now f w) (PacemakerTimeout (opt f))) w of
             (Inl err, w') \<Rightarrow> (Err (Wrapped err (''failed to unmigrate client '' @ endpoint)), w')
           | (Inr _, w') \<Rightarrow> (Ok (), w')))"

definition Run :: "'w Failover \<Rightarrow> ctx \<Rightarrow> ctx \<Rightarrow> 'w \<Rightarrow> unit outcome \<times> 'w" where
  "Run f ctx deferCtx w =
     Pipeline
       [Step (HealthCheckClients f),
        Defer (Step (AcquireLock f)) [ReleaseLock f],
        Defer (Step (Pause f)) [Resume f],
        Defer (Step (Migrate f)) [Unmigrate f]]
       ctx deferCtx w"

text \<open>What Go promises of an iteration over a map: every pair, once.\<close>

definition iterates :: "'w Failover \<Rightarrow> bool" where
  "iterates f \<longleftrightarrow> distinct (map fst (clients f)) \<and> (\<forall>w. mset (iteration f w (clients f)) = mset (clients f))"

section \<open>The run as nested steps\<close>

text \<open>One step of a run: the rest only after a success, and the clean-up in every case.\<close>

definition guarded :: "'w action \<Rightarrow> 'w action list \<Rightarrow> ctx \<Rightarrow> ctx \<Rightarrow> ('w \<Rightarrow> unit outcome \<times> 'w) \<Rightarrow> 'w \<Rightarrow> unit outcome \<times> 'w" where
  "guarded a ds ctx dctx rest w =
     cleanup ds dctx (case a ctx w of (Ok _, w') \<Rightarrow> rest w' | (r, w') \<Rightarrow> (r, w'))"

lemma nested_guarded:
  "nested [] ctx dctx = (\<lambda>w. (Ok (), w))"
  "nested (s # ss) ctx dctx = guarded (action s) (rev (deferred s)) ctx dctx (nested ss ctx dctx)"
  by (intro ext; simp add: guarded_def)+

lemma Run_guarded:
  "Run f ctx dctx w =
     guarded (HealthCheckClients f) [] ctx dctx
       (guarded (AcquireLock f) [ReleaseLock f] ctx dctx
         (guarded (Pause f) [Resume f] ctx dctx
           (guarded (Migrate f) [Unmigrate f] ctx dctx (\<lambda>w. (Ok (), w))))) w"
  by (simp add: Run_def Pipeline_nested nested_guarded Step_def Defer_def del: nested.simps)

lemma guarded_cases:
  obtains (Fail) r w' where "a ctx w = (r, w')" "\<not> is_ok r" "guarded a ds ctx dctx rest w = cleanup ds dctx (r, w')"
  | (Go) w' where "a ctx w = (Ok (), w')" "guarded a ds ctx dctx rest w = cleanup ds dctx (rest w')"
proof -
  obtain r w' where a: "a ctx w = (r, w')" by fastforce
  show thesis
    using a that by (cases r) (simp_all add: guarded_def)
qed

text \<open>A single deferred action runs once, after the step, and its result is dropped unless it panics.\<close>

lemma cleanup_one:
  assumes "d dctx w = (q, w')"
  shows "cleanup [d] dctx (r, w) = ((case q of Panic p \<Rightarrow> Panic p | _ \<Rightarrow> r), w')"
  using assms by (cases q; cases r) (simp_all add: cleanup_def close_outcome_def)

section \<open>Iterating over the clients\<close>

lemma set_ranged: "iterates f \<Longrightarrow> set (ranged f w) = set (clients f)"
  unfolding iterates_def ranged_def by (metis set_mset_mset)

lemma each_client_err: "fst (each_client act cs (Some e) w) \<noteq> None"
  by (induction cs arbitrary: e w) (auto split: prod.splits option.splits)

lemma each_client_result:
  "snd (each_client act cs result w) = snd (each_client act cs None w)"
  "fst (each_client act cs result w) =
     (case fst (each_client act cs None w) of None \<Rightarrow> result | Some e \<Rightarrow> Some e)"
proof (induction cs arbitrary: result w)
  case Nil
  case 1 show ?case by simp
  case 2 show ?case by simp
next
  case (Cons c cs)
  obtain endpoint client where c: "c = (endpoint, client)" by fastforce
  case (1 result w)
  obtain r w' where a: "act endpoint client w = (r, w')" by fastforce
  show ?case
  proof (cases r)
    case None
    then have "act endpoint client w = (None, w')" using a by simp
    with Cons.IH(1) [of result w'] show ?thesis by (simp add: c)
  qed (simp add: c a)
  case (2 result w)
  obtain r w' where a: "act endpoint client w = (r, w')" by fastforce
  show ?case
  proof (cases r)
    case None
    then have "act endpoint client w = (None, w')" using a by simp
    with Cons.IH(2) [of result w'] show ?thesis by (simp add: c)
  next
    case (Some e)
    with each_client_err [of act cs e w'] show ?thesis by (auto simp: c a split: option.splits)
  qed
qed

text \<open>
  \<open>EachClient\<close> acts on every client exactly once, in some order and one after the other, whatever the
  earlier ones returned; it reports an error if and only if one of these actions failed, and the one it
  reports is the error of such an action.
\<close>

theorem EachClient_calls_all:
  assumes "iterates f"
  shows "\<exists>cs. mset cs = mset (clients f) \<and>
    snd (EachClient f act w) = foldl (\<lambda>w (endpoint, client). snd (act endpoint client w)) w cs \<and>
    (fst (EachClient f act w) = None \<longleftrightarrow>
      (\<forall>k < length cs. fst (act (fst (cs ! k)) (snd (cs ! k))
        (foldl (\<lambda>w (endpoint, client). snd (act endpoint client w)) w (take k cs))) = None)) \<and>
    (\<forall>e. fst (EachClient f act w) = Some e \<longrightarrow>
      (\<exists>k < length cs. fst (act (fst (cs ! k)) (snd (cs ! k))
        (foldl (\<lambda>w (endpoint, client). snd (act endpoint client w)) w (take k cs))) = Some e))"
proof -
  let ?go = "foldl (\<lambda>w (endpoint, client). snd (act endpoint client w))"
  let ?at = "\<lambda>cs w k. fst (act (fst (cs ! k)) (snd (cs ! k)) (?go w (take k cs)))"
  have "snd (each_client act cs None w) = ?go w cs \<and>
      (fst (each_client act cs None w) = None \<longleftrightarrow> (\<forall>k < length cs. ?at cs w k = None)) \<and>
      (\<forall>e. fst (each_client act cs None w) = Some e \<longrightarrow> (\<exists>k < length cs. ?at cs w k = Some e))" for cs
  proof (induction cs arbitrary: w)
    case Nil
    then show ?case by simp
  next
    case (Cons c cs)
    obtain endpoint client where c: "c = (endpoint, client)" by fastforce
    obtain r w' where a: "act endpoint client w = (r, w')" by fastforce
    have k0: "?at (c # cs) w 0 = r" by (simp add: c a)
    have kS: "?at (c # cs) w (Suc k) = ?at cs w' k" for k by (simp add: c a)
    have all: "(\<forall>k < length (c # cs). ?at (c # cs) w k = None) \<longleftrightarrow> r = None \<and> (\<forall>k < length cs. ?at cs w' k = None)"
      unfolding list.size add_Suc_right add_0_right All_less_Suc2 k0 kS ..
    have some: "(\<exists>k < length (c # cs). ?at (c # cs) w k = Some e) \<longleftrightarrow>
        r = Some e \<or> (\<exists>k < length cs. ?at cs w' k = Some e)" for e
      unfolding list.size add_Suc_right add_0_right Ex_less_Suc2 k0 kS ..
    have run: "each_client act (c # cs) None w = each_client act cs r w'" by (cases r) (simp_all add: c a)
    show ?case
      unfolding run all some each_client_result [of act cs r w']
      using Cons.IH [of w'] by (cases r) (auto simp: c a split: option.splits)
  qed
  moreover have "mset (ranged f w) = mset (clients f)" using assms by (simp add: iterates_def ranged_def)
  ultimately show ?thesis unfolding EachClient_def by blast
qed

section \<open>The health check\<close>

definition health_world :: "'w Failover \<Rightarrow> ctx \<Rightarrow> (string \<times> 'w FailoverClient) list \<Rightarrow> 'w \<Rightarrow> 'w" where
  "health_world f ctx cs w =
     foldl (\<lambda>w (endpoint, client). snd (HealthCheck client (WithTimeout ctx (Now f w) (HealthCheckTimeout (opt f))) w)) w cs"

definition answers_healthy :: "'w Failover \<Rightarrow> ctx \<Rightarrow> 'w FailoverClient \<Rightarrow> 'w \<Rightarrow> bool" where
  "answers_healthy f ctx client w \<longleftrightarrow>
     (case fst (HealthCheck client (WithTimeout ctx (Now f w) (HealthCheckTimeout (opt f))) w) of
        Inl err \<Rightarrow> False | Inr resp \<Rightarrow> status resp = HEALTHY)"

lemma health_check_each_ok:
  "(\<forall>p. fst (health_check_each f ctx cs w) \<noteq> Panic p) \<and>
   (is_ok (fst (health_check_each f ctx cs w)) \<longleftrightarrow>
     (\<forall>k < length cs. answers_healthy f ctx (snd (cs ! k)) (health_world f ctx (take k cs) w)))"
proof (induction cs arbitrary: w)
  case Nil
  then show ?case by simp
next
  case (Cons c cs)
  obtain endpoint client where c: "c = (endpoint, client)" by fastforce
  obtain r w' where h: "HealthCheck client (WithTimeout ctx (Now f w) (HealthCheckTimeout (opt f))) w = (r, w')"
    by fastforce
  have k0: "answers_healthy f ctx (snd ((c # cs) ! 0)) (health_world f ctx (take 0 (c # cs)) w) \<longleftrightarrow>
      (case r of Inl err \<Rightarrow> False | Inr resp \<Rightarrow> status resp = HEALTHY)"
    by (simp add: c h answers_healthy_def health_world_def)
  have kS: "answers_healthy f ctx (snd ((c # cs) ! Suc k)) (health_world f ctx (take (Suc k) (c # cs)) w) \<longleftrightarrow>
      answers_healthy f ctx (snd (cs ! k)) (health_world f ctx (take k cs) w')" for k
    by (simp add: c h health_world_def)
  show ?case
    unfolding list.size add_Suc_right add_0_right All_less_Suc2 k0 kS
    using Cons.IH [of w'] by (cases r) (simp_all add: c h GetStatus_def)
qed

text \<open>
  C13. A failover starts with the health of every node: the health check succeeds if and only if every client,
  asked in turn under its own timeout, answers \<open>HEALTHY\<close>; and unless it succeeds the run ends there
  with its error, with neither the lock nor a pooler nor the cluster touched.
\<close>

theorem Run_needs_health:
  "(is_ok (fst (HealthCheckClients f ctx w)) \<longleftrightarrow>
     (\<forall>k < length (ranged f w). answers_healthy f ctx (snd (ranged f w ! k)) (health_world f ctx (take k (ranged f w)) w))) \<and>
   (\<not> is_ok (fst (HealthCheckClients f ctx w)) \<longrightarrow>
     Run f ctx dctx w = HealthCheckClients f ctx w \<and> (\<exists>err. fst (Run f ctx dctx w) = Err err))"
proof -
  obtain r w' where h: "HealthCheckClients f ctx w = (r, w')" by fastforce
  have "Run f ctx dctx w = (r, w')" if "\<not> is_ok r"
    using that h by (cases r) (simp_all add: Run_guarded guarded_def)
  moreover have "\<exists>err. r = Err err" if "\<not> is_ok r"
    using that h health_check_each_ok [of f ctx "ranged f w" w] by (cases r) (auto simp: HealthCheckClients_def)
  ultimately show ?thesis
    using health_check_each_ok [of f ctx "ranged f w" w] h by (auto simp: HealthCheckClients_def)
qed

section \<open>Pausing in whole seconds\<close>

lemma duration_div_Second: "sint (duration_div d Second) = sint d sdiv 1000000000"
proof -
  have "- (2 ^ 63) \<le> sint d" "sint d < 2 ^ 63" using sint_ge [of d] sint_lt [of d] by simp_all
  then have "- (2 ^ 63) \<le> sint d sdiv 1000000000 \<and> sint d sdiv 1000000000 < 2 ^ 63"
    by (auto simp: signed_divide_int_def sgn_if)
  then show ?thesis
    by (simp add: duration_div_def sint_in_range)
qed

text \<open>
  C31. The pause request carries the timeout and the expiry in whole seconds, rounded towards zero: exactly
  so for durations below 2^31 seconds. A duration under a second becomes zero, so that a positive
  pause expiry below one second asks for a pause without any expiry.
\<close>

theorem pause_request_seconds:
  assumes "0 \<le> sint (PauseTimeout o1)" "sint (PauseTimeout o1) < 2 ^ 31 * 1000000000"
    and "0 \<le> sint (PauseExpiry o1)" "sint (PauseExpiry o1) < 2 ^ 31 * 1000000000"
  shows "sint (Timeout (pause_request o1)) = sint (PauseTimeout o1) div 1000000000 \<and>
    sint (Expiry (pause_request o1)) = sint (PauseExpiry o1) div 1000000000 \<and>
    (sint (PauseExpiry o1) < 1000000000 \<longrightarrow> Expiry (pause_request o1) = 0)"
proof -
  have whole: "sint (whole_seconds d) = sint d div 1000000000"
    if "0 \<le> sint d" "sint d < 2 ^ 31 * 1000000000" for d
  proof -
    have "sint d sdiv 1000000000 = sint d div 1000000000" using that(1) by (simp add: signed_divide_int_def sgn_if)
    moreover have "0 \<le> sint d div 1000000000" "sint d div 1000000000 < 2 ^ 31" using that by simp_all
    ultimately show ?thesis
      by (simp add: whole_seconds_def duration_div_Second sint_in_range)
  qed
  moreover have "Expiry (pause_request o1) = 0" if "sint (PauseExpiry o1) < 1000000000"
    using that assms(3) by (simp add: pause_request_def whole_seconds_def duration_div_Second signed_divide_int_def sgn_if)
  ultimately show ?thesis using assms by (simp add: pause_request_def)
qed

section \<open>Cleaning up\<close>

lemma lock_not_panic [never_panics]: "fst (AcquireLock f ctx w) \<noteq> Panic p" "fst (ReleaseLock f ctx w) \<noteq> Panic p"
  by (simp_all add: AcquireLock_def ReleaseLock_def of_err_def split: option.splits)

lemma pause_not_panic [never_panics]: "fst (Pause f ctx w) \<noteq> Panic p" "fst (Resume f ctx w) \<noteq> Panic p"
  by (auto simp: Pause_def Resume_def Let_def split: prod.splits option.splits)

lemma cleanup_quiet:
  assumes "\<And>p. fst (d dctx w) \<noteq> Panic p"
  shows "cleanup [d] dctx (r, w) = (r, snd (d dctx w))"
proof -
  obtain q w' where "d dctx w = (q, w')" by fastforce
  with assms cleanup_one [of d dctx w q w' r] show ?thesis by (cases q) auto
qed

lemma cleanup_Release: "cleanup [ReleaseLock f] dctx (r, w) = (r, snd (ReleaseLock f dctx w))"
  by (rule cleanup_quiet) (rule lock_not_panic)

lemma cleanup_Resume: "cleanup [Resume f] dctx (r, w) = (r, snd (Resume f dctx w))"
  by (rule cleanup_quiet) (rule pause_not_panic)

lemma Unmigrate_panics: "fst (Unmigrate f ctx w) = Panic p \<longleftrightarrow> ranged f w = [] \<and> p = NilDereference"
  by (auto simp: Unmigrate_def getClient_def split: list.splits prod.splits sum.splits)

lemma Run_healthy:
  assumes "HealthCheckClients f ctx w = (Ok (), w1)"
  shows "Run f ctx dctx w =
     (case AcquireLock f ctx w1 of
        (Ok _, w2) \<Rightarrow>
          (case Pause f ctx w2 of
             (Ok _, w3) \<Rightarrow>
               (case cleanup [Unmigrate f] dctx (Migrate f ctx w3) of (r, w4) \<Rightarrow>
                  (r, snd (ReleaseLock f dctx (snd (Resume f dctx w4)))))
           | (r, w3) \<Rightarrow> (r, snd (ReleaseLock f dctx (snd (Resume f dctx w3)))))
      | (r, w2) \<Rightarrow> (r, snd (ReleaseLock f dctx w2)))"
proof -
  have m: "guarded (Migrate f) [Unmigrate f] ctx dctx (\<lambda>w. (Ok (), w)) w3 = cleanup [Unmigrate f] dctx (Migrate f ctx w3)" for w3
    by (auto simp: guarded_def split: prod.splits outcome.splits)
  show ?thesis
    unfolding Run_guarded
    by (simp add: guarded_def [of "HealthCheckClients f"] guarded_def [of "AcquireLock f"] guarded_def [of "Pause f"]
        assms m cleanup_Release cleanup_Resume split: prod.splits outcome.splits)
qed

text \<open>
  C1. What is undone in a run that passed the health check, on success, error and panic alike: the lock is
  released as the last thing, even when acquiring it has failed; before that the poolers are resumed
  if the pause was attempted; and before that the migration constraint is removed if the migration was
  attempted. The errors of these clean-ups are dropped: the result is the one of the failing step.
\<close>

theorem Run_cleans_up:
  assumes "HealthCheckClients f ctx w = (Ok (), w1)"
  shows "case AcquireLock f ctx w1 of
      (Err e, w2) \<Rightarrow> Run f ctx dctx w = (Err e, snd (ReleaseLock f dctx w2))
    | (Panic p, w2) \<Rightarrow> False
    | (Ok _, w2) \<Rightarrow>
        (case Pause f ctx w2 of
           (Err e, w3) \<Rightarrow> Run f ctx dctx w = (Err e, snd (ReleaseLock f dctx (snd (Resume f dctx w3))))
         | (Panic p, w3) \<Rightarrow> False
         | (Ok _, w3) \<Rightarrow>
             (\<exists>r w4. Migrate f ctx w3 = (r, w4) \<and>
                snd (Run f ctx dctx w) = snd (ReleaseLock f dctx (snd (Resume f dctx (snd (Unmigrate f dctx w4))))) \<and>
                (ranged f w4 \<noteq> [] \<longrightarrow> fst (Run f ctx dctx w) = r)))"
proof -
  obtain r2 w2 where l: "AcquireLock f ctx w1 = (r2, w2)" by fastforce
  obtain r3 w3 where p: "Pause f ctx w2 = (r3, w3)" by fastforce
  obtain r4 w4 where m: "Migrate f ctx w3 = (r4, w4)" by fastforce
  obtain r5 w5 where u: "Unmigrate f dctx w4 = (r5, w5)" by fastforce
  have "r2 \<noteq> Panic q" "r3 \<noteq> Panic q" for q
    using l p lock_not_panic(1) [of f ctx w1 q] pause_not_panic(1) [of f ctx w2 q] by auto
  moreover have "cleanup [Unmigrate f] dctx (r4, w4) = ((case r5 of Panic p \<Rightarrow> Panic p | _ \<Rightarrow> r4), w5)"
    by (rule cleanup_one [where d = "Unmigrate f", OF u])
  moreover have "ranged f w4 \<noteq> [] \<Longrightarrow> r5 \<noteq> Panic q" for q using u Unmigrate_panics [of f dctx w4 q] by auto
  ultimately show ?thesis
    unfolding Run_healthy [OF assms] l p m prod.case
    by (cases r2; cases r3; cases r5) (auto simp: m u)
qed

section \<open>Waiting for the new master\<close>

lemma timed_filter_run: "map snd (timed_filter m es) = filter_run revision_step m (map snd es)"
  by (induction m es rule: timed_filter.induct) (auto split: prod.splits option.splits)

lemma revision_step_out: "revision_step m kv = (m', Some out) \<Longrightarrow> out = kv"
  by (auto simp: revision_step_def Let_def split: if_splits)

lemma timed_filter_sub: "set (timed_filter m es) \<subseteq> set es"
proof (induction es arbitrary: m)
  case (Cons e es)
  obtain t kv where e: "e = (t, kv)" by fastforce
  obtain m' r where r: "revision_step m kv = (m', r)" by fastforce
  show ?case
  proof (cases r)
    case None
    with Cons.IH [of m'] show ?thesis by (auto simp: e r)
  next
    case (Some out)
    with r have "out = kv" using revision_step_out by blast
    with Cons.IH [of m'] Some show ?thesis by (auto simp: e r)
  qed
qed simp

lemma NotifyWhenMaster_Some:
  assumes "NotifyWhenMaster f ctx a w = Some t"
  shows "\<exists>kv. (t, kv) \<in> set (host_events f ctx w) \<and> is_master (EtcdHostKey (opt f)) a kv"
proof -
  obtain kv rest where "filter (\<lambda>(t, kv). is_master (EtcdHostKey (opt f)) a kv)
      (timed_filter Map.empty (host_events f ctx w)) = (t, kv) # rest"
    using assms by (auto simp: NotifyWhenMaster_def split: list.splits)
  then have "(t, kv) \<in> set (filter (\<lambda>(t, kv). is_master (EtcdHostKey (opt f)) a kv)
      (timed_filter Map.empty (host_events f ctx w)))" by simp
  then have "(t, kv) \<in> set (timed_filter Map.empty (host_events f ctx w))" "is_master (EtcdHostKey (opt f)) a kv"
    by simp_all
  with timed_filter_sub [of Map.empty "host_events f ctx w"] show ?thesis by blast
qed

lemma timed_filter_append:
  "timed_filter m (xs @ ys) = timed_filter m xs @ timed_filter (filter_state revision_step m (map snd xs)) ys"
  by (induction m xs rule: timed_filter.induct) (auto split: prod.splits option.splits)

text \<open>An event of the new master that is newer than all before it ends the wait, unless an earlier one has.\<close>

lemma NotifyWhenMaster_fresh:
  assumes events: "host_events f ctx w = before @ (t, ev) # after"
    and master: "is_master (EtcdHostKey (opt f)) a ev"
    and fresh: "0 < ModRevision ev" "\<And>t' kv. (t', kv) \<in> set before \<Longrightarrow> t' \<le> t \<and> ModRevision kv < ModRevision ev"
  shows "\<exists>t' \<le> t. NotifyWhenMaster f ctx a w = Some t'"
proof -
  let ?P = "\<lambda>(t, kv). is_master (EtcdHostKey (opt f)) a kv"
  let ?m = "filter_state revision_step Map.empty (map snd before)"
  have "previous_revision (?m (Key ev)) < ModRevision ev" using fresh by (fastforce simp: revision_state)
  then have "revision_step ?m ev = (?m(Key ev \<mapsto> ModRevision ev), Some ev)" by (simp add: revision_step_def)
  then obtain rest where "timed_filter Map.empty (host_events f ctx w) = timed_filter Map.empty before @ (t, ev) # rest"
    by (simp add: events timed_filter_append)
  then have "NotifyWhenMaster f ctx a w =
      (case filter ?P (timed_filter Map.empty before) of [] \<Rightarrow> Some t | (t', kv) # _ \<Rightarrow> Some t')"
    using master by (simp add: NotifyWhenMaster_def split: list.splits)
  moreover have "t' \<le> t" if "filter ?P (timed_filter Map.empty before) = (t', kv) # es" for t' kv es
  proof -
    have "(t', kv) \<in> set (filter ?P (timed_filter Map.empty before))" using that by simp
    then show ?thesis using timed_filter_sub [of Map.empty before] fresh(2) by auto
  qed
  ultimately show ?thesis by (cases "filter ?P (timed_filter Map.empty before)") auto
qed

lemma Migrate_in_time:
  assumes "ranged f w = (endpoint, client) # cs"
    and "client_Migrate client (WithTimeout ctx (Now f w) (PacemakerTimeout (opt f))) w = (Inr resp, w1)"
    and "NotifyWhenMaster f ctx (Address resp) w1 = Some t" and "t < time_add (Now f w1) (PauseExpiry (opt f))"
  shows "Migrate f ctx w = (Ok (), wait_until f t w1)"
  using assms by (simp add: Migrate_def getClient_def Let_def)



section \<open>Poolers and failovers\<close>

lemma Pause_each:
  "snd (Pause f ctx w) = snd (each_client (\<lambda>ep c v. err_of (client_Pause c
     (WithTimeout ctx (Now f w) (PauseExpiry (opt f) + Second)) (pause_request (opt f)) v)) (ranged f w) None w)"
  by (auto simp: Pause_def EachClient_def Let_def split: prod.splits option.splits)

lemma Resume_each:
  "snd (Resume f ctx w) = snd (each_client (\<lambda>ep c v. err_of (client_Resume c
     (WithTimeout ctx (Now f w) (ResumeTimeout (opt f))) v)) (ranged f w) None w)"
  "fst (Resume f ctx w) = Ok () \<longleftrightarrow> fst (each_client (\<lambda>ep c v. err_of (client_Resume c
     (WithTimeout ctx (Now f w) (ResumeTimeout (opt f))) v)) (ranged f w) None w) = None"
  by (auto simp: Resume_def EachClient_def Let_def split: prod.splits option.splits)

text \<open>
  What a failover relies on, for the set of endpoints whose pooler is paused: only a pause request pauses
  a pooler, and only the one it is sent to; a resume request that succeeds resumes it. Poolers may
  resume by themselves at any time. \<open>lawful\<close> is the provider's condition.
\<close>

locale failover_nodes =
  fixes f :: "'w Failover" and paused :: "'w \<Rightarrow> string set" and lawful :: bool
  assumes iterates: "lawful \<Longrightarrow> iterates f"
    and health: "lawful \<Longrightarrow> (ep, c) \<in> set (clients f) \<Longrightarrow> paused (snd (HealthCheck c ctx w)) \<subseteq> paused w"
    and pause: "lawful \<Longrightarrow> (ep, c) \<in> set (clients f) \<Longrightarrow> paused (snd (client_Pause c ctx req w)) \<subseteq> insert ep (paused w)"
    and resume: "lawful \<Longrightarrow> (ep, c) \<in> set (clients f) \<Longrightarrow> paused (snd (client_Resume c ctx w)) \<subseteq> paused w"
    and resume_ok: "lawful \<Longrightarrow> (ep, c) \<in> set (clients f) \<Longrightarrow> client_Resume c ctx w = (Inr resp, w') \<Longrightarrow> ep \<notin> paused w'"
    and migrate: "lawful \<Longrightarrow> (ep, c) \<in> set (clients f) \<Longrightarrow> paused (snd (client_Migrate c ctx w)) \<subseteq> paused w"
    and unmigrate: "lawful \<Longrightarrow> (ep, c) \<in> set (clients f) \<Longrightarrow> paused (snd (client_Unmigrate c ctx w)) \<subseteq> paused w"
    and lock: "lawful \<Longrightarrow> paused (snd (Lock (locker_of f) ctx w)) \<subseteq> paused w"
    and unlock: "lawful \<Longrightarrow> paused (snd (Unlock (locker_of f) ctx w)) \<subseteq> paused w"
    and wait: "lawful \<Longrightarrow> paused (wait_until f t w) \<subseteq> paused w"
begin

abbreviation endpoints :: "string set" where
  "endpoints \<equiv> fst ` set (clients f)"

lemma ranged_clients: "lawful \<Longrightarrow> set (ranged f w) = set (clients f)"
  by (rule set_ranged [OF iterates])

lemma health_step: "lawful \<Longrightarrow> set cs \<subseteq> set (clients f) \<Longrightarrow> paused (snd (health_check_each f ctx cs w)) \<subseteq> paused w"
proof (induction cs arbitrary: w)
  case (Cons c cs)
  obtain ep cl where c: "c = (ep, cl)" by fastforce
  obtain r w' where h: "HealthCheck cl (WithTimeout ctx (Now f w) (HealthCheckTimeout (opt f))) w = (r, w')" by fastforce
  have "paused w' \<subseteq> paused w" using health [of ep cl _ w] Cons.prems c h by (metis list.set_intros(1) snd_conv subsetD)
  moreover have "paused (snd (health_check_each f ctx cs w')) \<subseteq> paused w'" using Cons by simp
  ultimately show ?case by (cases r) (auto simp: c h)
qed simp

lemma HealthCheckClients_calm: "lawful \<Longrightarrow> paused (snd (HealthCheckClients f ctx w)) \<subseteq> paused w"
  by (simp add: HealthCheckClients_def health_step ranged_clients)

lemma lock_calm:
  "lawful \<Longrightarrow> paused (snd (AcquireLock f ctx w)) \<subseteq> paused w"
  "lawful \<Longrightarrow> paused (snd (ReleaseLock f ctx w)) \<subseteq> paused w"
  by (simp_all add: AcquireLock_def ReleaseLock_def lock unlock)

lemma each_pause:
  "lawful \<Longrightarrow> set cs \<subseteq> set (clients f) \<Longrightarrow>
     paused (snd (each_client (\<lambda>ep c w. err_of (client_Pause c ctx req w)) cs e w)) \<subseteq> paused w \<union> fst ` set cs"
proof (induction cs arbitrary: e w)
  case (Cons c cs)
  obtain ep cl where c: "c = (ep, cl)" by fastforce
  obtain r w' where h: "client_Pause cl ctx req w = (r, w')" by fastforce
  have "paused w' \<subseteq> insert ep (paused w)"
    using pause [of ep cl ctx req w] Cons.prems c h by (metis list.set_intros(1) snd_conv subsetD)
  moreover have "paused (snd (each_client (\<lambda>ep c w. err_of (client_Pause c ctx req w)) cs e' w')) \<subseteq> paused w' \<union> fst ` set cs" for e'
    using Cons by simp
  ultimately show ?case by (cases r) (force simp: c h err_of_def)+
qed simp

lemma each_resume:
  "lawful \<Longrightarrow> set cs \<subseteq> set (clients f) \<Longrightarrow>
     each_client (\<lambda>ep c w. err_of (client_Resume c ctx w)) cs e w = (r', w') \<Longrightarrow>
     paused w' \<subseteq> paused w \<and> (r' = None \<longrightarrow> paused w' \<inter> fst ` set cs = {})"
proof (induction cs arbitrary: e w)
  case (Cons c cs)
  obtain ep cl where c: "c = (ep, cl)" by fastforce
  obtain r w1 where h: "client_Resume cl ctx w = (r, w1)" by fastforce
  have in_f: "(ep, cl) \<in> set (clients f)" using Cons.prems(2) c by simp
  have w1: "paused w1 \<subseteq> paused w" using resume [OF Cons.prems(1) in_f, of ctx w] h by simp
  have cs: "set cs \<subseteq> set (clients f)" using Cons.prems(2) by simp
  show ?case
  proof (cases r)
    case (Inl err)
    then have e: "each_client (\<lambda>ep c w. err_of (client_Resume c ctx w)) cs (Some err) w1 = (r', w')"
      using Cons.prems(3) by (simp add: c h err_of_def)
    then have "r' \<noteq> None" using each_client_err by (metis fst_conv)
    with Cons.IH [OF Cons.prems(1) cs e] w1 show ?thesis by auto
  next
    case (Inr resp)
    then have e: "each_client (\<lambda>ep c w. err_of (client_Resume c ctx w)) cs e w1 = (r', w')"
      using Cons.prems(3) by (simp add: c h err_of_def)
    have "ep \<notin> paused w1" using resume_ok [OF Cons.prems(1) in_f] h Inr by simp
    with Cons.IH [OF Cons.prems(1) cs e] w1 show ?thesis by (auto simp: c)
  qed
qed simp

lemma Pause_only: "lawful \<Longrightarrow> paused (snd (Pause f ctx w)) \<subseteq> paused w \<union> endpoints"
  using each_pause [of "ranged f w"] ranged_clients [of w] by (simp add: Pause_each)

lemma Resume_frees:
  assumes lawful
  shows "paused (snd (Resume f ctx w)) \<subseteq> paused w"
    and "fst (Resume f ctx w) = Ok () \<Longrightarrow> paused (snd (Resume f ctx w)) \<inter> endpoints = {}"
proof -
  obtain r w' where e: "each_client (\<lambda>ep c v. err_of (client_Resume c (WithTimeout ctx (Now f w) (ResumeTimeout (opt f))) v))
      (ranged f w) None w = (r, w')" by (metis surj_pair)
  from each_resume [OF assms _ this] ranged_clients [OF assms, of w]
  have "paused w' \<subseteq> paused w \<and> (r = None \<longrightarrow> paused w' \<inter> endpoints = {})" by simp
  then show "paused (snd (Resume f ctx w)) \<subseteq> paused w"
    and "fst (Resume f ctx w) = Ok () \<Longrightarrow> paused (snd (Resume f ctx w)) \<inter> endpoints = {}"
    using Resume_each [of f ctx w] e by simp_all
qed

lemma getClient_in: "lawful \<Longrightarrow> getClient f w = (ep, Some c) \<Longrightarrow> (ep, c) \<in> set (clients f)"
  using ranged_clients [of w] by (auto simp: getClient_def split: list.splits)

lemma Migrate_calm: "lawful \<Longrightarrow> paused (snd (Migrate f ctx w)) \<subseteq> paused w"
proof -
  assume l: lawful
  obtain ep c where g: "getClient f w = (ep, c)" by fastforce
  show ?thesis
  proof (cases c)
    case (Some cl)
    obtain r w1 where m: "client_Migrate cl (WithTimeout ctx (Now f w) (PacemakerTimeout (opt f))) w = (r, w1)"
      by fastforce
    have "paused w1 \<subseteq> paused w"
      using migrate [OF l getClient_in [OF l g [unfolded Some]], of "WithTimeout ctx (Now f w) (PacemakerTimeout (opt f))" w] m
      by simp
    moreover have "snd (Migrate f ctx w) = w1 \<or> (\<exists>t. snd (Migrate f ctx w) = wait_until f t w1)"
      unfolding Migrate_def g Some prod.case option.case m by (cases r) (auto simp: Let_def split: option.splits)
    ultimately show ?thesis using wait [OF l, of _ w1] by (metis order_trans)
  qed (simp add: Migrate_def g)
qed

lemma Unmigrate_calm: "lawful \<Longrightarrow> paused (snd (Unmigrate f ctx w)) \<subseteq> paused w"
proof -
  assume l: lawful
  obtain ep c where g: "getClient f w = (ep, c)" by fastforce
  show ?thesis
  proof (cases c)
    case (Some cl)
    obtain r w1 where m: "client_Unmigrate cl (WithTimeout ctx (Now f w) (PacemakerTimeout (opt f))) w = (r, w1)"
      by fastforce
    with unmigrate [OF l getClient_in [OF l g [unfolded Some]], of "WithTimeout ctx (Now f w) (PacemakerTimeout (opt f))" w]
    show ?thesis by (cases r) (simp_all add: Unmigrate_def g Some)
  qed (simp add: Unmigrate_def g)
qed

text \<open>After a run that found no pooler paused, none is left paused unless the clean-up's resume failed.\<close>

lemma Run_frees:
  assumes lawful and "paused w = {}"
  shows "paused (snd (Run f ctx dctx w)) = {} \<or>
    (\<exists>w'. fst (Resume f dctx w') \<noteq> Ok () \<and>
       snd (Run f ctx dctx w) = snd (ReleaseLock f dctx (snd (Resume f dctx w'))))"
proof -
  note l = assms(1)
  obtain r1 w1 where h: "HealthCheckClients f ctx w = (r1, w1)" by fastforce
  then have w1: "paused w1 = {}" using HealthCheckClients_calm [OF l, of ctx w] assms(2) by simp
  show ?thesis
  proof (cases "r1 = Ok ()")
    case False
    then have "Run f ctx dctx w = (r1, w1)" using h by (cases r1) (simp_all add: Run_guarded guarded_def)
    with w1 show ?thesis by simp
  next
    case True
    then have h: "HealthCheckClients f ctx w = (Ok (), w1)" using h by simp
    obtain r2 w2 where a: "AcquireLock f ctx w1 = (r2, w2)" by fastforce
    then have w2: "paused w2 = {}" using lock_calm(1) [OF l, of ctx w1] w1 by simp
    obtain r3 w3 where p: "Pause f ctx w2 = (r3, w3)" by fastforce
    then have w3: "paused w3 \<subseteq> endpoints" using Pause_only [OF l, of ctx w2] w2 by simp
    have undo: "paused (snd (ReleaseLock f dctx (snd (Resume f dctx w')))) = {} \<or> fst (Resume f dctx w') \<noteq> Ok ()"
      if "paused w' \<subseteq> endpoints" for w'
      using Resume_frees [OF l, where ctx = dctx and w = w'] lock_calm(2) [OF l, of dctx] that by blast
    obtain r4 w4 where m: "cleanup [Unmigrate f] dctx (Migrate f ctx w3) = (r4, w4)" by fastforce
    have w4: "paused w4 \<subseteq> endpoints"
    proof -
      obtain r w' where mw: "Migrate f ctx w3 = (r, w')" by fastforce
      then have "w4 = snd (Unmigrate f dctx w')"
        using m cleanup_one [where d = "Unmigrate f" and dctx = dctx and w = w' and r = r]
        by (metis prod.collapse snd_conv)
      with Unmigrate_calm [OF l, of dctx w'] Migrate_calm [OF l, of ctx w3] mw w3 show ?thesis by auto
    qed
    have "snd (Run f ctx dctx w) = snd (ReleaseLock f dctx w2) \<or>
        (\<exists>w' \<in> {w3, w4}. snd (Run f ctx dctx w) = snd (ReleaseLock f dctx (snd (Resume f dctx w'))))"
      unfolding Run_healthy [OF h] a p prod.case m by (cases r2; cases r3) auto
    then show ?thesis
      using undo [OF w3] undo [OF w4] lock_calm(2) [OF l, of dctx w2] w2 by auto
  qed
qed

end

section \<open>A failover for the witnesses\<close>

text \<open>Two healthy nodes that count the calls, and a lock that is taken: \<open>Unlock\<close> counts a hundred.\<close>

definition counting_client :: "nat FailoverClient" where
  "counting_client =
     \<lparr>HealthCheck = (\<lambda>ctx n. (Inr \<lparr>status = HEALTHY\<rparr>, n + 1)),
      client_Pause = (\<lambda>ctx req n. (Inr \<lparr>PauseCreatedAt = None, PauseExpiresAt = None\<rparr>, n + 1)),
      client_Resume = (\<lambda>ctx n. (Inr \<lparr>ResumeCreatedAt = None\<rparr>, n + 1)),
      client_Migrate = (\<lambda>ctx n. (Inr \<lparr>MigratingTo = ''pg02'', Address = ''10.0.0.2'', MigrateCreatedAt = None\<rparr>, n + 1)),
      client_Unmigrate = (\<lambda>ctx n. (Inr \<lparr>UnmigrateCreatedAt = None\<rparr>, n + 1))\<rparr>"

definition default_options :: FailoverOptions where
  "default_options =
     \<lparr>EtcdHostKey = ''/master'', HealthCheckTimeout = 2 * Second, LockTimeout = 5 * Second, PauseTimeout = 5 * Second,
      PauseExpiry = 25 * Second, ResumeTimeout = 5 * Second, PacemakerTimeout = 20 * Second\<rparr>"

definition counting_failover :: "(time \<times> KeyValue) list \<Rightarrow> nat Failover" where
  "counting_failover events =
     \<lparr>clients = [(''pg01'', counting_client), (''pg02'', counting_client)],
      locker_of = \<lparr>Lock = (\<lambda>ctx n. (Some (Plain ''locked''), n)), Unlock = (\<lambda>ctx n. (None, n + 100))\<rparr>,
      opt = default_options, Now = (\<lambda>n. 0), iteration = (\<lambda>n cs. cs), host_events = (\<lambda>ctx n. events),
      wait_until = (\<lambda>t n. n), select_notify = (\<lambda>n. True)\<rparr>"

lemma counting_ranged [simp]:
  "ranged (counting_failover events) n = [(''pg01'', counting_client), (''pg02'', counting_client)]"
  by (simp add: ranged_def counting_failover_def)

lemma counting_iterates: "iterates (counting_failover events)"
  by (simp add: iterates_def counting_failover_def)

lemma counting_healthy: "HealthCheckClients (counting_failover events) ctx n = (Ok (), n + 2)"
  by (simp add: HealthCheckClients_def counting_client_def GetStatus_def)

theorem EachClient_calls_all_witness:
  "\<exists>cs. mset cs = mset (clients (counting_failover [])) \<and>
     snd (EachClient (counting_failover []) (\<lambda>ep c n. (Some (Plain ep), n + 1)) 0) = foldl (\<lambda>n (ep, c). n + 1) 0 cs"
  using EachClient_calls_all [OF counting_iterates, of "[]" "\<lambda>ep c n. (Some (Plain ep), n + 1)" 0] by auto

theorem Run_needs_health_witness:
  "is_ok (fst (HealthCheckClients (counting_failover []) Background 0)) \<and>
   answers_healthy (counting_failover []) Background counting_client 0"
proof -
  have "is_ok (fst (HealthCheckClients (counting_failover []) Background 0))" by (simp add: counting_healthy)
  moreover from this have "\<forall>k < length (ranged (counting_failover []) 0). answers_healthy (counting_failover []) Background
      (snd (ranged (counting_failover []) 0 ! k)) (health_world (counting_failover []) Background (take k (ranged (counting_failover []) 0)) 0)"
    using Run_needs_health [of "counting_failover []" Background 0 Background] by blast
  from spec [OF this, of 0] have "answers_healthy (counting_failover []) Background counting_client 0"
    by (simp add: health_world_def)
  ultimately show ?thesis by blast
qed

theorem pause_request_seconds_witness:
  "sint (Timeout (pause_request default_options)) = 5 \<and> sint (Expiry (pause_request default_options)) = 25"
  using pause_request_seconds [of default_options] by (simp add: default_options_def Second_def)

theorem Run_cleans_up_witness:
  "Run (counting_failover []) Background Background 0 = (Err (Plain ''locked''), 102)"
  using Run_cleans_up [OF counting_healthy [of "[]" Background 0], of Background]
  by (simp add: AcquireLock_def ReleaseLock_def counting_failover_def)


end
