(* ===== verification/Kv.thy ===== *)
theory Kv
  imports Streams "HOL-Library.List_Lexorder" "HOL-Library.Char_ord"
begin

text \<open>
  The requests that the program sends to etcd through the vendored client library
  (\<open>vendor/github.com/coreos/etcd/clientv3\<close>: \<open>op.go\<close>, \<open>compare.go\<close>, \<open>sort.go\<close>): operations and their options,
  ranges of keys as pairs of byte strings, comparisons and transactions.

  The etcd service is a parameter of the model. What is relied on is its documented behaviour: requests
  are atomic, they act on a store of keys with a revision (\<open>txn_effect\<close>), and a request that fails may have
  had its effect or not (\<open>commits\<close>). Strings are compared by bytes. Options that the program never sets
  (serializable, keys only, count only, previous values, nested transactions) are left out.
\<close>

section \<open>Operations and their options\<close>

datatype SortTarget = SortByKey | SortByVersion | SortByCreateRevision | SortByModRevision | SortByValue
datatype SortOrder = SortNone | SortAscend | SortDescend

record SortOption =
  Target :: SortTarget
  Order :: SortOrder

datatype opType = tRange | tPut | tDeleteRange

record Op =
  op_type :: opType
  op_key :: string
  op_end :: string            \<comment> \<open>empty: the single key\<close>
  op_limit :: int
  op_sort :: "SortOption option"
  minModRev :: int
  maxModRev :: int
  minCreateRev :: int
  maxCreateRev :: int
  op_val :: string
  leaseID :: int

type_synonym OpOption = "Op \<Rightarrow> Op"

definition zero_op :: "opType \<Rightarrow> string \<Rightarrow> Op" where
  "zero_op t key = \<lparr>op_type = t, op_key = key, op_end = [], op_limit = 0, op_sort = None, minModRev = 0, maxModRev = 0,
     minCreateRev = 0, maxCreateRev = 0, op_val = [], leaseID = 0\<rparr>"

definition applyOpts :: "OpOption list \<Rightarrow> Op \<Rightarrow> Op" where
  "applyOpts opts op = fold (\<lambda>opt. opt) opts op"

definition OpGet :: "string \<Rightarrow> OpOption list \<Rightarrow> Op" where
  "OpGet key opts = applyOpts opts (zero_op tRange key)"

text \<open>
  \<open>OpPut\<close> and \<open>OpDelete\<close> panic on options that make no sense for them: \<open>put_check\<close> and \<open>delete_check\<close> are these
  guards, which every operation of the program passes.
\<close>

definition OpPut :: "string \<Rightarrow> string \<Rightarrow> OpOption list \<Rightarrow> Op" where
  "OpPut key val opts = applyOpts opts ((zero_op tPut key)\<lparr>op_val := val\<rparr>)"

definition put_check :: "Op \<Rightarrow> panic option" where
  "put_check ret =
     (if op_end ret \<noteq> [] then Some (Explicit ''unexpected range in put'')
      else if op_limit ret \<noteq> 0 then Some (Explicit ''unexpected limit in put'')
      else if op_sort ret \<noteq> None then Some (Explicit ''unexpected sort in put'')
      else if minModRev ret \<noteq> 0 \<or> maxModRev ret \<noteq> 0 then Some (Explicit ''unexpected mod revision filter in put'')
      else if minCreateRev ret \<noteq> 0 \<or> maxCreateRev ret \<noteq> 0 then Some (Explicit ''unexpected create revision filter in put'')
      else None)"

definition OpDelete :: "string \<Rightarrow> OpOption list \<Rightarrow> Op" where
  "OpDelete key opts = applyOpts opts (zero_op tDeleteRange key)"

definition delete_check :: "Op \<Rightarrow> panic option" where
  "delete_check ret =
     (if leaseID ret \<noteq> 0 then Some (Explicit ''unexpected lease in delete'')
      else if op_limit ret \<noteq> 0 then Some (Explicit ''unexpected limit in delete'')
      else if op_sort ret \<noteq> None then Some (Explicit ''unexpected sort in delete'')
      else if minModRev ret \<noteq> 0 \<or> maxModRev ret \<noteq> 0 then Some (Explicit ''unexpected mod revision filter in delete'')
      else if minCreateRev ret \<noteq> 0 \<or> maxCreateRev ret \<noteq> 0 then Some (Explicit ''unexpected create revision filter in delete'')
      else None)"

definition WithLease :: "int \<Rightarrow> OpOption" where
  "WithLease leaseid op = op\<lparr>leaseID := leaseid\<rparr>"

definition WithLimit :: "int \<Rightarrow> OpOption" where
  "WithLimit n op = op\<lparr>op_limit := n\<rparr>"

definition WithSort :: "SortTarget \<Rightarrow> SortOrder \<Rightarrow> OpOption" where
  "WithSort target order op =
     op\<lparr>op_sort := Some \<lparr>Target = target,
       Order = (if target = SortByKey \<and> order = SortAscend then SortNone else order)\<rparr>\<rparr>"

definition WithRange :: "string \<Rightarrow> OpOption" where
  "WithRange endKey op = op\<lparr>op_end := endKey\<rparr>"

definition WithMaxCreateRev :: "int \<Rightarrow> OpOption" where
  "WithMaxCreateRev r op = op\<lparr>maxCreateRev := r\<rparr>"

text \<open>
  The loop of \<open>getPrefix\<close> runs from the last byte to the first one: bytes that are 0xff are cut off, the
  first other one is incremented. It is written over the reversed key. The key space ends at \<open>noPrefixEnd\<close>.
\<close>

definition noPrefixEnd :: string where
  "noPrefixEnd = [CHR 0x00]"

definition byte_succ :: "char \<Rightarrow> char" where
  "byte_succ c = char_of ((of_char c + 1) mod 256 :: nat)"

fun prefix_end :: "string \<Rightarrow> string option" where
  "prefix_end [] = None"
| "prefix_end (c # cs) = (if c < CHR 0xFF then Some (byte_succ c # cs) else prefix_end cs)"

definition getPrefix :: "string \<Rightarrow> string" where
  "getPrefix key = (case prefix_end (rev key) of Some e \<Rightarrow> rev e | None \<Rightarrow> noPrefixEnd)"

definition WithPrefix :: OpOption where
  "WithPrefix op =
     (if op_key op = [] then op\<lparr>op_key := [CHR 0x00], op_end := [CHR 0x00]\<rparr>
      else op\<lparr>op_end := getPrefix (op_key op)\<rparr>)"

definition withTop :: "SortTarget \<Rightarrow> SortOrder \<Rightarrow> OpOption list" where
  "withTop target order = [WithPrefix, WithSort target order, WithLimit 1]"

definition WithFirstCreate :: "OpOption list" where
  "WithFirstCreate = withTop SortByCreateRevision SortAscend"

definition WithLastCreate :: "OpOption list" where
  "WithLastCreate = withTop SortByCreateRevision SortDescend"

lemmas op_defs = applyOpts_def zero_op_def WithLease_def WithLimit_def WithSort_def WithMaxCreateRev_def
  WithRange_def withTop_def WithFirstCreate_def WithLastCreate_def WithPrefix_def

lemma put_check_ok: "put_check (OpPut key v []) = None" "put_check (OpPut key v [WithLease l]) = None"
  by (simp_all add: put_check_def OpPut_def op_defs)

lemma delete_check_ok: "delete_check (OpDelete key []) = None"
  by (simp add: delete_check_def OpDelete_def op_defs)

section \<open>Ranges of keys\<close>

text \<open>The documented meaning of a key and a range end.\<close>

definition in_range :: "string \<Rightarrow> string \<Rightarrow> string \<Rightarrow> bool" where
  "in_range key end_key k \<longleftrightarrow>
     (if end_key = [] then k = key
      else if end_key = noPrefixEnd then key \<le> k
      else key \<le> k \<and> k < end_key)"

lemma append_less_append [simp]: "a @ xs < a @ ys \<longleftrightarrow> xs < (ys :: string)"
  by (induction a) auto

lemma append_le_append [simp]: "a @ xs \<le> a @ ys \<longleftrightarrow> xs \<le> (ys :: string)"
  by (induction a) auto

lemma prefix_le: "prefix p k \<Longrightarrow> p \<le> (k :: string)"
  using append_le_append [of p "[]"] by (auto simp: prefix_def)

text \<open>Between two keys with a common prefix, every key has it.\<close>

lemma between_prefix: "p @ a \<le> k \<Longrightarrow> k < p @ b \<Longrightarrow> prefix p (k :: string)"
proof (induction p arbitrary: k)
  case Nil
  then show ?case by simp
next
  case (Cons c p)
  then show ?case by (cases k) auto
qed

lemma of_char_less: "(c :: char) < d \<longleftrightarrow> (of_char c :: nat) < of_char d"
  by (simp add: less_char_def)

lemma of_char_byte_succ: "c < CHR 0xFF \<Longrightarrow> (of_char (byte_succ c) :: nat) = of_char c + 1"
  by (simp add: byte_succ_def of_char_less)

lemma less_byte_succ: "c < CHR 0xFF \<Longrightarrow> d < byte_succ c \<longleftrightarrow> d \<le> c"
  by (simp only: of_char_less of_char_byte_succ less_eq_char_def) linarith

lemma le_last_byte: "c \<le> CHR 0xFF"
  unfolding less_eq_char_def using nat_of_char_less_256 [of c] by (simp del: nat_of_char_less_256)

lemma replicate_le: "replicate n (CHR 0xFF) \<le> (k :: string) \<longleftrightarrow> prefix (replicate n (CHR 0xFF)) k"
proof (induction n arbitrary: k)
  case 0
  then show ?case by simp
next
  case (Suc n)
  show ?case
  proof (cases k)
    case Nil
    then show ?thesis by simp
  next
    case (Cons d k')
    have "\<not> CHR 0xFF < d" using le_last_byte [of d] by simp
    with Cons Suc.IH [of k'] show ?thesis by auto
  qed
qed

text \<open>What the loop finds: the key is some bytes, one byte below 0xff and any number of 0xff.\<close>

lemma prefix_end_cases:
  "case prefix_end (rev p) of
     None \<Rightarrow> p = replicate (length p) (CHR 0xFF)
   | Some e \<Rightarrow> \<exists>a c n. p = a @ c # replicate n (CHR 0xFF) \<and> c < CHR 0xFF \<and> rev e = a @ [byte_succ c]"
proof (induction p rule: rev_induct)
  case Nil
  then show ?case by simp
next
  case (snoc c p)
  show ?case
  proof (cases "c < CHR 0xFF")
    case True
    have "p @ [c] = p @ c # replicate 0 (CHR 0xFF)" by simp
    with True show ?thesis by force
  next
    case False
    then have c: "c = CHR 0xFF" using le_last_byte [of c] by simp
    show ?thesis
    proof (cases "prefix_end (rev p)")
      case None
      with snoc have "p = replicate (length p) (CHR 0xFF)" by simp
      then have "p @ [c] = replicate (length (p @ [c])) (CHR 0xFF)"
        using replicate_append_same [of "length p" "CHR 0xFF"] c by simp
      moreover have "prefix_end (rev (p @ [c])) = None" using None c by simp
      ultimately show ?thesis by (simp only: option.case)
    next
      case (Some e)
      with snoc obtain a d n where "p = a @ d # replicate n (CHR 0xFF)" "d < CHR 0xFF" "rev e = a @ [byte_succ d]" by auto
      with Some c show ?thesis
        by (auto intro!: exI [of _ a] exI [of _ d] exI [of _ "Suc n"] simp: replicate_append_same)
    qed
  qed
qed

text \<open>The range from a prefix to the end that \<open>getPrefix\<close> computes holds the keys with this prefix.\<close>

lemma getPrefix_range: "p \<noteq> [] \<Longrightarrow> in_range p (getPrefix p) k \<longleftrightarrow> prefix p k"
proof (cases "prefix_end (rev p)")
  case None
  with prefix_end_cases [of p] have "p = replicate (length p) (CHR 0xFF)" by simp
  with None show ?thesis
    using replicate_le [of "length p" k] by (simp add: in_range_def getPrefix_def noPrefixEnd_def)
next
  case (Some e)
  then obtain a c n where p: "p = a @ c # replicate n (CHR 0xFF)" "c < CHR 0xFF" "rev e = a @ [byte_succ c]"
    using prefix_end_cases [of p] by auto
  have "byte_succ c \<noteq> CHR 0x00"
    using of_char_byte_succ [OF p(2)] by (auto dest: arg_cong [where f = "of_char :: char \<Rightarrow> nat"])
  then have "rev e \<noteq> noPrefixEnd" using p(3) by (cases a) (auto simp: noPrefixEnd_def)
  moreover have "p \<le> k \<and> k < rev e \<longleftrightarrow> prefix p k"
  proof
    assume k: "p \<le> k \<and> k < rev e"
    then have "prefix a k" unfolding p by (blast intro: between_prefix)
    then obtain k' where k': "k = a @ k'" by (auto simp: prefix_def)
    with k p have "c # replicate n (CHR 0xFF) \<le> k'" "k' < [byte_succ c]" by auto
    then obtain r where "k' = c # r" "replicate n (CHR 0xFF) \<le> r"
      using p(2) by (cases k') (auto simp: less_byte_succ)
    with k' p show "prefix p k" by (simp add: replicate_le)
  next
    assume "prefix p k"
    then show "p \<le> k \<and> k < rev e"
      using p less_byte_succ [OF p(2), of c] prefix_le by (auto simp: prefix_def)
  qed
  ultimately show ?thesis using Some p by (simp add: in_range_def getPrefix_def)
qed

section \<open>The store behind the service\<close>

text \<open>
  Keys in no particular order, and the revision of the last change. The keys of a range come in the order of
  the sort option, and by key without one.
\<close>

record store =
  revision :: int
  kvs :: "KeyValue list"

definition lookup_key :: "KeyValue list \<Rightarrow> string \<Rightarrow> KeyValue option" where
  "lookup_key xs key = List.find (\<lambda>kv. Key kv = key) xs"

definition passes_filters :: "Op \<Rightarrow> KeyValue \<Rightarrow> bool" where
  "passes_filters op kv \<longleftrightarrow>
     (minModRev op = 0 \<or> minModRev op \<le> ModRevision kv) \<and> (maxModRev op = 0 \<or> ModRevision kv \<le> maxModRev op) \<and>
     (minCreateRev op = 0 \<or> minCreateRev op \<le> CreateRevision kv) \<and>
     (maxCreateRev op = 0 \<or> CreateRevision kv \<le> maxCreateRev op)"

fun sort_by :: "SortTarget \<Rightarrow> KeyValue list \<Rightarrow> KeyValue list" where
  "sort_by SortByKey xs = xs"
| "sort_by SortByVersion xs = sort_key Version xs"
| "sort_by SortByCreateRevision xs = sort_key CreateRevision xs"
| "sort_by SortByModRevision xs = sort_key ModRevision xs"
| "sort_by SortByValue xs = sort_key Value xs"

definition sorted_range :: "SortOption option \<Rightarrow> KeyValue list \<Rightarrow> KeyValue list" where
  "sorted_range so xs =
     (case so of
        None \<Rightarrow> sort_key Key xs
      | Some opt \<Rightarrow>
          (case Order opt of
             SortNone \<Rightarrow> sort_key Key xs
           | SortAscend \<Rightarrow> sort_by (Target opt) (sort_key Key xs)
           | SortDescend \<Rightarrow> rev (sort_by (Target opt) (sort_key Key xs))))"

definition range_kvs :: "Op \<Rightarrow> KeyValue list \<Rightarrow> KeyValue list" where
  "range_kvs op xs =
     (let found = sorted_range (op_sort op)
        (filter (\<lambda>kv. in_range (op_key op) (op_end op) (Key kv) \<and> passes_filters op kv) xs) in
      if op_limit op = 0 then found else take (nat (op_limit op)) found)"

definition put_kv :: "int \<Rightarrow> Op \<Rightarrow> KeyValue list \<Rightarrow> KeyValue list" where
  "put_kv r op xs =
     (case lookup_key xs (op_key op) of
        None \<Rightarrow> xs @ [\<lparr>Key = op_key op, CreateRevision = r, ModRevision = r, Version = 1, Value = op_val op, Lease = leaseID op\<rparr>]
      | Some kv0 \<Rightarrow> map (\<lambda>kv. if Key kv = op_key op
           then kv\<lparr>ModRevision := r, Version := Version kv + 1, Value := op_val op, Lease := leaseID op\<rparr> else kv) xs)"

datatype response = ResponseRange "KeyValue list" | ResponsePut | ResponseDeleteRange nat

fun wrote :: "response \<Rightarrow> bool" where
  "wrote (ResponseRange xs) = False"
| "wrote ResponsePut = True"
| "wrote (ResponseDeleteRange n) = (0 < n)"

definition op_effect :: "int \<Rightarrow> Op \<Rightarrow> KeyValue list \<Rightarrow> response \<times> KeyValue list" where
  "op_effect r op xs =
     (case op_type op of
        tRange \<Rightarrow> (ResponseRange (range_kvs op xs), xs)
      | tPut \<Rightarrow> (ResponsePut, put_kv r op xs)
      | tDeleteRange \<Rightarrow>
          (ResponseDeleteRange (length (filter (\<lambda>kv. in_range (op_key op) (op_end op) (Key kv)) xs)),
           filter (\<lambda>kv. \<not> in_range (op_key op) (op_end op) (Key kv)) xs))"

fun ops_effect :: "int \<Rightarrow> Op list \<Rightarrow> KeyValue list \<Rightarrow> response list \<times> KeyValue list" where
  "ops_effect r [] xs = ([], xs)"
| "ops_effect r (op # ops) xs =
     (case op_effect r op xs of (resp, ys) \<Rightarrow>
      case ops_effect r ops ys of (resps, zs) \<Rightarrow> (resp # resps, zs))"

text \<open>
  A comparison, with the only result the program asks for, equality: a missing key has create revision
  zero, and the comparison of its value fails.
\<close>

datatype Cmp = CmpValue string string | CmpCreateRevision string int

fun holds :: "KeyValue list \<Rightarrow> Cmp \<Rightarrow> bool" where
  "holds xs (CmpValue key v) = (case lookup_key xs key of None \<Rightarrow> False | Some kv \<Rightarrow> Value kv = v)"
| "holds xs (CmpCreateRevision key r) = (case lookup_key xs key of None \<Rightarrow> r = 0 | Some kv \<Rightarrow> CreateRevision kv = r)"

record txn =
  IfAll :: "Cmp list"
  ThenDo :: "Op list"
  ElseDo :: "Op list"

record TxnResponse =
  HeaderRevision :: int
  Succeeded :: bool
  Responses :: "response list"

text \<open>The writes of one transaction share one new revision; a transaction that changes nothing has none.\<close>

definition txn_effect :: "txn \<Rightarrow> store \<Rightarrow> TxnResponse \<times> store" where
  "txn_effect t s =
     (let ok = list_all (holds (kvs s)) (IfAll t) in
      case ops_effect (revision s + 1) (if ok then ThenDo t else ElseDo t) (kvs s) of (resps, xs) \<Rightarrow>
        (let r = (if list_ex wrote resps then revision s + 1 else revision s) in
         (\<lparr>HeaderRevision = r, Succeeded = ok, Responses = resps\<rparr>, \<lparr>revision = r, kvs = xs\<rparr>)))"

type_synonym 'w committer = "ctx \<Rightarrow> txn \<Rightarrow> 'w \<Rightarrow> (goerr + TxnResponse) \<times> 'w"

text \<open>A request that succeeds has had its effect; one that fails may have had it or not.\<close>

definition commits :: "'w committer \<Rightarrow> ('w \<Rightarrow> store) \<Rightarrow> bool" where
  "commits commit st \<longleftrightarrow> (\<forall>ctx t w.
     (case commit ctx t w of
        (Inr resp, w') \<Rightarrow> (resp, st w') = txn_effect t (st w)
      | (Inl err, w') \<Rightarrow> st w' = st w \<or> st w' = snd (txn_effect t (st w))))"

lemma commitsD:
  "commits commit st \<Longrightarrow> commit ctx t w = (Inr resp, w') \<Longrightarrow> (resp, st w') = txn_effect t (st w)"
  "commits commit st \<Longrightarrow> commit ctx t w = (Inl err, w') \<Longrightarrow> st w' = st w \<or> st w' = snd (txn_effect t (st w))"
  unfolding commits_def by (drule spec [of _ ctx], drule spec [of _ t], drule spec [of _ w], simp)+

text \<open>
  The part of the \<open>KV\<close> interface that is used: single requests, whose response has the revision of the
  store and acts as the transaction of this request, and the commit of a transaction.
\<close>

record 'w KV =
  Do :: "ctx \<Rightarrow> Op \<Rightarrow> 'w \<Rightarrow> (goerr + int \<times> response) \<times> 'w"
  Commit :: "'w committer"

definition one_op :: "Op \<Rightarrow> txn" where
  "one_op op = \<lparr>IfAll = [], ThenDo = [op], ElseDo = []\<rparr>"

definition does :: "(ctx \<Rightarrow> Op \<Rightarrow> 'w \<Rightarrow> (goerr + int \<times> response) \<times> 'w) \<Rightarrow> ('w \<Rightarrow> store) \<Rightarrow> bool" where
  "does f st \<longleftrightarrow> (\<forall>ctx op w.
     (case f ctx op w of
        (Inr (h, resp), w') \<Rightarrow>
          (\<lparr>HeaderRevision = h, Succeeded = True, Responses = [resp]\<rparr>, st w') = txn_effect (one_op op) (st w)
      | (Inl err, w') \<Rightarrow> st w' = st w \<or> st w' = snd (txn_effect (one_op op) (st w))))"

definition kv_serves :: "'w KV \<Rightarrow> ('w \<Rightarrow> store) \<Rightarrow> bool" where
  "kv_serves kv st \<longleftrightarrow> commits (Commit kv) st \<and> does (Do kv) st"

lemma doesD:
  "does f st \<Longrightarrow> f ctx op w = (Inr (h, resp), w') \<Longrightarrow>
     (\<lparr>HeaderRevision = h, Succeeded = True, Responses = [resp]\<rparr>, st w') = txn_effect (one_op op) (st w)"
  "does f st \<Longrightarrow> f ctx op w = (Inl err, w') \<Longrightarrow> st w' = st w \<or> st w' = snd (txn_effect (one_op op) (st w))"
  unfolding does_def by (drule spec [of _ ctx], drule spec [of _ op], drule spec [of _ w], simp)+

text \<open>A store that commits every transaction.\<close>

definition memory_commit :: "ctx \<Rightarrow> txn \<Rightarrow> store \<Rightarrow> (goerr + TxnResponse) \<times> store" where
  "memory_commit ctx t s = (case txn_effect t s of (resp, s') \<Rightarrow> (Inr resp, s'))"

definition memory_kv :: "store KV" where
  "memory_kv =
     \<lparr>Do = (\<lambda>ctx op s. case txn_effect (one_op op) s of (resp, s') \<Rightarrow> (Inr (HeaderRevision resp, hd (Responses resp)), s')),
      Commit = memory_commit\<rparr>"

lemma memory_commits: "commits memory_commit (\<lambda>s. s)"
  by (simp add: commits_def memory_commit_def split: prod.splits)

lemma txn_effect_one_op: "\<exists>h resp s'. txn_effect (one_op op) s = (\<lparr>HeaderRevision = h, Succeeded = True, Responses = [resp]\<rparr>, s')"
  by (simp add: txn_effect_def one_op_def Let_def split: prod.splits)

lemma memory_serves: "kv_serves memory_kv (\<lambda>s. s)"
proof -
  have "does (Do memory_kv) (\<lambda>s. s)"
    unfolding does_def
  proof (intro allI)
    fix c op s
    obtain h resp s' where "txn_effect (one_op op) s = (\<lparr>HeaderRevision = h, Succeeded = True, Responses = [resp]\<rparr>, s')"
      using txn_effect_one_op by blast
    then show "case Do memory_kv c op s of
        (Inl err, s') \<Rightarrow> s' = s \<or> s' = snd (txn_effect (one_op op) s)
      | (Inr (h, resp), s') \<Rightarrow> (\<lparr>HeaderRevision = h, Succeeded = True, Responses = [resp]\<rparr>, s') = txn_effect (one_op op) s"
      by (simp add: memory_kv_def)
  qed
  then show ?thesis by (simp add: kv_serves_def memory_commits memory_kv_def)
qed

lemma lookup_put:
  "lookup_key (put_kv r op xs) k =
     (if k = op_key op
      then Some (case lookup_key xs k of
          None \<Rightarrow> \<lparr>Key = k, CreateRevision = r, ModRevision = r, Version = 1, Value = op_val op, Lease = leaseID op\<rparr>
        | Some kv \<Rightarrow> kv\<lparr>ModRevision := r, Version := Version kv + 1, Value := op_val op, Lease := leaseID op\<rparr>)
      else lookup_key xs k)"
proof (cases "lookup_key xs (op_key op)")
  case None
  then have "\<forall>kv \<in> set xs. Key kv \<noteq> op_key op" by (simp add: lookup_key_def find_None_iff)
  with None show ?thesis by (induction xs) (auto simp: lookup_key_def put_kv_def)
next
  case (Some kv0)
  define f where "f kv = (if Key kv = op_key op
    then kv\<lparr>ModRevision := r, Version := Version kv + 1, Value := op_val op, Lease := leaseID op\<rparr> else kv)" for kv :: KeyValue
  have key: "Key (f kv) = Key kv" for kv by (simp add: f_def)
  have "lookup_key (map f xs) k = map_option f (lookup_key xs k)"
    by (induction xs) (simp_all add: lookup_key_def key)
  moreover have "Key kv = k" if "lookup_key xs k = Some kv" for kv
    using that by (auto simp: lookup_key_def find_Some_iff)
  moreover have "put_kv r op xs = map f xs" using Some by (simp add: put_kv_def f_def [abs_def])
  ultimately show ?thesis using Some by (cases "lookup_key xs k") (auto simp: f_def)
qed

section \<open>The contract of the client\<close>

text \<open>
  What the program relies on, as a locale: it is provided by the client of the service and by the client of a
  namespace. The premise \<open>lawful\<close> is the provider's condition.
\<close>

locale kv_service =
  fixes kv :: "'w KV" and st :: "'w \<Rightarrow> store" and lawful :: bool
  assumes commit_ok: "lawful \<Longrightarrow> Commit kv ctx t w = (Inr answer, w') \<Longrightarrow> (answer, st w') = txn_effect t (st w)"
    and commit_err: "lawful \<Longrightarrow> Commit kv ctx t w = (Inl err, w') \<Longrightarrow> st w' = st w \<or> st w' = snd (txn_effect t (st w))"
    and do_ok: "lawful \<Longrightarrow> Do kv ctx op w = (Inr (h, resp), w') \<Longrightarrow>
      (\<lparr>HeaderRevision = h, Succeeded = True, Responses = [resp]\<rparr>, st w') = txn_effect (one_op op) (st w)"
    and do_err: "lawful \<Longrightarrow> Do kv ctx op w = (Inl err, w') \<Longrightarrow> st w' = st w \<or> st w' = snd (txn_effect (one_op op) (st w))"
begin

lemma all_served: "lawful \<Longrightarrow> kv_serves kv st"
  unfolding kv_serves_def commits_def does_def
  by (simp split: prod.splits sum.splits) (blast dest: commit_ok commit_err do_ok do_err)

lemma commit_any: "lawful \<Longrightarrow> Commit kv ctx t w = (r, w') \<Longrightarrow> st w' = st w \<or> st w' = snd (txn_effect t (st w))"
  using commit_ok [of ctx t w _ w'] commit_err [of ctx t w _ w'] by (cases r) (metis snd_conv)+

lemma do_any: "lawful \<Longrightarrow> Do kv ctx op w = (r, w') \<Longrightarrow> st w' = st w \<or> st w' = snd (txn_effect (one_op op) (st w))"
  using do_ok [of ctx op w _ _ w'] do_err [of ctx op w _ w'] by (cases r) (metis snd_conv surj_pair)+

text \<open>A range request changes nothing, and a deletion of one key removes this key and no other.\<close>

lemma get_result:
  assumes "lawful" and "op_type op = tRange" and "Do kv ctx op w = (r, w')"
  shows "st w' = st w \<and> (\<forall>h resp. r = Inr (h, resp) \<longrightarrow> h = revision (st w) \<and> resp = ResponseRange (range_kvs op (kvs (st w))))"
proof (cases r)
  case (Inl err)
  with do_err [of ctx op w err w'] assms show ?thesis
    by (auto simp: txn_effect_def one_op_def op_effect_def Let_def)
next
  case (Inr x)
  with do_ok [of ctx op w "fst x" "snd x" w'] assms show ?thesis
    by (cases x) (simp add: txn_effect_def one_op_def op_effect_def Let_def)
qed

lemma delete_result:
  assumes "lawful" and "Do kv ctx (OpDelete key []) w = (r, w')"
  shows "st w' = st w \<or> revision (st w) \<le> revision (st w') \<and> kvs (st w') = filter (\<lambda>kv. Key kv \<noteq> key) (kvs (st w))"
    and "r = Inr x \<Longrightarrow> kvs (st w') = filter (\<lambda>kv. Key kv \<noteq> key) (kvs (st w))"
proof -
  have op: "op_type (OpDelete key []) = tDeleteRange" "op_key (OpDelete key []) = key" "op_end (OpDelete key []) = []"
    by (simp_all add: OpDelete_def op_defs)
  have effect: "revision (st w) \<le> revision (snd (txn_effect (one_op (OpDelete key [])) (st w))) \<and>
      kvs (snd (txn_effect (one_op (OpDelete key [])) (st w))) = filter (\<lambda>kv. Key kv \<noteq> key) (kvs (st w))"
    by (simp add: txn_effect_def one_op_def op_effect_def op in_range_def Let_def)
  show "st w' = st w \<or> revision (st w) \<le> revision (st w') \<and> kvs (st w') = filter (\<lambda>kv. Key kv \<noteq> key) (kvs (st w))"
  proof (cases r)
    case (Inl err)
    with do_err [OF assms(1)] assms(2) effect show ?thesis by metis
  next
    case (Inr x)
    with do_ok [OF assms(1), of ctx "OpDelete key []" w "fst x" "snd x" w'] assms(2) effect show ?thesis by (metis prod.collapse snd_conv)
  qed
  show "r = Inr x \<Longrightarrow> kvs (st w') = filter (\<lambda>kv. Key kv \<noteq> key) (kvs (st w))"
    using do_ok [OF assms(1), of ctx "OpDelete key []" w "fst x" "snd x" w'] assms(2) effect by (metis prod.collapse snd_conv)
qed

end

interpretation served: kv_service kv st "kv_serves kv st" for kv :: "'w KV" and st
  by unfold_locales (auto simp: kv_serves_def dest: commitsD doesD)

end
