(* ===== verification/Etcd.thy ===== *)
theory Etcd
  imports Interfaces Kv
begin

text \<open>
  \<open>pkg/etcd\<close>: the event stream (\<open>stream.go\<close>), in which one goroutine forwards watch events and another
  polls the keys, and the conditional update of a key (\<open>updater.go\<close>).

  Parameters of the model: the \<open>Get\<close> call of the client, the responses on the watch channel (any response
  may arrive at any moment, and the channel may be closed at any moment) and the commit of a
  transaction. The stream is a step relation that interleaves the two goroutines and the closer.
\<close>

section \<open>The stream\<close>

record StreamOptions =
  StreamCtx :: ctx
  Keys :: "string list"
  StreamPollInterval :: duration
  StreamGetTimeout :: duration

type_synonym 'w getter = "ctx \<Rightarrow> string \<Rightarrow> 'w \<Rightarrow> (goerr + KeyValue list) \<times> 'w"

datatype event_type = PUT | DELETE

record event =
  Type :: event_type
  Kv :: KeyValue

fun includes_key :: "string list \<Rightarrow> string \<Rightarrow> bool" where
  "includes_key [] elem = False"
| "includes_key (candidate # rest) elem = (if candidate = elem then True else includes_key rest elem)"

datatype watch_pc =
    Watching                    \<comment> \<open>receiving from the watch channel\<close>
  | Forwarding "event list"     \<comment> \<open>the events of a response still to be looked at\<close>
  | WatchDone

datatype poll_pc =
    Polling "string list"              \<comment> \<open>the keys of this round still to be read\<close>
  | PollSending KeyValue "string list"
  | Sleeping time                      \<comment> \<open>in the \<open>select\<close>, with the moment the timer fires\<close>
  | PollDone

record 'w stream_state =
  watch_pc :: watch_pc
  poll_pc :: poll_pc
  cancelled :: "time option"   \<comment> \<open>when the shared context was cancelled\<close>
  clock :: time
  world :: 'w
  sent :: "KeyValue list"
  closed :: bool               \<comment> \<open>\<open>out\<close> and \<open>done\<close> are closed\<close>

definition NewStream :: "StreamOptions \<Rightarrow> time \<Rightarrow> 'w \<Rightarrow> 'w stream_state" where
  "NewStream opt now w =
     \<lparr>watch_pc = Watching, poll_pc = Polling (Keys opt), cancelled = None, clock = now, world = w,
      sent = [], closed = False\<rparr>"

definition shared_ctx :: "StreamOptions \<Rightarrow> 'w stream_state \<Rightarrow> ctx" where
  "shared_ctx opt s =
     (case cancelled s of None \<Rightarrow> StreamCtx opt | Some t \<Rightarrow> WithDeadline (StreamCtx opt) t)"

definition cancel :: "'w stream_state \<Rightarrow> 'w stream_state" where
  "cancel s = s\<lparr>cancelled := (case cancelled s of None \<Rightarrow> Some (clock s) | Some t \<Rightarrow> Some t)\<rparr>"

definition send :: "KeyValue \<Rightarrow> 'w stream_state \<Rightarrow> 'w stream_state" where
  "send kv s = s\<lparr>sent := sent s @ [kv]\<rparr>"

text \<open>One key of a poll: an error or a missing value is logged and the next key is read.\<close>

definition poll_key :: "StreamOptions \<Rightarrow> 'w getter \<Rightarrow> string \<Rightarrow> string list \<Rightarrow> 'w stream_state \<Rightarrow> 'w stream_state" where
  "poll_key opt get key keys s =
     (case get (WithTimeout (shared_ctx opt s) (clock s) (StreamGetTimeout opt)) key (world s) of
        (Inl err, w) \<Rightarrow> s\<lparr>poll_pc := Polling keys, world := w\<rparr>
      | (Inr [], w) \<Rightarrow> s\<lparr>poll_pc := Polling keys, world := w\<rparr>
      | (Inr (kv # _), w) \<Rightarrow> s\<lparr>poll_pc := PollSending kv keys, world := w\<rparr>)"

inductive stream_step :: "StreamOptions \<Rightarrow> 'w getter \<Rightarrow> 'w stream_state \<Rightarrow> 'w stream_state \<Rightarrow> bool"
  for opt get where
  elapse: "stream_step opt get s (s\<lparr>clock := clock s + int n\<rparr>)"
| environment: "stream_step opt get s (s\<lparr>world := w\<rparr>)"
| response: "watch_pc s = Watching \<Longrightarrow> stream_step opt get s (s\<lparr>watch_pc := Forwarding events\<rparr>)"
| forward: "watch_pc s = Forwarding (ev # evs) \<Longrightarrow> includes_key (Keys opt) (Key (Kv ev)) \<Longrightarrow>
     stream_step opt get s (send (Kv ev) (s\<lparr>watch_pc := Forwarding evs\<rparr>))"
| ignore: "watch_pc s = Forwarding (ev # evs) \<Longrightarrow> \<not> includes_key (Keys opt) (Key (Kv ev)) \<Longrightarrow>
     stream_step opt get s (s\<lparr>watch_pc := Forwarding evs\<rparr>)"
| forwarded: "watch_pc s = Forwarding [] \<Longrightarrow> stream_step opt get s (s\<lparr>watch_pc := Watching\<rparr>)"
| watch_closed: "watch_pc s = Watching \<Longrightarrow> stream_step opt get s (cancel (s\<lparr>watch_pc := WatchDone\<rparr>))"
| poll_get: "poll_pc s = Polling (key # keys) \<Longrightarrow> stream_step opt get s (poll_key opt get key keys s)"
| poll_send: "poll_pc s = PollSending kv keys \<Longrightarrow>
     stream_step opt get s (send kv (s\<lparr>poll_pc := Polling keys\<rparr>))"
| poll_end: "poll_pc s = Polling [] \<Longrightarrow>
     stream_step opt get s (s\<lparr>poll_pc := Sleeping (time_add (clock s) (StreamPollInterval opt))\<rparr>)"
| poll_again: "poll_pc s = Sleeping t \<Longrightarrow> t \<le> clock s \<Longrightarrow>
     stream_step opt get s (s\<lparr>poll_pc := Polling (Keys opt)\<rparr>)"
| poll_stop: "poll_pc s = Sleeping t \<Longrightarrow> ctx_expired (shared_ctx opt s) (clock s) \<Longrightarrow>
     stream_step opt get s (cancel (s\<lparr>poll_pc := PollDone\<rparr>))"
| close: "watch_pc s = WatchDone \<Longrightarrow> poll_pc s = PollDone \<Longrightarrow> \<not> closed s \<Longrightarrow>
     stream_step opt get s (s\<lparr>closed := True\<rparr>)"

lemma includes_key_iff [simp]: "includes_key keys elem \<longleftrightarrow> elem \<in> set keys"
  by (induction keys) auto

lemma send_sel [simp]:
  "watch_pc (send kv s) = watch_pc s" "poll_pc (send kv s) = poll_pc s" "closed (send kv s) = closed s"
  "sent (send kv s) = sent s @ [kv]" "cancelled (send kv s) = cancelled s" "clock (send kv s) = clock s"
  by (simp_all add: send_def)

lemma cancel_sel [simp]:
  "watch_pc (cancel s) = watch_pc s" "poll_pc (cancel s) = poll_pc s" "closed (cancel s) = closed s"
  "sent (cancel s) = sent s" "cancelled (cancel s) \<noteq> None" "clock (cancel s) = clock s"
  by (simp_all add: cancel_def split: option.splits)

lemma poll_key_sel:
  "watch_pc (poll_key opt get key keys s) = watch_pc s"
  "sent (poll_key opt get key keys s) = sent s"
  "closed (poll_key opt get key keys s) = closed s"
  "clock (poll_key opt get key keys s) = clock s"
  "cancelled (poll_key opt get key keys s) = cancelled s"
  "poll_pc (poll_key opt get key keys s) = Polling keys \<or>
     (\<exists>kv others w c. poll_pc (poll_key opt get key keys s) = PollSending kv keys \<and> get c key (world s) = (Inr (kv # others), w))"
  by (auto simp: poll_key_def split: prod.splits sum.splits list.splits)

section \<open>The contract of an event source\<close>

text \<open>The documented behaviour of \<open>Get\<close> on one key: what it returns is under this key.\<close>

definition get_ok :: "'w getter \<Rightarrow> bool" where
  "get_ok get \<longleftrightarrow> (\<forall>c key w others w'. get c key w = (Inr others, w') \<longrightarrow> (\<forall>kv \<in> set others. Key kv = key))"

lemma get_ok_key: "get c key w = (Inr (kv # others), w') \<Longrightarrow> get_ok get \<Longrightarrow> Key kv = key"
  unfolding get_ok_def by (metis list.set_intros(1))

definition stream_inv :: "StreamOptions \<Rightarrow> 'w getter \<Rightarrow> 'w stream_state \<Rightarrow> bool" where
  "stream_inv opt get s \<longleftrightarrow> get_ok get \<and>
     (closed s \<longrightarrow> watch_pc s = WatchDone \<and> poll_pc s = PollDone) \<and>
     (case poll_pc s of
        Polling keys \<Rightarrow> set keys \<subseteq> set (Keys opt)
      | PollSending kv keys \<Rightarrow> Key kv \<in> set (Keys opt) \<and> set keys \<subseteq> set (Keys opt)
      | _ \<Rightarrow> True)"

interpretation etcd: kv_source "stream_step opt get" "\<lambda>s. get_ok get \<and> (\<exists>now w. s = NewStream opt now w)"
    "stream_inv opt get" sent closed "Keys opt" for opt and get :: "'w getter"
proof unfold_locales
  fix s :: "'w stream_state"
  assume "get_ok get \<and> (\<exists>now w. s = NewStream opt now w)"
  then show "stream_inv opt get s \<and> sent s = []" by (auto simp: NewStream_def stream_inv_def)
next
  fix s s' :: "'w stream_state"
  assume inv: "stream_inv opt get s" and step: "stream_step opt get s s'"
  from step inv show "stream_inv opt get s'"
  proof cases
    case (poll_get key keys)
    with inv have "closed s = False" "set (key # keys) \<subseteq> set (Keys opt)" "get_ok get" by (auto simp: stream_inv_def)
    with poll_get show ?thesis
      using poll_key_sel [of opt get key keys s] by (auto simp: stream_inv_def dest: get_ok_key)
  qed (auto simp: stream_inv_def)
  from step inv show "sent s' = sent s \<or> (\<exists>kv. Key kv \<in> set (Keys opt) \<and> \<not> closed s \<and> sent s' = sent s @ [kv])"
    by cases (auto simp: stream_inv_def poll_key_sel)
  from step show "closed s \<Longrightarrow> closed s'"
    by cases (auto simp: poll_key_sel)
qed


text \<open>A stream that has forwarded the deletion of its key.\<close>

definition example_stream :: StreamOptions where
  "example_stream = \<lparr>StreamCtx = Background, Keys = [''/master''], StreamPollInterval = Second, StreamGetTimeout = Second\<rparr>"

definition missing_getter :: "'w getter" where
  "missing_getter c key w = (Inr [], w)"

lemma missing_getter_ok: "get_ok missing_getter"
  by (simp add: get_ok_def missing_getter_def)

text \<open>
  The stream does not look at the type of a watch event: the deletion of a configured key is sent on as
  an event of this key, with the value that the watch carries for a deletion, which is empty.
\<close>

theorem deletion_is_sent:
  fixes ev :: event
  assumes "Type ev = DELETE" and "Key (Kv ev) \<in> set (Keys opt)" and "Value (Kv ev) = ''''"
    and "watch_pc s = Watching"
  shows "\<exists>s'. (stream_step opt get)\<^sup>*\<^sup>* s s' \<and> watch_pc s' = Watching \<and> sent s' = sent s @ [Kv ev] \<and>
    Value (last (sent s')) = ''''"
proof -
  let ?s1 = "s\<lparr>watch_pc := Forwarding [ev]\<rparr>"
  let ?s2 = "send (Kv ev) (?s1\<lparr>watch_pc := Forwarding []\<rparr>)"
  have "stream_step opt get s ?s1" using assms(4) by (rule stream_step.response)
  moreover have "stream_step opt get ?s1 ?s2" using assms(2) by (intro stream_step.forward) auto
  moreover have "stream_step opt get ?s2 (?s2\<lparr>watch_pc := Watching\<rparr>)" by (intro stream_step.forwarded) simp
  ultimately have "(stream_step opt get)\<^sup>*\<^sup>* s (?s2\<lparr>watch_pc := Watching\<rparr>)" by (meson r_into_rtranclp rtranclp_trans)
  with assms(3) show ?thesis by (intro exI [of _ "?s2\<lparr>watch_pc := Watching\<rparr>"]) simp
qed


section \<open>The end of a stream\<close>

lemma shared_ctx_le: "shared_ctx opt s \<le> StreamCtx opt"
  by (simp add: shared_ctx_def split: option.splits)

lemmas expired_shared = ctx_expired_antimono [OF shared_ctx_le]

abbreviation stream_steps :: "StreamOptions \<Rightarrow> 'w getter \<Rightarrow> 'w stream_state \<Rightarrow> 'w stream_state \<Rightarrow> bool" where
  "stream_steps opt get \<equiv> (stream_step opt get)\<^sup>*\<^sup>*"

lemmas stream_then = converse_rtranclp_into_rtranclp [where r = "stream_step opt get" for opt get]

lemma watch_can_stop:
  "\<exists>s'. stream_steps opt get s s' \<and> watch_pc s' = WatchDone \<and> poll_pc s' = poll_pc s \<and> clock s' = clock s \<and> closed s' = closed s"
proof -
  have watching: "\<exists>s'. stream_steps opt get s s' \<and> watch_pc s' = WatchDone \<and> poll_pc s' = poll_pc s \<and> clock s' = clock s \<and>
      closed s' = closed s" if "watch_pc s = Watching" for s
    by (intro exI [of _ "cancel (s\<lparr>watch_pc := WatchDone\<rparr>)"]) (simp add: r_into_rtranclp stream_step.watch_closed that)
  have forwarding: "\<exists>s'. stream_steps opt get s s' \<and> watch_pc s' = WatchDone \<and> poll_pc s' = poll_pc s \<and> clock s' = clock s \<and>
      closed s' = closed s" if "watch_pc s = Forwarding evs" for evs s
    using that
  proof (induction evs arbitrary: s)
    case Nil
    then have "stream_step opt get s (s\<lparr>watch_pc := Watching\<rparr>)" by (rule stream_step.forwarded)
    with watching [of "s\<lparr>watch_pc := Watching\<rparr>"] show ?case by (auto intro: stream_then)
  next
    case (Cons ev evs)
    let ?s1 = "if includes_key (Keys opt) (Key (Kv ev)) then send (Kv ev) (s\<lparr>watch_pc := Forwarding evs\<rparr>)
      else s\<lparr>watch_pc := Forwarding evs\<rparr>"
    have "stream_step opt get s ?s1"
      using stream_step.forward [OF Cons.prems, of opt get] stream_step.ignore [OF Cons.prems, of opt get] by simp
    moreover have "watch_pc ?s1 = Forwarding evs" "poll_pc ?s1 = poll_pc s" "clock ?s1 = clock s" "closed ?s1 = closed s"
      by simp_all
    ultimately show ?case using Cons.IH [of ?s1] by (metis stream_then)
  qed
  show ?thesis
  proof (cases "watch_pc s")
    case WatchDone
    then show ?thesis by blast
  qed (use watching forwarding in blast)+
qed

lemma poll_can_stop:
  assumes "ctx_expired (StreamCtx opt) (clock s)"
  shows "\<exists>s'. stream_steps opt get s s' \<and> poll_pc s' = PollDone \<and> watch_pc s' = watch_pc s \<and> clock s' = clock s \<and> closed s' = closed s"
proof -
  let ?ends = "\<lambda>s. \<exists>s'. stream_steps opt get s s' \<and> poll_pc s' = PollDone \<and> watch_pc s' = watch_pc s \<and> clock s' = clock s \<and>
    closed s' = closed s"
  have sleeping: "?ends s" if "poll_pc s = Sleeping t" "ctx_expired (StreamCtx opt) (clock s)" for s t
    by (intro exI [of _ "cancel (s\<lparr>poll_pc := PollDone\<rparr>)"])
      (simp add: r_into_rtranclp stream_step.poll_stop [OF that(1) expired_shared [OF that(2)]])
  have polling: "(poll_pc s = Polling keys \<longrightarrow> ?ends s) \<and> (\<forall>kv. poll_pc s = PollSending kv keys \<longrightarrow> ?ends s)"
    if "ctx_expired (StreamCtx opt) (clock s)" for keys s
    using that
  proof (induction keys arbitrary: s)
    case Nil
    have poll: "?ends s" if "poll_pc s = Polling []" "ctx_expired (StreamCtx opt) (clock s)" for s
    proof -
      let ?s1 = "s\<lparr>poll_pc := Sleeping (time_add (clock s) (StreamPollInterval opt))\<rparr>"
      have "stream_step opt get s ?s1" using that(1) by (rule stream_step.poll_end)
      with sleeping [of ?s1] that(2) show ?thesis by (auto intro: stream_then)
    qed
    have "?ends s" if "poll_pc s = PollSending kv []" for kv
      using stream_step.poll_send [OF that, of opt get] poll [of "send kv (s\<lparr>poll_pc := Polling []\<rparr>)"] Nil
      by (auto intro: stream_then)
    with poll Nil show ?case by blast
  next
    case (Cons key keys)
    have poll: "?ends s" if "poll_pc s = Polling (key # keys)" "ctx_expired (StreamCtx opt) (clock s)" for s
    proof -
      let ?s1 = "poll_key opt get key keys s"
      have "stream_step opt get s ?s1" using that(1) by (rule stream_step.poll_get)
      moreover have "?ends ?s1"
        using Cons.IH [of ?s1] that(2) poll_key_sel [of opt get key keys s] by auto
      ultimately show ?thesis by (auto simp: poll_key_sel intro: stream_then)
    qed
    have "?ends s" if "poll_pc s = PollSending kv (key # keys)" for kv
      using stream_step.poll_send [OF that, of opt get] poll [of "send kv (s\<lparr>poll_pc := Polling (key # keys)\<rparr>)"] Cons.prems
      by (auto intro: stream_then)
    with poll Cons.prems show ?case by blast
  qed
  show ?thesis
  proof (cases "poll_pc s")
    case PollDone
    then show ?thesis by blast
  qed (use polling sleeping assms in blast)+
qed

text \<open>
  C21. A stream whose context is done can always be brought to its end, whatever its goroutines were doing,
  as long as its events are received: there is a run, which takes no time, after which both have
  returned and the channel is closed; from then on it stays closed and nothing more is sent.
\<close>

theorem etcd_stream_can_close:
  assumes get: "get_ok get" and run: "(stream_step opt get)\<^sup>*\<^sup>* (NewStream opt now w) s"
    and expired: "ctx_expired (StreamCtx opt) (clock s)"
  shows "\<exists>s'. (stream_step opt get)\<^sup>*\<^sup>* s s' \<and> closed s' \<and> clock s' = clock s \<and>
    (\<forall>s''. (stream_step opt get)\<^sup>*\<^sup>* s' s'' \<longrightarrow> closed s'' \<and> sent s'' = sent s')"
proof -
  obtain s1 where s1: "stream_steps opt get s s1" "watch_pc s1 = WatchDone" "clock s1 = clock s" "closed s1 = closed s"
    using watch_can_stop [of opt get s] by blast
  obtain s2 where s2: "stream_steps opt get s1 s2" "poll_pc s2 = PollDone" "watch_pc s2 = WatchDone" "clock s2 = clock s"
    using poll_can_stop [of opt s1 get] s1 expired by auto
  obtain s3 where s3: "stream_steps opt get s2 s3" "closed s3" "clock s3 = clock s"
  proof (cases "closed s2")
    case True
    with s2(4) that [of s2] show ?thesis by simp
  next
    case False
    from stream_step.close [OF s2(3,2) False, of opt get] s2(4) that [of "s2\<lparr>closed := True\<rparr>"] show ?thesis by auto
  qed
  from s1(1) s2(1) s3(1) have to: "stream_steps opt get s s3" by (meson rtranclp_trans)
  have "stream_inv opt get s3"
    using etcd.reachable_inv [OF rtranclp_trans [OF run to]] etcd.initial_inv [of get "NewStream opt now w" opt] get by blast
  then have "closed s'' \<and> sent s'' = sent s3" if "stream_steps opt get s3 s''" for s''
    using etcd.closed_final [OF that] s3(2) by blast
  with to s3(2,3) show ?thesis by blast
qed

theorem etcd_stream_can_close_witness:
  "\<exists>s'. (stream_step (example_stream\<lparr>StreamCtx := WithDeadline Background 0\<rparr>) missing_getter)\<^sup>*\<^sup>*
     (NewStream (example_stream\<lparr>StreamCtx := WithDeadline Background 0\<rparr>) 0 ()) s' \<and> closed s'"
  using etcd_stream_can_close [OF missing_getter_ok rtranclp.rtrancl_refl, of "example_stream\<lparr>StreamCtx := WithDeadline Background 0\<rparr>" 0 "()"]
  by (auto simp: NewStream_def)

section \<open>Updating a key\<close>

definition update_txn :: "string \<Rightarrow> string \<Rightarrow> txn" where
  "update_txn key v = \<lparr>IfAll = [CmpValue key v], ThenDo = [], ElseDo = [OpPut key v []]\<rparr>"

definition CompareAndUpdate :: "'w committer \<Rightarrow> ctx \<Rightarrow> string \<Rightarrow> string \<Rightarrow> 'w \<Rightarrow> goerr option \<times> 'w" where
  "CompareAndUpdate commit ctx key v w =
     (case commit ctx (update_txn key v) w of
        (Inl err, w') \<Rightarrow> (Some err, w')
      | (Inr _, w') \<Rightarrow> (None, w'))"

definition stored :: "store \<Rightarrow> string \<Rightarrow> string option" where
  "stored s key = map_option Value (lookup_key (kvs s) key)"

definition updated :: "string \<Rightarrow> string \<Rightarrow> store \<Rightarrow> store" where
  "updated key v s = \<lparr>revision = revision s + 1, kvs = put_kv (revision s + 1) (OpPut key v []) (kvs s)\<rparr>"

lemma update_effect:
  "snd (txn_effect (update_txn key v) s) = (if stored s key = Some v then s else updated key v s)"
  by (auto simp: txn_effect_def update_txn_def stored_def updated_def OpPut_def op_defs op_effect_def Let_def
      split: option.splits)

lemma memory_update:
  "CompareAndUpdate memory_commit ctx key v s = (None, if stored s key = Some v then s else updated key v s)"
  by (simp add: CompareAndUpdate_def memory_commit_def update_effect [symmetric] split: prod.splits)

lemma revision_updated [simp]: "revision (updated key v s) = revision s + 1"
  by (simp add: updated_def)

lemma stored_updated: "stored (updated key v s) k = (if k = key then Some v else stored s k)"
  by (simp add: stored_def updated_def lookup_put OpPut_def op_defs split: option.splits)

text \<open>
  After a successful \<open>CompareAndUpdate\<close> the key holds the value and no other key has changed; if it
  held the value before, the store is the same, so that watchers see no event, and otherwise there is
  one new revision. A failed call leaves the old store or the one of a successful call.
\<close>

theorem CompareAndUpdate_result:
  assumes "commits commit st" and call: "CompareAndUpdate commit ctx key v w = (r, w')"
  shows "(r = None \<longrightarrow> stored (st w') key = Some v) \<and>
    (\<forall>k. k \<noteq> key \<longrightarrow> stored (st w') k = stored (st w) k) \<and>
    (stored (st w) key = Some v \<longrightarrow> st w' = st w) \<and>
    (st w' = st w \<or> revision (st w') = revision (st w) + 1 \<and> stored (st w') key = Some v)"
proof -
  obtain c w1 where c: "commit ctx (update_txn key v) w = (c, w1)" by fastforce
  have w1: "w1 = w'" "r = (case c of Inl err \<Rightarrow> Some err | Inr _ \<Rightarrow> None)"
    using call by (auto simp: CompareAndUpdate_def c split: sum.splits)
  have "st w' = st w \<and> (r = None \<longrightarrow> stored (st w) key = Some v) \<or>
      st w' = snd (txn_effect (update_txn key v) (st w))"
  proof (cases c)
    case (Inl err)
    with commitsD(2) [OF assms(1)] c w1 show ?thesis by auto
  next
    case (Inr resp)
    with commitsD(1) [OF assms(1)] c w1 have "(resp, st w') = txn_effect (update_txn key v) (st w)" by simp
    then show ?thesis by (metis snd_conv)
  qed
  then show ?thesis
    by (cases "stored (st w) key = Some v") (auto simp: update_effect stored_updated)
qed

theorem CompareAndUpdate_result_witness:
  "\<exists>st. CompareAndUpdate memory_commit Background ''/master'' ''10.0.0.2'' \<lparr>revision = 4, kvs = []\<rparr> = (None, st) \<and>
     stored st ''/master'' = Some ''10.0.0.2''"
proof -
  obtain r st where c: "CompareAndUpdate memory_commit Background ''/master'' ''10.0.0.2'' \<lparr>revision = 4, kvs = []\<rparr> = (r, st)"
    by fastforce
  moreover from c have "r = None"
    by (auto simp: CompareAndUpdate_def memory_commit_def split: prod.splits)
  ultimately show ?thesis using CompareAndUpdate_result [OF memory_commits c] by blast
qed

end
