(* ===== verification/Fold.thy ===== *)
theory Fold
  imports Streams
begin

text \<open>
  \<open>RetryFold\<close> of \<open>pkg/streams/fold.go\<close>, as the state machine of its control points. An event is what
  the scheduler, the clock or the sender on the \<open>in\<close> channel does next; a run is a list of events.

  The nil pointer that a closed channel delivers is \<open>None\<close>. The \<open>for range\<close> loop ends on it, but the
  \<open>select\<close> of the retry path does not look at it and makes it the value to process.

  The locale \<open>operation\<close> is the contract of the \<open>Operation\<close> type as the two commands implement it:
  the operation dereferences the event it is given. Its lemmas say that at any quiet moment the
  newest event received is the one applied.
\<close>

section \<open>The code\<close>

record RetryFoldOptions =
  FoldCtx :: ctx
  FoldInterval :: duration
  FoldTimeout :: duration

type_synonym 'w operation = "ctx \<Rightarrow> KeyValue option \<Rightarrow> 'w \<Rightarrow> unit outcome \<times> 'w"

datatype fold_pc =
    Receiving
  | NextAttempt "KeyValue option"
  | Running ctx "KeyValue option"
  | Selecting time "KeyValue option"  \<comment> \<open>with the moment the interval timer fires\<close>
  | Returned
  | Panicked panic

record 'w fold_state =
  fold_pc :: fold_pc
  clock :: time
  world :: 'w

datatype fold_event =
    Recv KeyValue   \<comment> \<open>a value arrives on \<open>in\<close>\<close>
  | RecvClosed      \<comment> \<open>\<open>in\<close> is found closed\<close>
  | Begin           \<comment> \<open>the attempt's context is made and the operation is called\<close>
  | Finish          \<comment> \<open>the operation returns\<close>
  | Fire            \<comment> \<open>the interval timer is selected\<close>
  | Elapse nat      \<comment> \<open>time passes\<close>

fun fold_step ::
  "RetryFoldOptions \<Rightarrow> 'w operation \<Rightarrow> fold_event \<Rightarrow> 'w fold_state \<Rightarrow> 'w fold_state option" where
  "fold_step opt op (Recv kv) s =
     (case fold_pc s of
        Receiving \<Rightarrow> Some (s\<lparr>fold_pc := NextAttempt (Some kv)\<rparr>)
      | Selecting t kv' \<Rightarrow> Some (s\<lparr>fold_pc := NextAttempt (Some kv)\<rparr>)
      | _ \<Rightarrow> None)"
| "fold_step opt op RecvClosed s =
     (case fold_pc s of
        Receiving \<Rightarrow> Some (s\<lparr>fold_pc := Returned\<rparr>)
      | Selecting t kv' \<Rightarrow> Some (s\<lparr>fold_pc := NextAttempt None\<rparr>)
      | _ \<Rightarrow> None)"
| "fold_step opt op Begin s =
     (case fold_pc s of
        NextAttempt kv \<Rightarrow>
          Some (s\<lparr>fold_pc := Running (WithTimeout (FoldCtx opt) (clock s) (FoldTimeout opt)) kv\<rparr>)
      | _ \<Rightarrow> None)"
| "fold_step opt op Finish s =
     (case fold_pc s of
        Running ctx kv \<Rightarrow>
          (case op ctx kv (world s) of
             (Ok _, w) \<Rightarrow> Some (s\<lparr>fold_pc := Receiving, world := w\<rparr>)
           | (Err e, w) \<Rightarrow>
               Some (s\<lparr>fold_pc := Selecting (time_add (clock s) (FoldInterval opt)) kv, world := w\<rparr>)
           | (Panic p, w) \<Rightarrow> Some (s\<lparr>fold_pc := Panicked p, world := w\<rparr>))
      | _ \<Rightarrow> None)"
| "fold_step opt op Fire s =
     (case fold_pc s of
        Selecting t kv \<Rightarrow> (if t \<le> clock s then Some (s\<lparr>fold_pc := NextAttempt kv\<rparr>) else None)
      | _ \<Rightarrow> None)"
| "fold_step opt op (Elapse n) s = Some (s\<lparr>clock := clock s + int n\<rparr>)"

fun fold_run ::
  "RetryFoldOptions \<Rightarrow> 'w operation \<Rightarrow> fold_event list \<Rightarrow> 'w fold_state \<Rightarrow> 'w fold_state option" where
  "fold_run opt op [] s = Some s"
| "fold_run opt op (e # es) s =
     (case fold_step opt op e s of None \<Rightarrow> None | Some s' \<Rightarrow> fold_run opt op es s')"

definition RetryFold :: "time \<Rightarrow> 'w \<Rightarrow> 'w fold_state" where
  "RetryFold t w = \<lparr>fold_pc = Receiving, clock = t, world = w\<rparr>"

text \<open>The values received in a run.\<close>

fun received :: "fold_event list \<Rightarrow> KeyValue list" where
  "received [] = []"
| "received (Recv kv # es) = kv # received es"
| "received (_ # es) = received es"

text \<open>The events are those of a channel that delivers \<open>kvs\<close> and is then, if ever, found closed.\<close>

definition delivers :: "fold_event list \<Rightarrow> stream \<Rightarrow> bool" where
  "delivers es s \<longleftrightarrow> received es = fst s \<and> (RecvClosed \<in> set es \<longrightarrow> snd s)"

definition quiet :: "'w fold_state \<Rightarrow> bool" where
  "quiet s \<longleftrightarrow> fold_pc s = Receiving \<or> fold_pc s = Returned"

lemma fold_run_append:
  "fold_run opt op (xs @ ys) s =
     (case fold_run opt op xs s of None \<Rightarrow> None | Some s' \<Rightarrow> fold_run opt op ys s')"
  by (induction xs arbitrary: s) (auto split: option.split)

lemma received_append [simp]: "received (xs @ ys) = received xs @ received ys"
  by (induction xs rule: received.induct) auto

fun_cases fold_step_RecvE: "fold_step opt op (Recv kv) s = Some s'"
fun_cases fold_step_RecvClosedE: "fold_step opt op RecvClosed s = Some s'"
fun_cases fold_step_BeginE: "fold_step opt op Begin s = Some s'"
fun_cases fold_step_FinishE: "fold_step opt op Finish s = Some s'"
fun_cases fold_step_FireE: "fold_step opt op Fire s = Some s'"

section \<open>The newest value wins\<close>

locale operation =
  fixes op :: "'w operation" and applied :: "KeyValue \<Rightarrow> 'w \<Rightarrow> bool" and lawful :: bool
  assumes nil_panics: "op ctx None w = (Panic NilDereference, w)"
    and op_applies: "lawful \<Longrightarrow> op ctx (Some kv) w = (Ok u, w') \<Longrightarrow> applied kv w'"
begin

text \<open>
  The invariant of the loop, for the last value received so far: it is the one being processed, or
  it has been applied, or the loop has panicked or is about to, having processed a nil value.
\<close>

definition fold_inv :: "KeyValue option \<Rightarrow> 'w fold_state \<Rightarrow> bool" where
  "fold_inv latest s \<longleftrightarrow>
     (case fold_pc s of
        Receiving \<Rightarrow> (case latest of None \<Rightarrow> True | Some kv \<Rightarrow> applied kv (world s))
      | Returned \<Rightarrow> (case latest of None \<Rightarrow> True | Some kv \<Rightarrow> applied kv (world s))
      | NextAttempt kv \<Rightarrow> kv = latest \<or> kv = None
      | Running ctx kv \<Rightarrow> kv = latest \<or> kv = None
      | Selecting t kv \<Rightarrow> kv = latest \<and> kv \<noteq> None
      | Panicked p \<Rightarrow> True)"

definition latest_after :: "KeyValue option \<Rightarrow> fold_event \<Rightarrow> KeyValue option" where
  "latest_after latest e = (case e of Recv kv \<Rightarrow> Some kv | _ \<Rightarrow> latest)"

lemma fold_step_inv:
  assumes lawful and inv: "fold_inv latest s" and step: "fold_step opt op e s = Some s'"
  shows "fold_inv (latest_after latest e) s'"
proof (cases e)
  case Finish
  with step obtain ctx kv where pc: "fold_pc s = Running ctx kv"
    by (auto split: fold_pc.splits)
  obtain r w where r: "op ctx kv (world s) = (r, w)" by fastforce
  show ?thesis
  proof (cases kv)
    case None
    with r have "r = Panic NilDereference" by (simp add: nil_panics)
    with step pc r Finish show ?thesis by (auto simp: fold_inv_def)
  next
    case (Some k)
    with inv pc have "latest = Some k" by (auto simp: fold_inv_def)
    with step pc r Finish Some show ?thesis
      by (cases r) (auto simp: fold_inv_def latest_after_def dest: op_applies [OF \<open>lawful\<close>])
  qed
qed (use assms in \<open>auto simp: fold_inv_def latest_after_def split: fold_pc.splits if_splits option.splits\<close>)

lemma fold_run_inv:
  "lawful \<Longrightarrow> fold_inv latest s \<Longrightarrow> fold_run opt op es s = Some s' \<Longrightarrow>
     fold_inv (foldl latest_after latest es) s'"
  by (induction es arbitrary: latest s) (auto split: option.splits dest: fold_step_inv)

lemma foldl_latest:
  "foldl latest_after latest es = (if received es = [] then latest else Some (last (received es)))"
  by (induction es arbitrary: latest rule: received.induct) (auto simp: latest_after_def)

lemma latest_applied:
  assumes lawful and "fold_run opt op es (RetryFold t w) = Some s" and "quiet s" and "received es \<noteq> []"
  shows "applied (last (received es)) (world s)"
proof -
  have "fold_inv None (RetryFold t w)" by (simp add: fold_inv_def RetryFold_def)
  from fold_run_inv [OF assms(1) this assms(2)] assms(3,4) show ?thesis
    by (auto simp: foldl_latest fold_inv_def quiet_def)
qed

text \<open>The channel closing while a retry is pending ends in a panic, whatever the options are.\<close>

lemma close_in_retry_panics:
  assumes "fold_pc s = Selecting t kv"
  shows "map_option fold_pc (fold_run opt op [RecvClosed, Begin, Finish] s) = Some (Panicked NilDereference)"
  using assms by (simp add: nil_panics)

end

end
