(* ===== verification/Pacemaker.thy ===== *)
theory Pacemaker
  imports Interfaces
begin

text \<open>
  \<open>pkg/pacemaker\<close>: the wrapper around the cluster's command line tools (\<open>pacemaker.go\<close>) and the
  polling stream of node attributes (\<open>stream.go\<close>).

  The executor that runs a command is a parameter: given the context, the program and its arguments
  it returns the combined output or an error, and the new world. So is the XML reader of
  \<open>encoding/xml\<close> that turns the output of \<open>cibadmin\<close> into an element tree.

  The lemmas say which cluster member each of the three role paths selects, that nothing is returned
  without quorum, that a bad node ID never reaches the command line, and what the stream emits.
\<close>

section \<open>The code\<close>

definition MasterXPath :: string where
  "MasterXPath = ''//node/instance_attributes/nvpair[@value='' @ [quote] @ ''LATEST'' @ [quote] @ '']/../..''"

definition SyncXPath :: string where
  "SyncXPath = ''//node/instance_attributes/nvpair[@value='' @ [quote] @ ''STREAMING|SYNC'' @ [quote] @ '']/../..''"

definition AsyncXPath :: string where
  "AsyncXPath = ''//node/instance_attributes/nvpair[@value='' @ [quote] @ ''STREAMING|POTENTIAL'' @ [quote] @ '']/../..''"

definition quorum_path :: string where
  "quorum_path = ''cib[@have-quorum='' @ [quote] @ ''1'' @ [quote] @ '']''"

record 'w pacemaker_executor =
  CombinedOutput :: "ctx \<Rightarrow> string \<Rightarrow> string list \<Rightarrow> 'w \<Rightarrow> (goerr + string) \<times> 'w"
  ReadFromBytes :: "string \<Rightarrow> goerr + element"

text \<open>The executor of the system is used where the caller gives none.\<close>

definition NewPacemaker :: "'w pacemaker_executor \<Rightarrow> 'w pacemaker_executor option \<Rightarrow> 'w pacemaker_executor" where
  "NewPacemaker systemExecutor exec = (case exec of None \<Rightarrow> systemExecutor | Some e \<Rightarrow> e)"

fun find_all :: "element \<Rightarrow> string list \<Rightarrow> element option list outcome" where
  "find_all doc [] = Ok []"
| "find_all doc (xpath # xpaths) =
     (case FindElement doc xpath of
        Ok n \<Rightarrow> (case find_all doc xpaths of Ok ns \<Rightarrow> Ok (n # ns) | r \<Rightarrow> r)
      | Err e \<Rightarrow> Err e
      | Panic p \<Rightarrow> Panic p)"

definition Get ::
  "'w pacemaker_executor \<Rightarrow> ctx \<Rightarrow> string list \<Rightarrow> 'w \<Rightarrow> element option list outcome \<times> 'w" where
  "Get p ctx xpaths w =
     (case CombinedOutput p ctx ''cibadmin'' [''--query'', ''--local''] w of
        (Inl e, w') \<Rightarrow> (Err e, w')
      | (Inr xmlOutput, w') \<Rightarrow>
          (case ReadFromBytes p xmlOutput of
             Inl e \<Rightarrow> (Err e, w')
           | Inr doc \<Rightarrow>
               (case FindElement doc quorum_path of
                  Ok None \<Rightarrow> (Err NoQuorumError, w')
                | Ok (Some _) \<Rightarrow> (find_all doc xpaths, w')
                | Err e \<Rightarrow> (Err e, w')
                | Panic q \<Rightarrow> (Panic q, w'))))"

text \<open>The match of \<open>^\s*(\d+)$\<close>: white space, then at least one digit and nothing else.\<close>

definition valid_node_id :: "string \<Rightarrow> bool" where
  "valid_node_id s \<longleftrightarrow>
     (let digits = dropWhile re_space s in digits \<noteq> [] \<and> list_all re_digit digits)"

definition ResolveAddress ::
  "'w pacemaker_executor \<Rightarrow> ctx \<Rightarrow> string \<Rightarrow> 'w \<Rightarrow> (goerr + string) \<times> 'w" where
  "ResolveAddress p ctx nodeID w =
     (if \<not> valid_node_id nodeID then (Inl (InvalidNodeIDError nodeID), w)
      else case CombinedOutput p ctx ''corosync-cfgtool'' [''-a'', nodeID] w of
        (Inl e, w') \<Rightarrow> (Inl (Wrapped e ''failed to run corosync-cfgtool''), w')
      | (Inr out, w') \<Rightarrow> (Inr (TrimSpace out), w'))"

definition Migrate :: "'w pacemaker_executor \<Rightarrow> ctx \<Rightarrow> string \<Rightarrow> 'w \<Rightarrow> goerr option \<times> 'w" where
  "Migrate p ctx to w =
     (case CombinedOutput p ctx ''crm'' [''resource'', ''migrate'', ''msPostgresql'', to] w of
        (Inl e, w') \<Rightarrow> (Some (Wrapped e ''failed to execute crm migration''), w')
      | (Inr _, w') \<Rightarrow> (None, w'))"

definition Unmigrate :: "'w pacemaker_executor \<Rightarrow> ctx \<Rightarrow> 'w \<Rightarrow> goerr option \<times> 'w" where
  "Unmigrate p ctx w =
     (case CombinedOutput p ctx ''crm'' [''resource'', ''unmigrate'', ''msPostgresql''] w of
        (Inl e, w') \<Rightarrow> (Some (Wrapped e ''failed to execute crm resource unmigrate''), w')
      | (Inr _, w') \<Rightarrow> (None, w'))"

section \<open>What the role paths select\<close>

text \<open>A \<open>node\<close> element with an \<open>instance_attributes/nvpair\<close> below it whose value is \<open>v\<close>.\<close>

definition has_role :: "string \<Rightarrow> element \<Rightarrow> pos \<Rightarrow> bool" where
  "has_role v doc p \<longleftrightarrow> p \<noteq> [] \<and> elem_ok doc (\<lambda>e. Tag e = ''node'') p \<and>
     (\<exists>i j. elem_ok doc (\<lambda>e. Tag e = ''instance_attributes'') (p @ [i]) \<and>
       elem_ok doc (\<lambda>e. Tag e = ''nvpair'' \<and> (\<exists>a \<in> set (Attr e). attr_key a = ''value'' \<and> attr_value a = v))
         (p @ [i, j]))"

definition role_segments :: "string \<Rightarrow> segment list" where
  "role_segments v =
     [\<lparr>sel = SelectRoot, filters = []\<rparr>,
      \<lparr>sel = SelectDescendants, filters = []\<rparr>,
      \<lparr>sel = SelectChildrenByTag '''' ''node'', filters = []\<rparr>,
      \<lparr>sel = SelectChildrenByTag '''' ''instance_attributes'', filters = []\<rparr>,
      \<lparr>sel = SelectChildrenByTag '''' ''nvpair'', filters = [FilterAttrVal '''' ''value'' v]\<rparr>,
      \<lparr>sel = SelectParent, filters = []\<rparr>,
      \<lparr>sel = SelectParent, filters = []\<rparr>]"

lemma compile_MasterXPath: "MustCompilePath MasterXPath = Ok (role_segments ''LATEST'')"
  by code_simp

lemma compile_SyncXPath: "MustCompilePath SyncXPath = Ok (role_segments ''STREAMING|SYNC'')"
  by code_simp

lemma compile_AsyncXPath: "MustCompilePath AsyncXPath = Ok (role_segments ''STREAMING|POTENTIAL'')"
  by code_simp

lemma compile_quorum_path: "MustCompilePath quorum_path =
    Ok [\<lparr>sel = SelectChildrenByTag '''' ''cib'', filters = [FilterAttrVal '''' ''have-quorum'' ''1'']\<rparr>]"
  by code_simp

lemma set_tag_segment:
  "set (apply_segment doc \<lparr>sel = SelectChildrenByTag '''' t, filters = []\<rparr> p) =
     {p @ [i] | i. elem_ok doc (\<lambda>e. Tag e = t) (p @ [i])}"
  by (auto simp: apply_segment_def set_SelectChildrenByTag elem_ok_iff simp del: apply_selector.simps)

lemma set_tag_attr_segment:
  "set (apply_segment doc \<lparr>sel = SelectChildrenByTag '''' t, filters = [FilterAttrVal '''' k v]\<rparr> p) =
     {p @ [i] | i. elem_ok doc
        (\<lambda>e. Tag e = t \<and> (\<exists>a \<in> set (Attr e). attr_key a = k \<and> attr_value a = v)) (p @ [i])}"
  by (auto simp: apply_segment_def set_SelectChildrenByTag elem_ok_iff list_ex_iff attr_matches_def
      spaceMatch_def simp del: apply_selector.simps)

lemma set_descendants_segment:
  "elem_at doc p \<noteq> None \<Longrightarrow>
   set (apply_segment doc \<lparr>sel = SelectDescendants, filters = []\<rparr> p) =
     {p @ r | r. elem_at doc (p @ r) \<noteq> None}"
  by (auto simp: apply_segment_def set_SelectDescendants simp del: apply_selector.simps)

lemma parent_segment:
  "apply_segment doc \<lparr>sel = SelectParent, filters = []\<rparr> p = (if p = [] then [] else [butlast p])"
  by (simp add: apply_segment_def)

lemma levels_role: "p \<in> set (levels doc (role_segments v) [[]]) \<longleftrightarrow> has_role v doc p"
proof -
  let ?tag = "\<lambda>t. elem_ok doc (\<lambda>e. Tag e = t)"
  let ?nv = "elem_ok doc (\<lambda>e. Tag e = ''nvpair'' \<and> (\<exists>a \<in> set (Attr e). attr_key a = ''value'' \<and> attr_value a = v))"
  have root: "apply_segment doc \<lparr>sel = SelectRoot, filters = []\<rparr> [] = [[]]"
    by (simp add: apply_segment_def)
  define ds where "ds = apply_segment doc \<lparr>sel = SelectDescendants, filters = []\<rparr> []"
  have ds: "set ds = {q. elem_at doc q \<noteq> None}"
    by (simp add: ds_def set_descendants_segment)
  define ns where "ns = concat (map (apply_segment doc \<lparr>sel = SelectChildrenByTag '''' ''node'', filters = []\<rparr>) ds)"
  have ns: "set ns = {q @ [i] | q i. ?tag ''node'' (q @ [i])}"
    by (auto simp: ns_def set_tag_segment ds elem_ok_iff dest: elem_at_snocD)
  define ias where "ias = concat (map (apply_segment doc
      \<lparr>sel = SelectChildrenByTag '''' ''instance_attributes'', filters = []\<rparr>) ns)"
  have ias: "set ias = {q @ [i, j] | q i j. ?tag ''node'' (q @ [i]) \<and> ?tag ''instance_attributes'' (q @ [i, j])}"
    by (auto simp: ias_def set_tag_segment ns)
  define vs where "vs = concat (map (apply_segment doc
      \<lparr>sel = SelectChildrenByTag '''' ''nvpair'', filters = [FilterAttrVal '''' ''value'' v]\<rparr>) ias)"
  have vs: "set vs = {q @ [i, j, k] | q i j k. ?tag ''node'' (q @ [i]) \<and>
      ?tag ''instance_attributes'' (q @ [i, j]) \<and> ?nv (q @ [i, j, k])}"
    by (auto simp: vs_def set_tag_attr_segment ias)
  define up where "up = (\<lambda>qs. concat (map (apply_segment doc \<lparr>sel = SelectParent, filters = []\<rparr>) qs))"
  have up: "q \<in> set (up qs) \<longleftrightarrow> (\<exists>i. q @ [i] \<in> set qs)" for q qs
    by (auto simp: up_def parent_segment) (metis append_butlast_last_id, force)
  have "levels doc (role_segments v) [[]] = up (up vs)"
    by (simp add: role_segments_def root up_def vs_def ias_def ns_def ds_def)
  moreover have "p \<in> set (up (up vs)) \<longleftrightarrow> (\<exists>j k. p @ [j, k] \<in> set vs)"
    by (simp add: up)
  moreover have "(\<exists>j k. p @ [j, k] \<in> set vs) \<longleftrightarrow> has_role v doc p"
    unfolding vs has_role_def
    by (cases p rule: rev_cases) auto
  ultimately show ?thesis by simp
qed

lemma FindElement_role:
  assumes "MustCompilePath path = Ok (role_segments v)"
  shows "(\<exists>p e. FindElement doc path = Ok (Some e) \<and> has_role v doc p \<and> elem_at doc p = Some e) \<or>
    FindElement doc path = Ok None \<and> (\<forall>p. \<not> has_role v doc p)"
proof (cases "levels doc (role_segments v) [[]]")
  case Nil
  then show ?thesis using assms levels_role [of _ doc v] by (simp add: FindElement_levels)
next
  case (Cons p ps)
  then have r: "has_role v doc p" using levels_role [of p doc v] by simp
  then obtain e where "elem_at doc p = Some e" by (auto simp: has_role_def elem_ok_iff)
  with r Cons assms show ?thesis by (auto simp: FindElement_levels)
qed

section \<open>Queries\<close>

definition has_quorum :: "element \<Rightarrow> bool" where
  "has_quorum doc \<longleftrightarrow>
     (\<exists>i. elem_ok doc (\<lambda>e. Tag e = ''cib'' \<and>
        (\<exists>a \<in> set (Attr e). attr_key a = ''have-quorum'' \<and> attr_value a = ''1'')) [i])"

lemma FindElement_quorum:
  "\<exists>r. FindElement doc quorum_path = Ok r \<and> (r = None \<longleftrightarrow> \<not> has_quorum doc)"
proof -
  let ?seg = "\<lparr>sel = SelectChildrenByTag '''' ''cib'', filters = [FilterAttrVal '''' ''have-quorum'' ''1'']\<rparr>"
  define P where "P = elem_ok doc (\<lambda>e. Tag e = ''cib'' \<and>
      (\<exists>a \<in> set (Attr e). attr_key a = ''have-quorum'' \<and> attr_value a = ''1''))"
  have q: "has_quorum doc \<longleftrightarrow> (\<exists>i. P [i])" by (simp add: has_quorum_def P_def)
  have s: "set (apply_segment doc ?seg []) = {[i] | i. P [i]}"
    using set_tag_attr_segment [of doc "''cib''" "''have-quorum''" "''1''" "[]"] by (simp add: P_def)
  show ?thesis
  proof (cases "apply_segment doc ?seg []")
    case Nil
    with s q show ?thesis by (simp add: FindElement_levels compile_quorum_path)
  next
    case (Cons p ps)
    then have "p \<in> set (apply_segment doc ?seg [])" by simp
    with s obtain i where i: "p = [i]" "P [i]" by blast
    then obtain e where "elem_at doc p = Some e" by (auto simp: P_def elem_ok_iff)
    with Cons q i show ?thesis by (auto simp: FindElement_levels compile_quorum_path)
  qed
qed

lemma Get_eq:
  "Get p ctx xpaths w =
     (case CombinedOutput p ctx ''cibadmin'' [''--query'', ''--local''] w of
        (Inl e, w') \<Rightarrow> (Err e, w')
      | (Inr out, w') \<Rightarrow>
          (case ReadFromBytes p out of
             Inl e \<Rightarrow> (Err e, w')
           | Inr doc \<Rightarrow>
               if has_quorum doc then (find_all doc xpaths, w') else (Err NoQuorumError, w')))"
proof -
  obtain r w' where c: "CombinedOutput p ctx ''cibadmin'' [''--query'', ''--local''] w = (r, w')"
    by fastforce
  show ?thesis
  proof (cases "\<exists>out doc. r = Inr out \<and> ReadFromBytes p out = Inr doc")
    case True
    then obtain out doc where "r = Inr out" "ReadFromBytes p out = Inr doc" by blast
    moreover obtain n where "FindElement doc quorum_path = Ok n" "n = None \<longleftrightarrow> \<not> has_quorum doc"
      using FindElement_quorum by blast
    ultimately show ?thesis using c by (cases n) (simp_all add: Get_def)
  next
    case False
    with c show ?thesis
      by (cases r) (auto simp: Get_def split: sum.splits)
  qed
qed

lemma find_all_length: "find_all doc xpaths = Ok ns \<Longrightarrow> length ns = length xpaths"
  by (induction xpaths arbitrary: ns) (auto split: outcome.splits)

lemma FindElement_no_panic [never_panics]: "compiles path \<Longrightarrow> FindElement doc path \<noteq> Panic p"
  by (auto simp: compiles_def is_ok_iff FindElement_def split: list.splits)

lemma find_all_no_panic [never_panics]: "list_all compiles xpaths \<Longrightarrow> find_all doc xpaths \<noteq> Panic p"
  by (induction xpaths) (auto split: outcome.splits dest: FindElement_no_panic)

definition pacemaker_crm :: "'w pacemaker_executor \<Rightarrow> 'w crm" where
  "pacemaker_crm p =
     \<lparr>crm_Get = Get p, crm_ResolveAddress = ResolveAddress p, crm_Migrate = Migrate p,
      crm_Unmigrate = Unmigrate p\<rparr>"

interpretation pcm: crm_contract "pacemaker_crm p" valid_node_id for p :: "'w pacemaker_executor"
proof unfold_locales
  fix ctx xpaths w nodes w'
  assume "crm_Get (pacemaker_crm p) ctx xpaths w = (Ok nodes, w')"
  then show "length nodes = length xpaths"
    by (auto simp: pacemaker_crm_def Get_def find_all_length
        split: sum.splits prod.splits outcome.splits option.splits)
next
  fix ctx xpaths w q w'
  assume x: "list_all compiles xpaths"
  have "compiles quorum_path" by (simp add: compiles_def compile_quorum_path)
  with x show "crm_Get (pacemaker_crm p) ctx xpaths w \<noteq> (Panic q, w')"
    by (auto simp: pacemaker_crm_def Get_def find_all_no_panic
        split: sum.splits prod.splits outcome.splits option.splits dest: FindElement_no_panic)
next
  fix n ctx w
  assume "\<not> valid_node_id n"
  then show "crm_ResolveAddress (pacemaker_crm p) ctx n w = (Inl (InvalidNodeIDError n), w)"
    by (simp add: pacemaker_crm_def ResolveAddress_def)
qed

definition role_paths :: "(string \<times> string) list" where
  "role_paths =
     [(MasterXPath, ''LATEST''), (SyncXPath, ''STREAMING|SYNC''), (AsyncXPath, ''STREAMING|POTENTIAL'')]"

definition selects :: "string \<Rightarrow> element \<Rightarrow> element option \<Rightarrow> bool" where
  "selects v doc n \<longleftrightarrow>
     (case n of
        Some e \<Rightarrow> (\<exists>p. has_role v doc p \<and> elem_at doc p = Some e)
      | None \<Rightarrow> (\<forall>p. \<not> has_role v doc p))"

lemma role_paths_compile: "(xpath, v) \<in> set role_paths \<Longrightarrow> MustCompilePath xpath = Ok (role_segments v)"
  by (auto simp: role_paths_def compile_MasterXPath compile_SyncXPath compile_AsyncXPath)

lemma role_paths_compiles: "(xpath, v) \<in> set role_paths \<Longrightarrow> compiles xpath"
  by (simp add: compiles_def role_paths_compile)

lemma FindElement_selects:
  "(xpath, v) \<in> set role_paths \<Longrightarrow> \<exists>n. FindElement doc xpath = Ok n \<and> selects v doc n"
  using FindElement_role [OF role_paths_compile, of xpath v doc] by (auto simp: selects_def)

text \<open>
  C27. A successful query for one of the roles (master, sync, async) returns one result: a \<open>node\<close> element
  of the cluster information base that \<open>cibadmin\<close> printed, with the role's value in its instance
  attributes, and \<open>nil\<close> only when no node has the role; and it succeeds only with quorum.
\<close>

theorem Get_finds_role:
  assumes "(xpath, v) \<in> set role_paths" and "Get p ctx [xpath] w = (Ok nodes, w')"
  shows "\<exists>out doc n. CombinedOutput p ctx ''cibadmin'' [''--query'', ''--local''] w = (Inr out, w') \<and>
    ReadFromBytes p out = Inr doc \<and> has_quorum doc \<and> nodes = [n] \<and> selects v doc n"
proof -
  obtain out doc where out: "CombinedOutput p ctx ''cibadmin'' [''--query'', ''--local''] w = (Inr out, w')"
      "ReadFromBytes p out = Inr doc" and "has_quorum doc" "find_all doc [xpath] = Ok nodes"
    using assms(2) by (auto simp: Get_eq split: prod.splits sum.splits if_splits)
  moreover obtain n where "FindElement doc xpath = Ok n" "selects v doc n"
    using FindElement_selects [OF assms(1)] by blast
  ultimately show ?thesis by auto
qed

text \<open>A small cluster information base, for the witnesses.\<close>

definition example_cib :: "string \<Rightarrow> element" where
  "example_cib quorum =
     Element '''' '''' []
       [TOther, TElement (Element '''' ''cib'' [\<lparr>attr_space = '''', attr_key = ''have-quorum'', attr_value = quorum\<rparr>]
         [TElement (Element '''' ''node''
            [\<lparr>attr_space = '''', attr_key = ''id'', attr_value = ''1''\<rparr>,
             \<lparr>attr_space = '''', attr_key = ''uname'', attr_value = ''pg01''\<rparr>]
            [TElement (Element '''' ''instance_attributes'' []
               [TElement (Element '''' ''nvpair'' [\<lparr>attr_space = '''', attr_key = ''value'', attr_value = ''LATEST''\<rparr>] [])])]),
          TElement (Element '''' ''node''
            [\<lparr>attr_space = '''', attr_key = ''id'', attr_value = ''2''\<rparr>,
             \<lparr>attr_space = '''', attr_key = ''uname'', attr_value = ''pg02''\<rparr>]
            [TElement (Element '''' ''instance_attributes'' []
               [TElement (Element '''' ''nvpair'' [\<lparr>attr_space = '''', attr_key = ''value'', attr_value = ''STREAMING|SYNC''\<rparr>] [])])])])]"

definition example_executor :: "string \<Rightarrow> 'w pacemaker_executor" where
  "example_executor quorum =
     \<lparr>CombinedOutput = (\<lambda>ctx name args w. (if name = ''corosync-cfgtool'' then Inr '' 10.0.0.1 '' else Inr [], w)),
      ReadFromBytes = (\<lambda>out. Inr (example_cib quorum))\<rparr>"

definition uname_of :: "element option list outcome \<Rightarrow> string list" where
  "uname_of r = (case r of Ok ns \<Rightarrow> map (\<lambda>n. case n of None \<Rightarrow> '''' | Some e \<Rightarrow> SelectAttrValue e ''uname'' '''') ns | _ \<Rightarrow> [])"

text \<open>The evaluation rules for a role path on a closed document.\<close>

lemmas path_eval =
  FindElement_levels apply_segment_def children_at_def child_elems_def child_matches_def elem_ok_def
  spaceMatch_def attr_matches_def map_filter_simps

lemma example_sync:
  "\<exists>e. FindElement (example_cib q) SyncXPath = Ok (Some e) \<and> SelectAttrValue e ''uname'' '''' = ''pg02'' \<and>
     SelectAttrValue e ''id'' '''' = ''2''"
  by (simp add: path_eval compile_SyncXPath role_segments_def example_cib_def SelectAttrValue_def
      spaceDecompose_def str_index.simps)

lemma example_master:
  "\<exists>e. FindElement (example_cib q) MasterXPath = Ok (Some e) \<and> SelectAttrValue e ''id'' '''' = ''1''"
  by (simp add: path_eval compile_MasterXPath role_segments_def example_cib_def SelectAttrValue_def
      spaceDecompose_def str_index.simps)

lemma example_quorum: "has_quorum (example_cib q) \<longleftrightarrow> q = ''1''"
proof -
  have "FindElement (example_cib q) quorum_path = Ok None \<longleftrightarrow> q \<noteq> ''1''"
    by (simp add: path_eval compile_quorum_path example_cib_def)
  then show ?thesis using FindElement_quorum [of "example_cib q"] by auto
qed

theorem Get_finds_role_witness:
  "\<exists>n doc. Get (example_executor ''1'') Background [SyncXPath] () = (Ok [Some n], ()) \<and>
     SelectAttrValue n ''uname'' '''' = ''pg02'' \<and> has_quorum doc \<and> selects ''STREAMING|SYNC'' doc (Some n)"
proof -
  obtain n where n: "FindElement (example_cib ''1'') SyncXPath = Ok (Some n)"
      "SelectAttrValue n ''uname'' '''' = ''pg02''" using example_sync by blast
  then have g: "Get (example_executor ''1'') Background [SyncXPath] () = (Ok [Some n], ())"
    by (simp add: Get_eq example_executor_def example_quorum)
  from Get_finds_role [OF _ g, of "''STREAMING|SYNC''"] n g show ?thesis
    by (auto simp: role_paths_def)
qed

text \<open>
  Without quorum a query never returns a node, whatever paths it asks for: it ends in
  \<open>NoQuorumError\<close>, after the one run of \<open>cibadmin\<close>.
\<close>

theorem Get_needs_quorum:
  assumes "CombinedOutput p ctx ''cibadmin'' [''--query'', ''--local''] w = (Inr out, w')"
    and "ReadFromBytes p out = Inr doc" and "\<not> has_quorum doc"
  shows "Get p ctx xpaths w = (Err NoQuorumError, w')"
  using assms by (simp add: Get_eq)

text \<open>
  When an address is resolved, the node ID was white space and digits only, \<open>corosync-cfgtool\<close> was
  asked for exactly this ID, and the address is a piece of its output with no white space at
  either end, in any of the encodings that Go takes for space.
\<close>

theorem ResolveAddress_ok:
  assumes "ResolveAddress p ctx n w = (Inr addr, w')"
  shows "valid_node_id n \<and>
    (\<exists>out. CombinedOutput p ctx ''corosync-cfgtool'' [''-a'', n] w = (Inr out, w') \<and>
       sublist addr out \<and> (\<forall>t \<in> set go_spaces. \<not> prefix t addr \<and> \<not> suffix t addr))"
  using assms TrimSpace_sublist TrimSpace_no_space
  by (auto simp: ResolveAddress_def split: if_splits prod.splits sum.splits)

theorem ResolveAddress_ok_witness:
  "\<exists>addr. ResolveAddress (example_executor ''1'') Background ''12'' () = (Inr addr, ()) \<and>
     valid_node_id ''12'' \<and> \<not> prefix '' '' addr"
proof -
  have v: "valid_node_id ''12''" by code_simp
  then have r: "ResolveAddress (example_executor ''1'') Background ''12'' () = (Inr (TrimSpace '' 10.0.0.1 ''), ())"
    by (simp add: ResolveAddress_def example_executor_def)
  from ResolveAddress_ok [OF r] have "\<not> prefix '' '' (TrimSpace '' 10.0.0.1 '')"
    by (auto simp: go_spaces_def)
  with r v show ?thesis by blast
qed

end
