(* ===== verification/PacemakerStream.thy ===== *)
theory PacemakerStream
  imports Pacemaker
begin

text \<open>
  \<open>NewStream\<close> of \<open>pkg/pacemaker/stream.go\<close>: a goroutine that waits for the poll interval, queries the
  configured paths and sends, for each path with a node, the path's alias with the value of the
  configured attribute; when its context is done it closes the channel and stops.
\<close>

section \<open>The code\<close>

record PacemakerStreamOptions =
  StreamCtx :: ctx
  Attribute :: string
  XPaths :: "(string \<times> string) list"   \<comment> \<open>alias and path\<close>
  PollInterval :: duration
  GetTimeout :: duration

definition AliasXPath :: "string \<Rightarrow> string \<Rightarrow> string \<times> string" where
  "AliasXPath alias xpath = (alias, xpath)"

text \<open>The loop over the aliases: an event for each node that is not \<open>nil\<close>.\<close>

fun poll_kvs :: "string \<Rightarrow> (string \<times> string) list \<Rightarrow> element option list \<Rightarrow> KeyValue list" where
  "poll_kvs attribute ((alias, xpath) # axs) (n # ns) =
     (case n of
        None \<Rightarrow> poll_kvs attribute axs ns
      | Some e \<Rightarrow> makeKv alias (SelectAttrValue e attribute '''') 0 # poll_kvs attribute axs ns)"
| "poll_kvs attribute _ _ = []"

datatype poll_pc =
    Waiting time              \<comment> \<open>in the \<open>select\<close>, with the moment the poll timer fires\<close>
  | Emitting "KeyValue list"  \<comment> \<open>the events of this poll still to be sent\<close>
  | Stopped
  | PollPanicked panic

record 'w poller =
  poll_pc :: poll_pc
  poll_clock :: time
  poll_world :: 'w
  poll_sent :: "KeyValue list"
  poll_closed :: bool

definition NewStream :: "PacemakerStreamOptions \<Rightarrow> time \<Rightarrow> 'w \<Rightarrow> 'w poller" where
  "NewStream opt now w =
     \<lparr>poll_pc = Waiting (time_add now (PollInterval opt)), poll_clock = now, poll_world = w,
      poll_sent = [], poll_closed = False\<rparr>"

text \<open>The end of a loop iteration: back to the \<open>select\<close> with a new timer.\<close>

definition await :: "PacemakerStreamOptions \<Rightarrow> 'w poller \<Rightarrow> 'w poller" where
  "await opt s = s\<lparr>poll_pc := Waiting (time_add (poll_clock s) (PollInterval opt))\<rparr>"

definition poll :: "PacemakerStreamOptions \<Rightarrow> 'w pacemaker_executor \<Rightarrow> 'w poller \<Rightarrow> 'w poller" where
  "poll opt crm s =
     (case Get crm (WithTimeout (StreamCtx opt) (poll_clock s) (GetTimeout opt))
         (map snd (XPaths opt)) (poll_world s) of
        (Ok nodes, w) \<Rightarrow>
          s\<lparr>poll_pc := Emitting (poll_kvs (Attribute opt) (XPaths opt) nodes), poll_world := w\<rparr>
      | (Err e, w) \<Rightarrow> await opt (s\<lparr>poll_world := w\<rparr>)
      | (Panic p, w) \<Rightarrow> s\<lparr>poll_pc := PollPanicked p, poll_world := w\<rparr>)"

inductive poll_step ::
  "PacemakerStreamOptions \<Rightarrow> 'w pacemaker_executor \<Rightarrow> 'w poller \<Rightarrow> 'w poller \<Rightarrow> bool"
  for opt crm where
  elapse: "poll_step opt crm s (s\<lparr>poll_clock := poll_clock s + int n\<rparr>)"
| environment: "poll_step opt crm s (s\<lparr>poll_world := w\<rparr>)"
| tick: "poll_pc s = Waiting t \<Longrightarrow> t \<le> poll_clock s \<Longrightarrow> poll_step opt crm s (poll opt crm s)"
| send: "poll_pc s = Emitting (kv # kvs) \<Longrightarrow>
     poll_step opt crm s (s\<lparr>poll_pc := Emitting kvs, poll_sent := poll_sent s @ [kv]\<rparr>)"
| sent_all: "poll_pc s = Emitting [] \<Longrightarrow> poll_step opt crm s (await opt s)"
| stop: "poll_pc s = Waiting t \<Longrightarrow> ctx_expired (StreamCtx opt) (poll_clock s) \<Longrightarrow>
     poll_step opt crm s (s\<lparr>poll_pc := Stopped, poll_closed := True\<rparr>)"

section \<open>The contract of an event source\<close>

definition poll_inv :: "PacemakerStreamOptions \<Rightarrow> 'w poller \<Rightarrow> bool" where
  "poll_inv opt s \<longleftrightarrow>
     (poll_closed s \<longleftrightarrow> poll_pc s = Stopped) \<and>
     (case poll_pc s of Emitting kvs \<Rightarrow> \<forall>kv \<in> set kvs. Key kv \<in> set (map fst (XPaths opt)) | _ \<Rightarrow> True)"

lemma poll_kvs_keys: "kv \<in> set (poll_kvs attribute axs ns) \<Longrightarrow> Key kv \<in> set (map fst axs)"
  by (induction attribute axs ns rule: poll_kvs.induct) (auto simp: makeKv_def split: option.splits)

lemma poll_pcs:
  "poll_closed (poll opt crm s) = poll_closed s" "poll_sent (poll opt crm s) = poll_sent s"
  "poll_pc (poll opt crm s) \<noteq> Stopped"
  "poll_pc (poll opt crm s) = Emitting kvs \<Longrightarrow> kv \<in> set kvs \<Longrightarrow> Key kv \<in> set (map fst (XPaths opt))"
  using poll_kvs_keys by (fastforce simp: poll_def await_def split: prod.splits outcome.splits)+

interpretation poller: kv_source "poll_step opt crm" "\<lambda>s. \<exists>now w. s = NewStream opt now w" "poll_inv opt"
    poll_sent poll_closed "map fst (XPaths opt)" for opt and crm :: "'w pacemaker_executor"
proof unfold_locales
  fix s :: "'w poller"
  assume "\<exists>now w. s = NewStream opt now w"
  then show "poll_inv opt s \<and> poll_sent s = []" by (auto simp: NewStream_def poll_inv_def)
next
  fix s s' :: "'w poller"
  assume inv: "poll_inv opt s" and step: "poll_step opt crm s s'"
  from step inv show "poll_inv opt s'"
  proof cases
    case (tick t)
    with inv show ?thesis
      by (auto simp: poll_inv_def poll_pcs simp del: set_map split: poll_pc.split dest: poll_pcs(4))
  qed (auto simp: poll_inv_def await_def)
  from step inv show "poll_sent s' = poll_sent s \<or> (\<exists>kv. Key kv \<in> set (map fst (XPaths opt)) \<and>
      \<not> poll_closed s \<and> poll_sent s' = poll_sent s @ [kv])"
    by cases (auto simp: poll_inv_def await_def poll_pcs)
  from step show "poll_closed s \<Longrightarrow> poll_closed s'"
    by cases (auto simp: await_def poll_pcs)
qed

end
