(* ===== verification/Config.thy ===== *)
theory Config
  imports Bouncer Failover Etcd Fold PacemakerStream
begin

text \<open>
  The configuration of the commands (\<open>pkg/cmd/flags.go\<close>, \<open>cmd.go\<close> and the option tables of \<open>proxy.go\<close>,
  \<open>supervise.go\<close> and \<open>failover.go\<close>): the flags with their defaults, the lookup of a key in \<open>viper\<close>
  (changed flag, environment, configuration file, default of the flag, in this order), the options that
  each command builds, and the hash of the configuration file.

  Parameters of the model: the parsing of text into durations and lists, the TOML reader, the file
  system and MD5.
\<close>

section \<open>Values and their lookup\<close>

text \<open>
  A duration flag is text, such as \<open>5s\<close>, until a getter parses it; \<open>VDuration\<close> stands for the text of the
  duration.
\<close>

datatype setting_value =
    VString string
  | VStrings "string list"
  | VDuration duration

text \<open>A flag: its name, its default and its usage line.\<close>

type_synonym pflag = "string \<times> setting_value \<times> string"

record viper =
  flags :: "pflag list"                  \<comment> \<open>the bound flags\<close>
  changed :: "string \<rightharpoonup> setting_value"          \<comment> \<open>the flags given on the command line\<close>
  environ :: "string \<rightharpoonup> string"
  config_file :: "string \<rightharpoonup> setting_value"

record casts =
  ToString :: "setting_value \<Rightarrow> string"
  ToStringSlice :: "setting_value \<Rightarrow> string list"
  ToDuration :: "setting_value \<Rightarrow> duration"

definition upper :: "char \<Rightarrow> char" where
  "upper c = (if CHR ''a'' \<le> c \<and> c \<le> CHR ''z'' then char_of (of_char c - 32 :: nat) else c)"

text \<open>\<open>SetEnvPrefix\<close>, \<open>AutomaticEnv\<close> and the replacer of dashes; an empty variable counts as unset.\<close>

definition env_name :: "string \<Rightarrow> string" where
  "env_name key = map (\<lambda>c. if c = CHR ''-'' then CHR ''_'' else upper c) (''pgcm_'' @ key)"

definition find :: "viper \<Rightarrow> string \<Rightarrow> setting_value option" where
  "find v key =
     (case changed v key of
        Some x \<Rightarrow> Some x
      | None \<Rightarrow>
          (case environ v (env_name key) of
             Some (c # s) \<Rightarrow> Some (VString (c # s))
           | _ \<Rightarrow> (case config_file v key of Some x \<Rightarrow> Some x | None \<Rightarrow> map_option fst (map_of (flags v) key))))"

text \<open>The typed getters cast a missing value to the zero value.\<close>

definition GetString :: "casts \<Rightarrow> viper \<Rightarrow> string \<Rightarrow> string" where
  "GetString cv v key = (case find v key of None \<Rightarrow> '''' | Some x \<Rightarrow> ToString cv x)"

definition GetStringSlice :: "casts \<Rightarrow> viper \<Rightarrow> string \<Rightarrow> string list" where
  "GetStringSlice cv v key = (case find v key of None \<Rightarrow> [] | Some x \<Rightarrow> ToStringSlice cv x)"

definition GetDuration :: "casts \<Rightarrow> viper \<Rightarrow> string \<Rightarrow> duration" where
  "GetDuration cv v key = (case find v key of None \<Rightarrow> 0 | Some x \<Rightarrow> ToDuration cv x)"

section \<open>The flags\<close>

definition pgbouncer_flags :: "pflag list" where
  "pgbouncer_flags =
     [(''pgbouncer-user'', VString ''pgbouncer'', ''Admin user of PgBouncer''),
      (''pgbouncer-password'', VString '''', ''Password for admin user''),
      (''pgbouncer-database'', VString ''pgbouncer'', ''PgBouncer special database (inadvisable to change)''),
      (''pgbouncer-socket-dir'', VString ''/var/run/postgresql'', ''Directory in which the unix socket resides''),
      (''pgbouncer-port'', VString ''6432'', ''Port that PgBouncer is listening on''),
      (''pgbouncer-config-file'', VString ''/etc/pgbouncer/pgbouncer.ini'', ''Path to PgBouncer config file''),
      (''pgbouncer-config-template-file'', VString ''/etc/pgbouncer/pgbouncer.ini.template'', ''Path to PgBouncer config template file''),
      (''pgbouncer-timeout'', VDuration (5 * Second), ''Timeout for PgBouncer operations'')]"

definition etcd_flags :: "pflag list" where
  "etcd_flags =
     [(''etcd-namespace'', VString '''', ''Namespace all requests to etcd under this value''),
      (''etcd-endpoints'', VStrings [''http://127.0.0.1:2379''], ''gRPC etcd endpoints''),
      (''etcd-timeout'', VDuration (3 * Second), ''Timeout for etcd operations''),
      (''etcd-dial-timeout'', VDuration (3 * Second), ''Timeout when connecting to etcd''),
      (''etcd-keep-alive-time'', VDuration (30 * Second), ''Time after which client pings server to check transport''),
      (''etcd-keep-alive-timeout'', VDuration (5 * Second), ''Timeout for the keep alive probe''),
      (''etcd-postgres-master-key'', VString ''/master'', ''etcd key that stores current Postgres primary'')]"

definition failover_flags :: "pflag list" where
  "failover_flags =
     [(''failover-api-endpoints'', VStrings [''pg01:8080'', ''pg02:8080'', ''pg03:8080''], ''All Postgres node API endpoints''),
      (''health-check-timeout'', VDuration (2 * Second), ''Timeout to health check each node''),
      (''lock-timeout'', VDuration (5 * Second), ''Timeout to acquire exclusive failover lock in etcd''),
      (''pause-timeout'', VDuration (5 * Second), ''Timeout for all nodes to pause PgBouncer''),
      (''pause-expiry'', VDuration (25 * Second), ''Time after which PgBouncer will automatically lift pause''),
      (''resume-timeout'', VDuration (5 * Second), ''Timeout for PgBouncer resume operations''),
      (''pacemaker-timeout'', VDuration (20 * Second), ''Timeout for executing (not necessarily to completion) pacemaker commands'')]"

definition proxy_flags :: "pflag list" where
  "proxy_flags =
     pgbouncer_flags @
     [(''etcd-stream-poll-interval'', VDuration (60 * Second), ''poll etcd on this interval''),
      (''etcd-get-timeout'', VDuration (5 * Second), ''timeout for etcd get operation''),
      (''pgbouncer-retry-interval'', VDuration (5 * Second), ''retry failed PgBouncer operations at this interval'')]"

definition supervise_flags :: "pflag list" where
  "supervise_flags =
     [(''postgres-master-crm-xpath'', VString MasterXPath, ''XPath selector into cibadmin that finds current master''),
      (''bind-address'', VString '':8080'', ''Bind API to this address''),
      (''host-key-update-retry-interval'', VDuration Second, ''Interval to retry etcd update of host key''),
      (''pacemaker-poll-interval'', VDuration Second, ''Interval to poll pacemaker for state changes''),
      (''pacemaker-get-timeout'', VDuration 500000000, ''Timeout for cib query operation'')]"

definition config_file_flag :: pflag where
  "config_file_flag = (''config-file'', VString '''', ''Load configuration from confile file'')"

text \<open>\<open>NewPgcmCommand\<close> builds every command, and each binds its flags to the one global \<open>viper\<close>.\<close>

definition bound_flags :: "pflag list" where
  "bound_flags = config_file_flag # etcd_flags @ failover_flags @ proxy_flags @ supervise_flags"

section \<open>The options of the commands\<close>

definition failover_options :: "casts \<Rightarrow> viper \<Rightarrow> FailoverOptions" where
  "failover_options cv v =
     \<lparr>EtcdHostKey = GetString cv v ''etcd-postgres-master-key'',
      HealthCheckTimeout = GetDuration cv v ''health-check-timeout'',
      LockTimeout = GetDuration cv v ''lock-timeout'',
      PauseTimeout = GetDuration cv v ''pause-timeout'',
      PauseExpiry = GetDuration cv v ''pause-expiry'',
      ResumeTimeout = GetDuration cv v ''resume-timeout'',
      PacemakerTimeout = GetDuration cv v ''pacemaker-timeout''\<rparr>"

definition proxy_stream_options :: "casts \<Rightarrow> viper \<Rightarrow> ctx \<Rightarrow> StreamOptions" where
  "proxy_stream_options cv v ctx =
     \<lparr>StreamOptions.StreamCtx = ctx, Keys = [GetString cv v ''etcd-postgres-master-key''],
      StreamPollInterval = GetDuration cv v ''etcd-stream-poll-interval'',
      StreamGetTimeout = GetDuration cv v ''etcd-get-timeout''\<rparr>"

definition proxy_fold_options :: "casts \<Rightarrow> viper \<Rightarrow> ctx \<Rightarrow> RetryFoldOptions" where
  "proxy_fold_options cv v ctx =
     \<lparr>FoldCtx = ctx, FoldInterval = GetDuration cv v ''pgbouncer-retry-timeout'',
      FoldTimeout = GetDuration cv v ''pgbouncer-timeout''\<rparr>"

definition supervise_stream_options :: "casts \<Rightarrow> viper \<Rightarrow> ctx \<Rightarrow> PacemakerStreamOptions" where
  "supervise_stream_options cv v ctx =
     \<lparr>PacemakerStreamOptions.StreamCtx = ctx, Attribute = ''id'',
      XPaths = [AliasXPath (GetString cv v ''etcd-postgres-master-key'') (GetString cv v ''postgres-master-crm-xpath'')],
      PollInterval = GetDuration cv v ''pacemaker-poll-interval'',
      GetTimeout = GetDuration cv v ''pacemaker-get-timeout''\<rparr>"

definition supervise_fold_options :: "casts \<Rightarrow> viper \<Rightarrow> ctx \<Rightarrow> RetryFoldOptions" where
  "supervise_fold_options cv v ctx =
     \<lparr>FoldCtx = ctx, FoldInterval = GetDuration cv v ''host-key-update-retry-interval'',
      FoldTimeout = GetDuration cv v ''etcd-timeout''\<rparr>"

definition mustPgBouncer :: "casts \<Rightarrow> viper \<Rightarrow> string \<times> string \<times> AuthorizedExecutor" where
  "mustPgBouncer cv v =
     (GetString cv v ''pgbouncer-config-file'', GetString cv v ''pgbouncer-config-template-file'',
      \<lparr>User = GetString cv v ''pgbouncer-user'', Password = GetString cv v ''pgbouncer-password'',
       Database = GetString cv v ''pgbouncer-database'', SocketDir = GetString cv v ''pgbouncer-socket-dir'',
       Port = GetString cv v ''pgbouncer-port''\<rparr>)"

record etcd_config =
  Endpoints :: "string list"
  DialTimeout :: duration
  DialKeepAliveTime :: duration
  DialKeepAliveTimeout :: duration
  Namespace :: string

definition mustEtcdClient :: "casts \<Rightarrow> viper \<Rightarrow> etcd_config" where
  "mustEtcdClient cv v =
     \<lparr>Endpoints = GetStringSlice cv v ''etcd-endpoints'', DialTimeout = GetDuration cv v ''etcd-dial-timeout'',
      DialKeepAliveTime = GetDuration cv v ''etcd-dial-keep-alive-time'',
      DialKeepAliveTimeout = GetDuration cv v ''etcd-dial-keep-alive-timeout'',
      Namespace = GetString cv v ''etcd-namespace''\<rparr>"

section \<open>The configuration file\<close>

definition le_value :: "8 word list \<Rightarrow> nat" where
  "le_value bs = foldr (\<lambda>b n. unat b + 256 * n) bs 0"

text \<open>Six bytes of the MD5 sum, read as a little-endian number, which a \<open>float64\<close> holds exactly.\<close>

definition computeConfigHash :: "(string \<Rightarrow> 8 word list) \<Rightarrow> string \<Rightarrow> nat" where
  "computeConfigHash md5 content = le_value (take 6 (md5 content) @ [0, 0])"

definition loadConfig ::
  "(string \<Rightarrow> goerr + string) \<Rightarrow> (string \<Rightarrow> goerr + (string \<rightharpoonup> setting_value)) \<Rightarrow> (string \<Rightarrow> 8 word list) \<Rightarrow>
     string \<Rightarrow> viper \<Rightarrow> nat \<Rightarrow> goerr option \<times> viper \<times> nat" where
  "loadConfig read toml md5 file v gauge =
     (if file = '''' then (None, v, 0)
      else case read file of
        Inl err \<Rightarrow> (Some err, v, gauge)
      | Inr content \<Rightarrow>
          (case toml content of
             Inl err \<Rightarrow> (Some err, v\<lparr>config_file := Map.empty\<rparr>, computeConfigHash md5 content)
           | Inr m \<Rightarrow> (None, v\<lparr>config_file := m\<rparr>, computeConfigHash md5 content)))"

section \<open>What the commands read\<close>

lemmas flag_tables =
  bound_flags_def config_file_flag_def etcd_flags_def failover_flags_def proxy_flags_def supervise_flags_def pgbouncer_flags_def

text \<open>No two flags share a name, although they are bound to one \<open>viper\<close>.\<close>

lemma bound_flags_distinct: "distinct (map fst bound_flags)"
  by (simp add: flag_tables)

text \<open>A key with no value but the default of its flag.\<close>

definition unset :: "viper \<Rightarrow> string \<Rightarrow> bool" where
  "unset v key \<longleftrightarrow> changed v key = None \<and> (environ v (env_name key) = None \<or> environ v (env_name key) = Some '''') \<and>
     config_file v key = None"

lemma find_unset: "unset v key \<Longrightarrow> find v key = map_option fst (map_of (flags v) key)"
  by (auto simp: find_def unset_def)

lemma unregistered_zero:
  assumes "flags v = bound_flags" and "dom (changed v) \<subseteq> fst ` set (flags v)"
    and "environ v (env_name key) = None \<or> environ v (env_name key) = Some ''''" and "config_file v key = None"
    and key: "key \<notin> fst ` set bound_flags"
  shows "GetDuration cv v key = 0"
proof -
  have "unset v key" using assms by (auto simp: unset_def domIff)
  moreover have "map_of bound_flags key = None" using key by (simp add: map_of_eq_None_iff)
  ultimately show ?thesis using assms(1) by (simp add: GetDuration_def find_unset)
qed

definition misnamed :: "string list" where
  "misnamed = [''pgbouncer-retry-timeout'', ''etcd-dial-keep-alive-time'', ''etcd-dial-keep-alive-timeout'']"

lemma misnamed_unregistered:
  assumes "key \<in> set misnamed"
  shows "key \<notin> fst ` set bound_flags"
proof -
  have "list_all (\<lambda>key. key \<notin> fst ` set bound_flags) misnamed"
    by (simp add: misnamed_def flag_tables)
  then have "\<forall>key \<in> set misnamed. key \<notin> fst ` set bound_flags" by (simp only: list_all_iff)
  then show ?thesis using assms by (rule bspec)
qed

text \<open>
  C38. Three settings are read under keys that no flag has: unless the environment or the configuration file
  sets these very keys, the retry interval of the proxy and both keep-alive durations of the etcd client
  are zero, whatever the command line says, and a failed reload is retried at once.
\<close>

theorem misnamed_settings_are_zero:
  assumes "flags v = bound_flags" and "dom (changed v) \<subseteq> fst ` set (flags v)"
    and "\<And>key. key \<in> set misnamed \<Longrightarrow>
      (environ v (env_name key) = None \<or> environ v (env_name key) = Some '''') \<and> config_file v key = None"
  shows "FoldInterval (proxy_fold_options cv v ctx) = 0 \<and> time_add t (FoldInterval (proxy_fold_options cv v ctx)) = t \<and>
    DialKeepAliveTime (mustEtcdClient cv v) = 0 \<and> DialKeepAliveTimeout (mustEtcdClient cv v) = 0"
proof -
  have zero: "GetDuration cv v key = 0" if key: "key \<in> set misnamed" for key
    using assms(3) [OF key] misnamed_unregistered [OF key] by (intro unregistered_zero [OF assms(1,2)]) simp_all
  show ?thesis
    by (simp add: proxy_fold_options_def mustEtcdClient_def time_add_def zero misnamed_def)
qed

text \<open>
  The flags of the failover command are the ones its options are read from: when nothing sets them, the
  options are the documented defaults, so that the servers are asked for a pause of at most 25 seconds.
\<close>

theorem failover_defaults:
  assumes "flags v = bound_flags" and "\<And>key. unset v key"
    and "\<And>s. ToString cv (VString s) = s" and "\<And>d. ToDuration cv (VDuration d) = d"
  shows "failover_options cv v = default_options \<and> Expiry (pause_request (failover_options cv v)) = 25"
proof -
  have g: "find v key = map_option fst (map_of bound_flags key)" for key
    using assms(1,2) find_unset by simp
  have o: "failover_options cv v = default_options"
    using assms(3,4) by (simp add: failover_options_def default_options_def GetString_def GetDuration_def g flag_tables)
  have "sint (25 * Second) = 25000000000" by (simp add: Second_def)
  then have "whole_seconds (25 * Second) = 25" by (simp add: whole_seconds_def duration_div_Second signed_divide_int_def)
  with o show ?thesis by (simp add: pause_request_def default_options_def)
qed

section \<open>The gauge of the configuration\<close>

lemma byte_less: "unat (b :: 8 word) < 256"
  using unsigned_less [of b] by simp

lemma le_value_bound: "le_value bs < 256 ^ length bs"
proof (induction bs)
  case Nil
  then show ?case by (simp add: le_value_def)
next
  case (Cons b bs)
  have "unat b < 256" by (rule byte_less)
  with Cons show ?case by (simp add: le_value_def)
qed

lemma le_value_inj: "length xs = length ys \<Longrightarrow> le_value xs = le_value ys \<Longrightarrow> xs = ys"
proof (induction xs ys rule: list_induct2)
  case Nil
  then show ?case by simp
next
  case (Cons x xs y ys)
  note lt = byte_less [of x] byte_less [of y]
  have eq: "unat x + 256 * le_value xs = unat y + 256 * le_value ys" using Cons.prems by (simp add: le_value_def)
  from arg_cong [OF eq, of "\<lambda>n. n mod 256"] arg_cong [OF eq, of "\<lambda>n. n div 256"]
  have "unat x = unat y" "le_value xs = le_value ys" using lt by simp_all
  with Cons.IH show ?case by (simp add: word_unat_eq_iff)
qed

lemma le_value_zeros [simp]: "le_value (bs @ [0, 0]) = le_value bs"
  by (simp add: le_value_def)

text \<open>
  The gauge is a whole number below 2^48, so that a \<open>float64\<close> holds it exactly, and two configuration
  files have the same gauge exactly when their MD5 sums begin with the same six bytes.
\<close>

theorem computeConfigHash_exact:
  assumes "\<And>content. length (md5 content) = 16"
  shows "computeConfigHash md5 c1 < 2 ^ 48 \<and>
    (computeConfigHash md5 c1 = computeConfigHash md5 c2 \<longleftrightarrow> take 6 (md5 c1) = take 6 (md5 c2))"
proof -
  have len: "length (take 6 (md5 c)) = 6" for c using assms by simp
  have "le_value (take 6 (md5 c1)) < 256 ^ 6" using le_value_bound [of "take 6 (md5 c1)"] len by simp
  moreover have "le_value (take 6 (md5 c1)) = le_value (take 6 (md5 c2)) \<longleftrightarrow> take 6 (md5 c1) = take 6 (md5 c2)"
    using le_value_inj [of "take 6 (md5 c1)" "take 6 (md5 c2)"] len by auto
  ultimately show ?thesis by (simp add: computeConfigHash_def)
qed

text \<open>An empty environment, and a digest for the witnesses.\<close>

definition plain_viper :: viper where
  "plain_viper = \<lparr>flags = bound_flags, changed = Map.empty, environ = Map.empty, config_file = Map.empty\<rparr>"

definition plain_casts :: casts where
  "plain_casts =
     \<lparr>ToString = (\<lambda>x. case x of VString s \<Rightarrow> s | _ \<Rightarrow> ''''),
      ToStringSlice = (\<lambda>x. case x of VStrings l \<Rightarrow> l | _ \<Rightarrow> []),
      ToDuration = (\<lambda>x. case x of VDuration d \<Rightarrow> d | _ \<Rightarrow> 0)\<rparr>"

theorem misnamed_settings_are_zero_witness:
  "FoldInterval (proxy_fold_options plain_casts
     (plain_viper\<lparr>changed := [''pgbouncer-retry-interval'' \<mapsto> VDuration (9 * Second)]\<rparr>) Background) = 0"
  using misnamed_settings_are_zero [of "plain_viper\<lparr>changed := [''pgbouncer-retry-interval'' \<mapsto> VDuration (9 * Second)]\<rparr>"
      plain_casts Background]
  by (simp add: plain_viper_def flag_tables)

end
