(* ===== verification/Proxy.thy ===== *)
theory Proxy
  imports Config
begin

text \<open>
  The proxy (\<open>pkg/cmd/proxy.go\<close>): the etcd stream of the host key, through the revision filter, into a fold
  that points PgBouncer at the host of each event. The locale \<open>operation\<close> of \<open>Fold\<close> is interpreted on
  the proxy's operation, and the last theorem follows an event from the stream to the pooler.
\<close>

section \<open>The code\<close>

text \<open>The operation; with a \<open>nil\<close> event the first access to its value panics.\<close>

definition proxy_operation :: "'w PgBouncer \<Rightarrow> 'w os \<Rightarrow> 't templating \<Rightarrow> 'w operation" where
  "proxy_operation b os tm ctx kv w =
     (case kv of
        None \<Rightarrow> (Panic NilDereference, w)
      | Some k \<Rightarrow>
          (case GenerateConfig b os tm (Value k) w of
             (Ok _, w') \<Rightarrow> map_prod of_err id (Reload b ctx w')
           | (Err err, w') \<Rightarrow> (Err err, w')
           | (Panic p, w') \<Rightarrow> (Panic p, w')))"

text \<open>
  A run of the proxy, for the events of its goroutines: what the stream has sent is what the revision
  filter receives, and what that passes on is what the fold receives.
\<close>

definition proxy_run ::
  "'w PgBouncer \<Rightarrow> 'w os \<Rightarrow> 't templating \<Rightarrow> RetryFoldOptions \<Rightarrow> KeyValue list \<times> bool \<Rightarrow> fold_event list \<Rightarrow>
     time \<Rightarrow> 'w \<Rightarrow> 'w fold_state option" where
  "proxy_run b os tm fo str es t w =
     (if delivers es (RevisionFilter str) then fold_run fo (proxy_operation b os tm) es (RetryFold t w) else None)"

section \<open>The pooler follows the host key\<close>

text \<open>
  The pooler serves a host: the configuration file was written with the template rendered for this host,
  and then the pooler has reloaded it.
\<close>

definition serves :: "'w PgBouncer \<Rightarrow> 'w os \<Rightarrow> 't templating \<Rightarrow> string \<Rightarrow> 'w \<Rightarrow> bool" where
  "serves b os tm host w \<longleftrightarrow> (\<exists>w0 w1 ctx content t config.
     ReadFile os (ConfigTemplateFile b) w0 = Inr content \<and> Parse tm content = Inr t \<and>
     Render tm t host = Inr config \<and> WriteFile os (ConfigFile b) config w0 = (None, w1) \<and>
     Reload b ctx w1 = (None, w))"

lemma GenerateConfig_Ok:
  assumes "GenerateConfig b os tm host w = (Ok u, w1)"
  shows "\<exists>content t config. ReadFile os (ConfigTemplateFile b) w = Inr content \<and> Parse tm content = Inr t \<and>
    Render tm t host = Inr config \<and> WriteFile os (ConfigFile b) config w = (None, w1)"
proof -
  obtain content where c: "ReadFile os (ConfigTemplateFile b) w = Inr content" "match_float_digits content"
    using assms by (auto simp: GenerateConfig_def createTemplate_def split: sum.splits if_splits)
  then obtain t where t: "Parse tm content = Inr t"
    using assms by (auto simp: GenerateConfig_def createTemplate_def split: sum.splits)
  then obtain config where r: "Render tm t host = Inr config"
    using assms c by (auto simp: GenerateConfig_def createTemplate_def split: sum.splits)
  with assms c t have "WriteFile os (ConfigFile b) config w = (None, w1)"
    by (auto simp: GenerateConfig_def createTemplate_def split: prod.splits)
  with c t r show ?thesis by blast
qed

interpretation proxy: operation "proxy_operation b os tm" "\<lambda>kv. serves b os tm (Value kv)" True
  for b :: "'w PgBouncer" and os and tm :: "'t templating"
proof unfold_locales
  show "proxy_operation b os tm ctx None w = (Panic NilDereference, w)" for ctx w
    by (simp add: proxy_operation_def)
  show "serves b os tm (Value kv) w'" if op: "proxy_operation b os tm ctx (Some kv) w = (Ok u, w')" for ctx kv w u w'
  proof -
    obtain r w1 where g: "GenerateConfig b os tm (Value kv) w = (r, w1)" by fastforce
    with op obtain u' where "r = Ok u'" by (cases r) (auto simp: proxy_operation_def)
    with op g have g: "GenerateConfig b os tm (Value kv) w = (Ok u', w1)" and r: "Reload b ctx w1 = (None, w')"
      by (cases "Reload b ctx w1"; auto simp: proxy_operation_def)+
    from GenerateConfig_Ok [OF g] r show ?thesis unfolding serves_def by blast
  qed
qed

lemma newest_served:
  assumes opt: "Keys so = [k]" and src: "get_ok get"
    and stream: "(stream_step so get)\<^sup>*\<^sup>* (Etcd.NewStream so now w0) src"
    and some: "\<exists>kv \<in> set (sent src). 0 < ModRevision kv"
    and run: "proxy_run b os tm fo (sent src, closed src) es t w = Some s"
    and idle: "quiet s"
  shows "\<exists>kv \<in> set (sent src). Key kv = k \<and> (\<forall>kv' \<in> set (sent src). ModRevision kv' \<le> ModRevision kv) \<and>
    serves b os tm (Value kv) (world s)"
proof -
  have keys: "\<forall>kv \<in> set (sent src). Key kv = k"
    using etcd.sent_keys [OF _ stream] src opt by auto
  let ?out = "fst (RevisionFilter (sent src, closed src))"
  have last: "?out \<noteq> []" "last ?out \<in> set (sent src)" "\<forall>kv' \<in> set (sent src). ModRevision kv' \<le> ModRevision (last ?out)"
    using revision_last [OF keys some, of "closed src"] by blast+
  have rec: "received es = ?out" and fold: "fold_run fo (proxy_operation b os tm) es (RetryFold t w) = Some s"
    using run by (auto simp: proxy_run_def delivers_def split: if_splits)
  have "serves b os tm (Value (last ?out)) (world s)"
    using proxy.latest_applied [OF TrueI fold idle] rec last(1) by simp
  with last(2,3) keys show ?thesis by blast
qed

text \<open>
  C17. The pooler ends up at the newest master: whatever order, repetition and staleness the events of the
  stream have, when the fold is idle, or has returned because the stream was closed, the pooler serves the
  host of the event with the greatest revision among all that the stream has sent for its key.
\<close>

theorem proxy_serves_newest:
  assumes opt: "Keys so = [k]" and src: "get_ok get"
    and stream: "(stream_step so get)\<^sup>*\<^sup>* (Etcd.NewStream so now w0) src"
    and some: "\<exists>kv \<in> set (sent src). 0 < ModRevision kv"
    and run: "proxy_run b os tm fo (sent src, closed src) es t w = Some s"
    and idle: "quiet s"
  shows "\<exists>kv \<in> set (sent src). Key kv = k \<and> (\<forall>kv' \<in> set (sent src). ModRevision kv' \<le> ModRevision kv) \<and>
    serves b os tm (Value kv) (world s)"
  by (rule newest_served [OF assms])

text \<open>
  C36. If the stream is closed while the proxy waits to retry, the closed channel is taken for an event: after
  a first event whose operation failed, the closing of the stream makes the next attempt run on a
  \<open>nil\<close> event, and the process panics instead of returning.
\<close>

theorem proxy_close_panics:
  assumes fresh: "0 < ModRevision kv"
    and fails: "proxy_operation b os tm (WithTimeout (FoldCtx fo) t (FoldTimeout fo)) (Some kv) w = (Err err, w')"
  shows "map_option fold_pc (proxy_run b os tm fo ([kv], True) [Recv kv, Begin, Finish, RecvClosed, Begin, Finish] t w) =
    Some (Panicked NilDereference)"
proof -
  let ?op = "proxy_operation b os tm"
  let ?s = "\<lparr>fold_pc = Selecting (time_add t (FoldInterval fo)) (Some kv), clock = t, world = w'\<rparr>"
  have "fold_run fo ?op [Recv kv, Begin, Finish] (RetryFold t w) = Some ?s"
    using fails by (simp add: RetryFold_def)
  then have "fold_run fo ?op ([Recv kv, Begin, Finish] @ [RecvClosed, Begin, Finish]) (RetryFold t w) =
      fold_run fo ?op [RecvClosed, Begin, Finish] ?s" unfolding fold_run_append by simp
  moreover have "map_option fold_pc (fold_run fo ?op [RecvClosed, Begin, Finish] ?s) = Some (Panicked NilDereference)"
    by (rule proxy.close_in_retry_panics) simp
  moreover have "delivers [Recv kv, Begin, Finish, RecvClosed, Begin, Finish] (RevisionFilter ([kv], True))"
    using fresh by (simp add: delivers_def RevisionFilter_def revision_step_def previous_revision_def)
  ultimately show ?thesis by (simp add: proxy_run_def del: fold_run.simps)
qed

section \<open>A proxy for the witnesses\<close>

text \<open>
  The world is the configuration file and the configuration loaded; the console can refuse to reload.
\<close>

definition file_os :: "(string \<times> string) os" where
  "file_os = \<lparr>ReadFile = (\<lambda>f w. Inr ''ignore_startup_parameters = extra_float_digits''),
     WriteFile = (\<lambda>f content w. (None, (content, snd w)))\<rparr>"

definition host_template :: "string templating" where
  "host_template = \<lparr>Parse = Inr, Render = (\<lambda>t host. Inr host)\<rparr>"

definition loading_bouncer :: "bool \<Rightarrow> (string \<times> string) PgBouncer" where
  "loading_bouncer refuses = \<lparr>ConfigFile = ''ini'', ConfigTemplateFile = ''template'', Executor =
     \<lparr>Query = (\<lambda>ctx q w. (Inl (Plain ''no rows''), w)),
      Execute = (\<lambda>ctx q w. if refuses then (Some (Plain ''refused''), w) else (None, (fst w, fst w))),
      scan_string = Inr, scan_int = (\<lambda>c. Inr None)\<rparr>\<rparr>"

definition example_fold :: RetryFoldOptions where
  "example_fold = \<lparr>FoldCtx = Background, FoldInterval = Second, FoldTimeout = Second\<rparr>"

lemma example_template: "match_float_digits ''ignore_startup_parameters = extra_float_digits''"
  unfolding match_float_digits_iff names_float_digits_def
  by (intro exI [of _ "''''"] exI [of _ "'' ''"]) (auto simp: re_space_def)

lemma loading_operation:
  "proxy_operation (loading_bouncer r) file_os host_template ctx (Some kv) w =
     (if r then (Err (Plain ''refused''), (Value kv, snd w)) else (Ok (), (Value kv, Value kv)))"
  using example_template
  by (simp add: proxy_operation_def GenerateConfig_def createTemplate_def file_os_def host_template_def
      loading_bouncer_def Reload_def)

theorem proxy_close_panics_witness:
  "map_option fold_pc (proxy_run (loading_bouncer True) file_os host_template example_fold ([makeKv ''/master'' ''h'' 3], True)
     [Recv (makeKv ''/master'' ''h'' 3), Begin, Finish, RecvClosed, Begin, Finish] 0 ([], [])) = Some (Panicked NilDereference)"
  by (rule proxy_close_panics [OF _ loading_operation [of True, simplified]]) (simp add: makeKv_def)

text \<open>A stream that forwards one event of the watch, and the run of the proxy on it.\<close>

lemma example_stream_sends:
  assumes "Key kv = ''/master''"
  shows "\<exists>src. (stream_step example_stream missing_getter)\<^sup>*\<^sup>* (Etcd.NewStream example_stream 0 ()) src \<and>
    sent src = [kv] \<and> \<not> closed src"
proof -
  let ?s0 = "Etcd.NewStream example_stream 0 ()"
  let ?s1 = "?s0\<lparr>watch_pc := Forwarding [\<lparr>Type = PUT, Kv = kv\<rparr>]\<rparr>"
  let ?s2 = "send kv (?s1\<lparr>watch_pc := Forwarding []\<rparr>)"
  have "stream_step example_stream missing_getter ?s0 ?s1" by (rule stream_step.response) (simp add: Etcd.NewStream_def)
  moreover have "stream_step example_stream missing_getter ?s1 ?s2"
    using stream_step.forward [of ?s1 "\<lparr>Type = PUT, Kv = kv\<rparr>" "[]" example_stream missing_getter] assms
    by (simp add: example_stream_def)
  ultimately have "(stream_step example_stream missing_getter)\<^sup>*\<^sup>* ?s0 ?s2" by (meson r_into_rtranclp rtranclp_trans)
  moreover have "sent ?s2 = [kv]" "\<not> closed ?s2" by (simp_all add: Etcd.NewStream_def)
  ultimately show ?thesis by blast
qed

lemma example_proxy_run:
  assumes "0 < ModRevision kv"
  shows "proxy_run (loading_bouncer False) file_os host_template example_fold ([kv], False) [Recv kv, Begin, Finish] 0 ([], []) =
    Some \<lparr>fold_pc = Receiving, clock = 0, world = (Value kv, Value kv)\<rparr>"
proof -
  have "delivers [Recv kv, Begin, Finish] (RevisionFilter ([kv], False))"
    using assms by (simp add: delivers_def RevisionFilter_def revision_step_def previous_revision_def)
  moreover have "fold_run example_fold (proxy_operation (loading_bouncer False) file_os host_template)
      [Recv kv, Begin, Finish] (RetryFold 0 ([], [])) = Some \<lparr>fold_pc = Receiving, clock = 0, world = (Value kv, Value kv)\<rparr>"
    by (simp add: RetryFold_def loading_operation)
  ultimately show ?thesis by (simp add: proxy_run_def)
qed

theorem proxy_serves_newest_witness:
  "\<exists>s. proxy_run (loading_bouncer False) file_os host_template example_fold ([makeKv ''/master'' ''h'' 3], False)
       [Recv (makeKv ''/master'' ''h'' 3), Begin, Finish] 0 ([], []) = Some s \<and>
     serves (loading_bouncer False) file_os host_template ''h'' (world s)"
proof -
  let ?kv = "makeKv ''/master'' ''h'' 3"
  let ?s = "\<lparr>fold_pc = Receiving, clock = 0, world = (Value ?kv, Value ?kv)\<rparr>"
  have "Key ?kv = ''/master''" and fresh: "0 < ModRevision ?kv" by (simp_all add: makeKv_def)
  from example_stream_sends [OF this(1)] obtain src
    where src: "(stream_step example_stream missing_getter)\<^sup>*\<^sup>* (Etcd.NewStream example_stream 0 ()) src"
      "sent src = [?kv]" "\<not> closed src" by blast
  have k: "Keys example_stream = [''/master'']" by (simp add: example_stream_def)
  note run = example_proxy_run [OF fresh]
  have "serves (loading_bouncer False) file_os host_template (Value ?kv) (world ?s)"
    using proxy_serves_newest [OF k missing_getter_ok src(1), of "loading_bouncer False" file_os host_template example_fold
        "[Recv ?kv, Begin, Finish]" 0 "([], [])" ?s] src(2,3) run fresh by (simp add: quiet_def)
  with run show ?thesis by (intro exI [of _ ?s]) (simp add: makeKv_def)
qed

end
