(* ===== verification/Server.thy ===== *)
theory Server
  imports Messages Pacemaker Bouncer
begin

text \<open>
  The failover server on each node (\<open>pkg/failover/server.go\<close>): health check, pause with its scheduled
  resume, resume, migrate, unmigrate and the logging interceptor.

  The state of the server process is the world \<open>env\<close> of the pooler and the cluster, the goroutines that
  sleep until a scheduled resume (\<open>timers\<close>, by the moment they wake) and the errors that these resumes
  have logged. The step relation \<open>srv_step\<close> interleaves requests, the waking goroutines and time.
\<close>

section \<open>The code\<close>

record 'w srv =
  env :: 'w
  timers :: "time list"
  failed_resumes :: "goerr list"

record 'w Server =
  bouncer :: "'w pauser"
  crm_of :: "'w crm"
  Now :: "'w \<Rightarrow> time"    \<comment> \<open>\<open>clock.Now()\<close>\<close>

text \<open>\<open>time.Duration(n) * time.Second\<close> for an \<open>int32\<close>.\<close>

definition seconds :: "int32 \<Rightarrow> duration" where
  "seconds n = scast n * Second"

definition Server_TimestampProto :: "time \<Rightarrow> Timestamp outcome" where
  "Server_TimestampProto t =
     (case TimestampProto t of
        Inr ts \<Rightarrow> Ok ts
      | Inl err \<Rightarrow> Panic (Explicit ''failed to convert what should have been an entirely safe timestamp''))"

definition Server_HealthCheck :: "'w Server \<Rightarrow> ctx \<Rightarrow> 'w srv \<Rightarrow> HealthCheckResponse outcome \<times> 'w srv" where
  "Server_HealthCheck s ctx w = (Ok \<lparr>status = HEALTHY\<rparr>, w)"

definition Server_Pause :: "'w Server \<Rightarrow> ctx \<Rightarrow> PauseRequest \<Rightarrow> 'w srv \<Rightarrow> PauseResponse outcome \<times> 'w srv" where
  "Server_Pause s ctx req w =
     (let createdAt = Now s (env w);
          timeoutAt = time_add createdAt (seconds (Timeout req));
          expiresAt = time_add createdAt (seconds (Expiry req));
          timeoutCtx = WithDeadline ctx timeoutAt in
      case pauser_Pause (bouncer s) timeoutCtx (env w) of
        (Some err, e) \<Rightarrow>
          (Err (if \<not> ctx_expired timeoutCtx (Now s e) then Status ''Unknown'' (err_string err)
                else Status ''DeadlineExceeded'' ''exceeded pause timeout''), w\<lparr>env := e\<rparr>)
      | (None, e) \<Rightarrow>
          (let w' = w\<lparr>env := e, timers := (if 0 <s Expiry req then timers w @ [expiresAt] else timers w)\<rparr> in
           case Server_TimestampProto createdAt of
             Err x \<Rightarrow> (Err x, w')
           | Panic p \<Rightarrow> (Panic p, w')
           | Ok created \<Rightarrow>
               (case Server_TimestampProto expiresAt of
                  Err x \<Rightarrow> (Err x, w')
                | Panic p \<Rightarrow> (Panic p, w')
                | Ok expires \<Rightarrow>
                    (Ok \<lparr>PauseCreatedAt = Some created, PauseExpiresAt = Some expires\<rparr>, w'))))"

text \<open>The goroutine of a pause, once its sleep is over.\<close>

definition scheduled_resume :: "'w Server \<Rightarrow> 'w srv \<Rightarrow> 'w srv" where
  "scheduled_resume s w =
     (case pauser_Resume (bouncer s) Background (env w) of
        (None, e) \<Rightarrow> w\<lparr>env := e\<rparr>
      | (Some err, e) \<Rightarrow> w\<lparr>env := e, failed_resumes := failed_resumes w @ [err]\<rparr>)"

definition Server_Resume :: "'w Server \<Rightarrow> ctx \<Rightarrow> 'w srv \<Rightarrow> ResumeResponse outcome \<times> 'w srv" where
  "Server_Resume s ctx w =
     (case pauser_Resume (bouncer s) ctx (env w) of
        (Some err, e) \<Rightarrow> (Err (Status ''Unknown'' (''failed to resume pgbouncer: '' @ err_string err)), w\<lparr>env := e\<rparr>)
      | (None, e) \<Rightarrow>
          (map_outcome (\<lambda>ts. \<lparr>ResumeCreatedAt = Some ts\<rparr>) (Server_TimestampProto (Now s e)), w\<lparr>env := e\<rparr>))"

definition Server_Migrate :: "'w Server \<Rightarrow> ctx \<Rightarrow> 'w srv \<Rightarrow> MigrateResponse outcome \<times> 'w srv" where
  "Server_Migrate s ctx w =
     (case crm_Get (crm_of s) ctx [SyncXPath] (env w) of
        (Panic p, e) \<Rightarrow> (Panic p, w\<lparr>env := e\<rparr>)
      | (Err err, e) \<Rightarrow> (Err (Status ''Unknown'' (''failed to query cib: '' @ err_string err)), w\<lparr>env := e\<rparr>)
      | (Ok [], e) \<Rightarrow> (Panic IndexOutOfRange, w\<lparr>env := e\<rparr>)
      | (Ok (None # _), e) \<Rightarrow> (Err (Status ''NotFound'' ''failed to find sync node''), w\<lparr>env := e\<rparr>)
      | (Ok (Some sync # _), e) \<Rightarrow>
          (let syncHost = SelectAttrValue sync ''uname'' ''''; syncID = SelectAttrValue sync ''id'' '''' in
           case crm_ResolveAddress (crm_of s) ctx syncID e of
             (Inl err, e') \<Rightarrow>
               (Err (Status ''Unknown'' (''failed to resolve sync host IP address: '' @ err_string err)), w\<lparr>env := e'\<rparr>)
           | (Inr syncAddress, e') \<Rightarrow>
               (case crm_Migrate (crm_of s) ctx syncHost e' of
                  (Some err, e'') \<Rightarrow>
                    (Err (Status ''Unknown'' ([quote] @ ''crm resource migrate '' @ syncHost @ [quote] @
                       '' failed: '' @ err_string err)), w\<lparr>env := e''\<rparr>)
                | (None, e'') \<Rightarrow>
                    (map_outcome (\<lambda>ts. \<lparr>MigratingTo = syncHost, Address = syncAddress, MigrateCreatedAt = Some ts\<rparr>)
                       (Server_TimestampProto (Now s e'')), w\<lparr>env := e''\<rparr>))))"

definition Server_Unmigrate :: "'w Server \<Rightarrow> ctx \<Rightarrow> 'w srv \<Rightarrow> UnmigrateResponse outcome \<times> 'w srv" where
  "Server_Unmigrate s ctx w =
     (case crm_Unmigrate (crm_of s) ctx (env w) of
        (Some err, e) \<Rightarrow> (Err (Status ''Unknown'' (''crm resource unmigrate failed: '' @ err_string err)), w\<lparr>env := e\<rparr>)
      | (None, e) \<Rightarrow>
          (map_outcome (\<lambda>ts. \<lparr>UnmigrateCreatedAt = Some ts\<rparr>) (Server_TimestampProto (Now s e)), w\<lparr>env := e\<rparr>))"

text \<open>\<open>NewServer\<close> behind the interface that is registered with \<open>grpc\<close>.\<close>

definition NewServer :: "'w pauser \<Rightarrow> 'w crm \<Rightarrow> ('w \<Rightarrow> time) \<Rightarrow> 'w Server" where
  "NewServer b c now = \<lparr>bouncer = b, crm_of = c, Now = now\<rparr>"

definition failover_server :: "'w Server \<Rightarrow> 'w srv FailoverServer" where
  "failover_server s =
     \<lparr>server_HealthCheck = Server_HealthCheck s, server_Pause = Server_Pause s,
      server_Resume = Server_Resume s, server_Migrate = Server_Migrate s,
      server_Unmigrate = Server_Unmigrate s\<rparr>"

text \<open>
  The interceptor logs the request before and the duration, with the error if there is one, after the
  handler, also when it panics; \<open>log\<close> writes a line, \<open>trace\<close> and \<open>elapsed\<close> are the generated values.
\<close>

definition LoggingInterceptor ::
  "((string \<times> string) list \<Rightarrow> 'w \<Rightarrow> 'w) \<Rightarrow> string \<Rightarrow> ('w \<Rightarrow> string) \<Rightarrow> 'w interceptor" where
  "LoggingInterceptor log trace elapsed ctx req FullMethod handler w =
     (let fields = [(''method'', FullMethod), (''trace'', trace)] in
      case handler ctx req (log (fields @ [(''msg'', ''handling request'')]) w) of
        (resp, w') \<Rightarrow>
          (resp, log (fields @ (case resp of Err e \<Rightarrow> [(''error'', err_string e)] | _ \<Rightarrow> []) @
             [(''duration'', elapsed w')]) w'))"

section \<open>Durations of the requests\<close>

text \<open>The product does not overflow: every \<open>int32\<close> number of seconds is an \<open>int64\<close> of nanoseconds.\<close>

lemma sint_seconds: "sint (seconds n) = sint n * 1000000000"
proof -
  have b: "- (2 ^ 31) \<le> sint n" "sint n < 2 ^ 31"
    using sint_ge [of n] sint_lt [of n] by simp_all
  have "sint (scast n :: duration) = sint n"
    by (rule sint_up_scast) (simp add: is_up)
  then have "sint (seconds n) = signed_take_bit 63 (sint n * 1000000000)"
    by (simp add: seconds_def sint_word_ariths(3))
  also have "\<dots> = sint n * 1000000000"
    using b by (intro signed_take_bit_int_eq_self) auto
  finally show ?thesis .
qed

lemma time_add_seconds [simp]: "time_add t (seconds n) = t + sint n * 1000000000"
  by (simp add: time_add_def sint_seconds)

section \<open>Pausing\<close>

lemma Server_TimestampProto_valid:
  "valid_time t \<Longrightarrow> \<exists>ts. Server_TimestampProto t = Ok ts \<and> Timestamp_time (Some ts) = (t, None)"
  using TimestampProto_reads [of t] valid_unix_time [of t] by (cases "TimestampProto t") (auto simp: Server_TimestampProto_def)

text \<open>
  C19. What a pause request does, on every branch: the pooler is asked to pause with the earlier of the
  caller's deadline and \<open>Timeout\<close> seconds from the arrival. If the pooler reports an error nothing is
  scheduled, and the caller sees \<open>DeadlineExceeded\<close> exactly if that deadline has passed by then,
  otherwise \<open>Unknown\<close> with the error. If the pooler is paused, a resume is scheduled for the moment
  that the answer gives as the expiry, provided that the requested expiry is positive.
\<close>

theorem Server_Pause_result:
  assumes created: "t = Now s (env w)" and times: "valid_time t" "valid_time (t + sint (Expiry req) * 1000000000)"
    and call: "pauser_Pause (bouncer s) (WithDeadline ctx (t + sint (Timeout req) * 1000000000)) (env w) = (r, e)"
  shows "case r of
      Some err \<Rightarrow> Server_Pause s ctx req w =
        (Err (if ctx_expired ctx (Now s e) \<or> t + sint (Timeout req) * 1000000000 \<le> Now s e
              then Status ''DeadlineExceeded'' ''exceeded pause timeout''
              else Status ''Unknown'' (err_string err)), w\<lparr>env := e\<rparr>)
    | None \<Rightarrow> (\<exists>resp. fst (Server_Pause s ctx req w) = Ok resp \<and>
        Timestamp_time (PauseCreatedAt resp) = (t, None) \<and>
        Timestamp_time (PauseExpiresAt resp) = (t + sint (Expiry req) * 1000000000, None)) \<and>
        snd (Server_Pause s ctx req w) = w\<lparr>env := e, timers := timers w @
          (if 0 < sint (Expiry req) then [t + sint (Expiry req) * 1000000000] else [])\<rparr>"
proof (cases r)
  case None
  from Server_TimestampProto_valid [OF times(1)] Server_TimestampProto_valid [OF times(2)]
  obtain c x where c: "Server_TimestampProto t = Ok c" "Timestamp_time (Some c) = (t, None)"
    and x: "Server_TimestampProto (t + sint (Expiry req) * 1000000000) = Ok x"
      "Timestamp_time (Some x) = (t + sint (Expiry req) * 1000000000, None)" by blast
  with None call created show ?thesis
    by (simp add: Server_Pause_def Let_def word_sless_alt)
next
  case (Some err)
  with call created show ?thesis by (simp add: Server_Pause_def Let_def)
qed

section \<open>The safety belt\<close>

datatype 'w srv_event =
    PauseRequested ctx PauseRequest
  | ResumeRequested ctx
  | MigrateRequested ctx
  | UnmigrateRequested ctx
  | Wake time
  | Elapse 'w

inductive srv_step :: "'w Server \<Rightarrow> ('w \<Rightarrow> bool) \<Rightarrow> 'w srv_event \<Rightarrow> 'w srv \<Rightarrow> 'w srv \<Rightarrow> bool"
  for s :: "'w Server" and paused where
  pause_request: "srv_step s paused (PauseRequested ctx req) w (snd (Server_Pause s ctx req w))"
| resume_request: "srv_step s paused (ResumeRequested ctx) w (snd (Server_Resume s ctx w))"
| migrate_request: "srv_step s paused (MigrateRequested ctx) w (snd (Server_Migrate s ctx w))"
| unmigrate_request: "srv_step s paused (UnmigrateRequested ctx) w (snd (Server_Unmigrate s ctx w))"
| wake: "t \<in> set (timers w) \<Longrightarrow> t \<le> Now s (env w) \<Longrightarrow>
     srv_step s paused (Wake t) w (scheduled_resume s (w\<lparr>timers := remove1 t (timers w)\<rparr>))"
| elapse: "Now s (env w) \<le> Now s e \<Longrightarrow> paused e = paused (env w) \<Longrightarrow>
     srv_step s paused (Elapse e) w (w\<lparr>env := e\<rparr>)"

inductive_cases srv_step_wakeE: "srv_step s paused (Wake t) w w'"
inductive_cases srv_step_elapseE: "srv_step s paused (Elapse e) w w'"

inductive srv_run :: "'w Server \<Rightarrow> ('w \<Rightarrow> bool) \<Rightarrow> 'w srv_event list \<Rightarrow> 'w srv \<Rightarrow> 'w srv \<Rightarrow> bool"
  for s :: "'w Server" and paused where
  start: "srv_run s paused [] w w"
| step: "srv_run s paused es w w' \<Longrightarrow> srv_step s paused e w' w'' \<Longrightarrow> srv_run s paused (es @ [e]) w w''"

lemma srv_run_Cons:
  assumes "srv_run s paused es w1 w2" and "srv_step s paused e w w1"
  shows "srv_run s paused (e # es) w w2"
  using assms
proof (induction rule: srv_run.induct)
  case (start w1)
  then show ?case using srv_run.step [OF srv_run.start, of s paused e w w1] by simp
next
  case (step es w1 w2 e' w3)
  then show ?case using srv_run.step [of s paused "e # es" w w2 e' w3] by simp
qed

text \<open>
  The world of a server: the clock does not go back during a call, and the cluster commands leave the
  pooler alone.
\<close>

definition lawful_world :: "'w Server \<Rightarrow> ('w \<Rightarrow> bool) \<Rightarrow> bool" where
  "lawful_world s paused \<longleftrightarrow>
     (\<forall>ctx e. Now s e \<le> Now s (snd (pauser_Pause (bouncer s) ctx e))) \<and>
     (\<forall>ctx e. Now s e \<le> Now s (snd (pauser_Resume (bouncer s) ctx e))) \<and>
     (\<forall>ctx ps e. Now s e \<le> Now s (snd (crm_Get (crm_of s) ctx ps e)) \<and> paused (snd (crm_Get (crm_of s) ctx ps e)) = paused e) \<and>
     (\<forall>ctx n e. Now s e \<le> Now s (snd (crm_ResolveAddress (crm_of s) ctx n e)) \<and>
        paused (snd (crm_ResolveAddress (crm_of s) ctx n e)) = paused e) \<and>
     (\<forall>ctx n e. Now s e \<le> Now s (snd (crm_Migrate (crm_of s) ctx n e)) \<and>
        paused (snd (crm_Migrate (crm_of s) ctx n e)) = paused e) \<and>
     (\<forall>ctx e. Now s e \<le> Now s (snd (crm_Unmigrate (crm_of s) ctx e)) \<and>
        paused (snd (crm_Unmigrate (crm_of s) ctx e)) = paused e)"

text \<open>A pause request with an expiry of at least one and at most \<open>n\<close> seconds.\<close>

fun expiring :: "int \<Rightarrow> 'w srv_event \<Rightarrow> bool" where
  "expiring n (PauseRequested ctx req) \<longleftrightarrow> 0 < sint (Expiry req) \<and> sint (Expiry req) \<le> n"
| "expiring n _ \<longleftrightarrow> True"

definition belt :: "'w Server \<Rightarrow> ('w \<Rightarrow> bool) \<Rightarrow> int \<Rightarrow> 'w srv \<Rightarrow> bool" where
  "belt s paused n w \<longleftrightarrow>
     (paused (env w) \<longrightarrow> timers w \<noteq> [] \<or> failed_resumes w \<noteq> []) \<and>
     (\<forall>t \<in> set (timers w). t \<le> Now s (env w) + n * 1000000000)"

lemma Server_Pause_env:
  "env (snd (Server_Pause s ctx req w)) =
     snd (pauser_Pause (bouncer s) (WithDeadline ctx (Now s (env w) + sint (Timeout req) * 1000000000)) (env w))"
  "failed_resumes (snd (Server_Pause s ctx req w)) = failed_resumes w"
  "timers (snd (Server_Pause s ctx req w)) =
     (if fst (pauser_Pause (bouncer s) (WithDeadline ctx (Now s (env w) + sint (Timeout req) * 1000000000)) (env w)) = None
         \<and> 0 < sint (Expiry req)
      then timers w @ [Now s (env w) + sint (Expiry req) * 1000000000] else timers w)"
  by (auto simp: Server_Pause_def Let_def word_sless_alt split: prod.splits option.splits outcome.splits)

lemma Server_Resume_env:
  "snd (Server_Resume s ctx w) = w\<lparr>env := snd (pauser_Resume (bouncer s) ctx (env w))\<rparr>"
  by (auto simp: Server_Resume_def split: prod.splits option.splits)

lemma Server_Unmigrate_env:
  "snd (Server_Unmigrate s ctx w) = w\<lparr>env := snd (crm_Unmigrate (crm_of s) ctx (env w))\<rparr>"
  by (auto simp: Server_Unmigrate_def split: prod.splits option.splits)

lemma Server_Migrate_env:
  assumes "lawful_world s paused"
  shows "\<exists>e. snd (Server_Migrate s ctx w) = w\<lparr>env := e\<rparr> \<and> Now s (env w) \<le> Now s e \<and> paused e = paused (env w)"
proof -
  obtain r e1 where g: "crm_Get (crm_of s) ctx [SyncXPath] (env w) = (r, e1)" by fastforce
  with assms have e1: "Now s (env w) \<le> Now s e1" "paused e1 = paused (env w)"
    unfolding lawful_world_def by (metis snd_conv)+
  show ?thesis
  proof (cases "\<exists>sync rest. r = Ok (Some sync # rest)")
    case False
    then have "snd (Server_Migrate s ctx w) = w\<lparr>env := e1\<rparr>"
      by (auto simp: Server_Migrate_def g split: outcome.splits list.splits option.splits)
    with e1 show ?thesis by blast
  next
    case True
    then obtain sync rest where r: "r = Ok (Some sync # rest)" by blast
    obtain a e2 where a: "crm_ResolveAddress (crm_of s) ctx (SelectAttrValue sync ''id'' '''') e1 = (a, e2)" by fastforce
    with assms e1 have e2: "Now s (env w) \<le> Now s e2" "paused e2 = paused (env w)"
      unfolding lawful_world_def by (metis snd_conv order_trans)+
    obtain m e3 where m: "crm_Migrate (crm_of s) ctx (SelectAttrValue sync ''uname'' '''') e2 = (m, e3)" by fastforce
    with assms e2 have e3: "Now s (env w) \<le> Now s e3" "paused e3 = paused (env w)"
      unfolding lawful_world_def by (metis snd_conv order_trans)+
    have "snd (Server_Migrate s ctx w) = w\<lparr>env := (case a of Inl _ \<Rightarrow> e2 | Inr _ \<Rightarrow> e3)\<rparr>"
      by (cases a; cases m) (simp_all add: Server_Migrate_def g r a m)
    with e2 e3 show ?thesis by (cases a) auto
  qed
qed

text \<open>The server over a pauser that keeps its contract; \<open>lawful\<close> is the provider's condition.\<close>

locale pausing_server = pauser_contract "bouncer s" paused lawful
  for s :: "'w Server" and paused and lawful +
  assumes world: "lawful \<Longrightarrow> lawful_world s paused"
begin

lemma belt_pause:
  assumes lawful and ev: "expiring n (PauseRequested ctx req :: 'w srv_event)" and inv: "belt s paused n w"
  shows "belt s paused n (snd (Server_Pause s ctx req w))"
proof -
  let ?ctx = "WithDeadline ctx (Now s (env w) + sint (Timeout req) * 1000000000)"
  obtain r e where c: "pauser_Pause (bouncer s) ?ctx (env w) = (r, e)" by fastforce
  have now: "Now s (env w) \<le> Now s e"
    using world [OF assms(1)] c unfolding lawful_world_def by (metis snd_conv)
  have p: "paused e \<longleftrightarrow> r = None \<or> paused (env w)" using pause_eq [OF assms(1) c] .
  show ?thesis
    using inv ev now p unfolding belt_def Server_Pause_env c by (auto simp: Server_Pause_env c)
qed

lemma belt_resume:
  assumes lawful and inv: "belt s paused n w"
  shows "belt s paused n (snd (Server_Resume s ctx w))"
proof -
  obtain r e where c: "pauser_Resume (bouncer s) ctx (env w) = (r, e)" by fastforce
  have now: "Now s (env w) \<le> Now s e"
    using world [OF assms(1)] c unfolding lawful_world_def by (metis snd_conv)
  have "paused e \<longleftrightarrow> r \<noteq> None \<and> paused (env w)" using resume_eq [OF assms(1) c] .
  with inv now show ?thesis by (auto simp: belt_def Server_Resume_env c)
qed

lemma belt_wake:
  assumes lawful and inv: "belt s paused n w"
  shows "belt s paused n (scheduled_resume s (w\<lparr>timers := remove1 t (timers w)\<rparr>))"
proof -
  obtain r e where c: "pauser_Resume (bouncer s) Background (env w) = (r, e)" by fastforce
  have now: "Now s (env w) \<le> Now s e"
    using world [OF assms(1)] c unfolding lawful_world_def by (metis snd_conv)
  have "paused e \<longleftrightarrow> r \<noteq> None \<and> paused (env w)" using resume_eq [OF assms(1) c] .
  with inv now show ?thesis
    using set_remove1_subset [of t "timers w"]
    by (cases r) (fastforce simp: belt_def scheduled_resume_def c)+
qed

lemma belt_step:
  assumes lawful and step: "srv_step s paused ev w w'" and ev: "expiring n ev" and inv: "belt s paused n w"
  shows "belt s paused n w'"
  using step
proof cases
  case (pause_request ctx req)
  with belt_pause [OF assms(1)] ev inv show ?thesis by simp
next
  case (resume_request ctx)
  with belt_resume [OF assms(1) inv] show ?thesis by simp
next
  case (migrate_request ctx)
  with Server_Migrate_env [OF world [OF assms(1)], of ctx w] inv show ?thesis
    by (fastforce simp: belt_def)
next
  case (unmigrate_request ctx)
  have "Now s (env w) \<le> Now s (snd (crm_Unmigrate (crm_of s) ctx (env w)))"
    "paused (snd (crm_Unmigrate (crm_of s) ctx (env w))) = paused (env w)"
    using world [OF assms(1)] unfolding lawful_world_def by blast+
  with unmigrate_request inv show ?thesis by (fastforce simp: belt_def Server_Unmigrate_env)
next
  case (wake t)
  with belt_wake [OF assms(1) inv] show ?thesis by simp
next
  case (elapse e)
  with inv show ?thesis by (fastforce simp: belt_def)
qed

lemma belt_run:
  assumes lawful and "srv_run s paused es w w'" and "\<forall>e \<in> set es. expiring n e" and "belt s paused n w"
  shows "belt s paused n w'"
  using assms(2-4)
proof (induction rule: srv_run.induct)
  case (start w)
  then show ?case by simp
next
  case (step es w w' e w'')
  then show ?case using belt_step [OF assms(1) step.hyps(2)] by simp
qed

text \<open>Once every sleeping goroutine is due they can all wake, and none is left.\<close>

lemma all_wake:
  assumes lawful and "\<forall>t \<in> set (timers w). t \<le> Now s (env w)"
  shows "\<exists>w'. srv_run s paused (map Wake (timers w)) w w' \<and> timers w' = []"
proof -
  have "\<exists>w'. srv_run s paused (map Wake (rev ts)) w w' \<and> timers w' = us \<and> Now s (env w) \<le> Now s (env w')"
    if "timers w = rev ts @ us" "\<forall>t \<in> set (timers w). t \<le> Now s (env w)" for ts us w
    using that
  proof (induction ts arbitrary: us)
    case Nil
    then show ?case by (auto intro: srv_run.start)
  next
    case (Cons t ts)
    then obtain w1 where w1: "srv_run s paused (map Wake (rev ts)) w w1" "timers w1 = t # us"
      "Now s (env w) \<le> Now s (env w1)" by (metis append.assoc append_Cons append_Nil rev.simps(2))
    have "t \<le> Now s (env w1)" using Cons.prems w1(3) by force
    with w1(2) have "srv_step s paused (Wake t) w1 (scheduled_resume s (w1\<lparr>timers := remove1 t (timers w1)\<rparr>))"
      by (intro srv_step.wake) auto
    moreover have "Now s (env w1) \<le> Now s (env (scheduled_resume s (w1\<lparr>timers := remove1 t (timers w1)\<rparr>)))"
      using world [OF assms(1)] unfolding lawful_world_def
      by (auto simp: scheduled_resume_def split: prod.splits option.splits) (metis snd_conv)+
    moreover have "timers (scheduled_resume s (w1\<lparr>timers := remove1 t (timers w1)\<rparr>)) = us"
      using w1(2) by (auto simp: scheduled_resume_def split: prod.splits option.splits)
    ultimately show ?case using srv_run.step [OF w1(1)] w1(3) by (fastforce intro: order_trans)
  qed
  from this [of w "rev (timers w)" "[]"] assms(2) show ?thesis by auto
qed

end

text \<open>The server as \<open>supervise\<close> builds it: on PgBouncer and Pacemaker.\<close>

definition node_server :: "'w PgBouncer \<Rightarrow> 'w pacemaker_executor \<Rightarrow> ('w \<Rightarrow> time) \<Rightarrow> 'w Server" where
  "node_server b p now = NewServer (bouncer_pauser b) (pacemaker_crm p) now"

lemma node_server_sel [simp]:
  "bouncer (node_server b p now) = bouncer_pauser b"
  "crm_of (node_server b p now) = pacemaker_crm p"
  "Now (node_server b p now) = now"
  by (simp_all add: node_server_def NewServer_def)

interpretation node: pausing_server "node_server b p now" paused
    "console_ok (Executor b) paused \<and> lawful_world (node_server b p now) paused"
  for b :: "'w PgBouncer" and p and now and paused
  using pgb.pause_ok [of b paused] pgb.pause_err [of b paused] pgb.resume_ok [of b paused] pgb.resume_err [of b paused]
  by unfold_locales auto

definition fresh_server :: "'w \<Rightarrow> 'w srv" where
  "fresh_server e = \<lparr>env = e, timers = [], failed_resumes = []\<rparr>"

text \<open>
  C8. The safety belt of pausing. However requests, waking goroutines and time are interleaved, as long as
  every pause asks for an expiry of 1 to \<open>n\<close> seconds: a paused pooler has a resume scheduled for it
  that is due in at most \<open>n\<close> seconds, unless a scheduled resume has failed and was logged.
\<close>

theorem paused_has_resume:
  assumes "console_ok (Executor b) paused" and "lawful_world (node_server b p now) paused"
    and "srv_run (node_server b p now) paused es (fresh_server e) w" and "\<not> paused e"
    and "\<forall>ev \<in> set es. expiring n ev"
  shows "(paused (env w) \<longrightarrow> failed_resumes w \<noteq> [] \<or> timers w \<noteq> []) \<and>
    (\<forall>t \<in> set (timers w). t \<le> now (env w) + n * 1000000000)"
proof -
  have "belt (node_server b p now) paused n (fresh_server e)"
    using assms(4) by (simp add: belt_def fresh_server_def)
  with node.belt_run [OF _ assms(3,5)] assms(1,2) show ?thesis by (auto simp: belt_def)
qed

text \<open>
  C7. No pause is forever: from every state that such requests lead to, once \<open>n\<close> seconds have passed the
  sleeping goroutines can all wake, without any further request, and then the pooler is not paused or
  a failed resume was logged.
\<close>

theorem pause_is_lifted:
  assumes "console_ok (Executor b) paused" and "lawful_world (node_server b p now) paused"
    and "srv_run (node_server b p now) paused es (fresh_server e) w" and "\<not> paused e"
    and "\<forall>ev \<in> set es. expiring n ev"
    and later: "now (env w) + n * 1000000000 \<le> now e'" "now (env w) \<le> now e'" "paused e' = paused (env w)"
  shows "\<exists>w'. srv_run (node_server b p now) paused (Elapse e' # map Wake (timers w)) w w' \<and>
    timers w' = [] \<and> (\<not> paused (env w') \<or> failed_resumes w' \<noteq> [])"
proof -
  let ?s = "node_server b p now" and ?w = "w\<lparr>env := e'\<rparr>"
  have law: "console_ok (Executor b) paused \<and> lawful_world ?s paused" using assms(1,2) by simp
  have init: "belt ?s paused n (fresh_server e)" using assms(4) by (simp add: belt_def fresh_server_def)
  have elapse: "srv_step ?s paused (Elapse e') w ?w" using later by (intro srv_step.elapse) auto
  have "belt ?s paused n w" by (rule node.belt_run [OF law assms(3,5) init])
  then have due: "\<forall>t \<in> set (timers ?w). t \<le> Now ?s (env ?w)" using later by (force simp: belt_def)
  from node.all_wake [OF law due] obtain w' where w': "srv_run ?s paused (map Wake (timers w)) ?w w'" "timers w' = []"
    by auto
  have run: "srv_run ?s paused (Elapse e' # map Wake (timers w)) w w'"
    using w'(1) elapse by (rule srv_run_Cons)
  have "\<forall>ev \<in> set (Elapse e' # map Wake (timers w)). expiring n ev" by auto
  from node.belt_run [OF law run this \<open>belt ?s paused n w\<close>] w'(2) run show ?thesis
    by (auto simp: belt_def)
qed

text \<open>
  C33. A resume that an earlier pause has scheduled is not withdrawn by a later pause: if the later pause
  succeeds and the old moment comes before its expiry, the goroutine wakes and the pooler is resumed
  before the moment that the later caller was promised.
\<close>

theorem stale_resume_lifts_pause:
  assumes "console_ok (Executor b) paused"
    and stale: "t \<in> set (timers w)"
    and ok: "is_ok (fst (Server_Pause (node_server b p now) ctx req w))"
    and wait: "e1 = env (snd (Server_Pause (node_server b p now) ctx req w))"
      "now e1 \<le> t" "now e' = t" "paused e' = paused e1"
    and resume: "fst (Bouncer.Resume b Background e') = None"
    and early: "t < now (env w) + sint (Expiry req) * 1000000000"
  shows "\<exists>w'. srv_run (node_server b p now) paused [PauseRequested ctx req, Elapse e', Wake t] w w' \<and>
    paused e1 \<and> \<not> paused (env w') \<and>
    t < now (env w) + sint (Expiry req) * 1000000000"
proof -
  let ?s = "node_server b p now"
  let ?w1 = "snd (Server_Pause ?s ctx req w)" and ?w2 = "snd (Server_Pause ?s ctx req w)\<lparr>env := e'\<rparr>"
  let ?w3 = "scheduled_resume ?s (?w2\<lparr>timers := remove1 t (timers ?w2)\<rparr>)"
  have "srv_run ?s paused [PauseRequested ctx req] w ?w1"
    using srv_run.step [OF srv_run.start srv_step.pause_request] by fastforce
  moreover have "srv_step ?s paused (Elapse e') ?w1 ?w2" using wait by (intro srv_step.elapse) auto
  moreover have "srv_step ?s paused (Wake t) ?w2 ?w3"
    using stale wait by (intro srv_step.wake) (auto simp: Server_Pause_env)
  ultimately have run: "srv_run ?s paused [PauseRequested ctx req, Elapse e', Wake t] w ?w3"
    using srv_run.step [OF srv_run.step] by fastforce
  obtain e'' where r: "Bouncer.Resume b Background e' = (None, e'')"
    using resume by (cases "Bouncer.Resume b Background e'") auto
  with pgb.resume_ok [OF assms(1), of Background e' e''] have "\<not> paused e''" by (simp add: bouncer_pauser_def)
  with r have "\<not> paused (env ?w3)" by (simp add: scheduled_resume_def bouncer_pauser_def)
  moreover have "paused e1"
  proof -
    obtain q e where c: "pauser_Pause (bouncer_pauser b)
        (WithDeadline ctx (now (env w) + sint (Timeout req) * 1000000000)) (env w) = (q, e)" by fastforce
    with ok have "q = None" by (cases q) (simp_all add: Server_Pause_def Let_def)
    with c pgb.pause_ok [OF assms(1)] wait(1) show ?thesis by (simp add: Server_Pause_env)
  qed
  ultimately show ?thesis using run early by blast
qed

section \<open>A node for the witnesses\<close>

text \<open>The pooler of the witnesses has the pause flag and the clock as its world.\<close>

definition flag_console :: "(bool \<times> time) executor" where
  "flag_console =
     \<lparr>Query = (\<lambda>ctx q w. (Inl (Plain ''no rows''), w)),
      Execute = (\<lambda>ctx q w.
        if q = ''PAUSE;'' then
          (if fst w then (Some (PgError ''ERROR'' PoolerError AlreadyPausedError), w) else (None, (True, snd w)))
        else if q = ''RESUME;'' then
          (if fst w then (None, (False, snd w)) else (Some (PgError ''ERROR'' PoolerError AlreadyResumedError), w))
        else (None, w)),
      scan_string = Inr, scan_int = (\<lambda>c. Inr None)\<rparr>"

definition flag_bouncer :: "(bool \<times> time) PgBouncer" where
  "flag_bouncer = \<lparr>ConfigFile = ''ini'', ConfigTemplateFile = ''template'', Executor = flag_console\<rparr>"

definition silent_pacemaker :: "'w pacemaker_executor" where
  "silent_pacemaker = \<lparr>CombinedOutput = (\<lambda>ctx name args w. (Inl (Plain ''no such command''), w)),
     ReadFromBytes = (\<lambda>s. Inl (Plain ''EOF''))\<rparr>"

abbreviation flag_server :: "(bool \<times> time) Server" where
  "flag_server \<equiv> node_server flag_bouncer silent_pacemaker snd"

lemma flag_console_ok: "console_ok (Executor flag_bouncer) fst"
  by (auto simp: console_ok_def flag_bouncer_def flag_console_def tolerated_def)

lemma flag_Pause: "Bouncer.Pause flag_bouncer ctx w = (None, (True, snd w))"
  by (cases w) (simp add: Bouncer.Pause_def flag_bouncer_def flag_console_def tolerated_def)

lemma flag_Resume: "Bouncer.Resume flag_bouncer ctx w = (None, (False, snd w))"
  by (cases w) (simp add: Bouncer.Resume_def flag_bouncer_def flag_console_def tolerated_def)

lemma flag_lawful: "lawful_world flag_server fst"
  by (simp add: lawful_world_def bouncer_pauser_def flag_Pause flag_Resume pacemaker_crm_def
      Get_def ResolveAddress_def Pacemaker.Migrate_def Pacemaker.Unmigrate_def silent_pacemaker_def)

lemma flag_server_Pause:
  assumes "valid_time (snd (env w))" and "valid_time (snd (env w) + sint (Expiry req) * 1000000000)"
    and "0 < sint (Expiry req)"
  shows "is_ok (fst (Server_Pause flag_server ctx req w))"
    and "snd (Server_Pause flag_server ctx req w) = w\<lparr>env := (True, snd (env w)),
      timers := timers w @ [snd (env w) + sint (Expiry req) * 1000000000]\<rparr>"
  using Server_TimestampProto_valid [OF assms(1)] Server_TimestampProto_valid [OF assms(2)] assms(3)
  by (auto simp: Server_Pause_def Let_def bouncer_pauser_def flag_Pause word_sless_alt)

lemma flag_run:
  "srv_run flag_server fst [PauseRequested Background \<lparr>Timeout = 5, Expiry = 25\<rparr>] (fresh_server (False, 0))
     \<lparr>env = (True, 0), timers = [25000000000], failed_resumes = []\<rparr>"
proof -
  have "snd (Server_Pause flag_server Background \<lparr>Timeout = 5, Expiry = 25\<rparr> (fresh_server (False, 0))) =
      \<lparr>env = (True, 0), timers = [25000000000], failed_resumes = []\<rparr>"
    by (subst flag_server_Pause(2))
      (simp_all add: fresh_server_def valid_time_def minValidSeconds_def maxValidSeconds_def)
  then show ?thesis
    using srv_run.step [OF srv_run.start srv_step.pause_request [where ctx = Background
        and req = "\<lparr>Timeout = 5, Expiry = 25\<rparr>" and w = "fresh_server (False, 0)" and s = flag_server]]
    by simp
qed

theorem Server_Pause_result_witness:
  "snd (Server_Pause flag_server Background \<lparr>Timeout = 5, Expiry = 25\<rparr> (fresh_server (False, 0))) =
     \<lparr>env = (True, 0), timers = [25000000000], failed_resumes = []\<rparr>"
  using Server_Pause_result [of 0 flag_server "fresh_server (False, 0)" "\<lparr>Timeout = 5, Expiry = 25\<rparr>" Background
      None "(True, 0)"]
  by (simp add: fresh_server_def valid_time_def minValidSeconds_def maxValidSeconds_def bouncer_pauser_def flag_Pause)

theorem paused_has_resume_witness:
  "\<exists>w :: (bool \<times> time) srv. fst (env w) \<and> (failed_resumes w \<noteq> [] \<or> timers w \<noteq> [])"
proof -
  let ?w = "\<lparr>env = (True, 0), timers = [25000000000], failed_resumes = []\<rparr> :: (bool \<times> time) srv"
  from paused_has_resume [OF flag_console_ok flag_lawful flag_run, of 25]
  have "fst (env ?w) \<longrightarrow> failed_resumes ?w \<noteq> [] \<or> timers ?w \<noteq> []" by simp
  then show ?thesis by (intro exI [of _ ?w]) simp
qed

theorem pause_is_lifted_witness:
  "\<exists>w'. srv_run flag_server fst [Elapse (True, 25000000000), Wake 25000000000]
       \<lparr>env = (True, 0), timers = [25000000000], failed_resumes = []\<rparr> w' \<and> timers w' = []"
  using pause_is_lifted [OF flag_console_ok flag_lawful flag_run, of 25 "(True, 25000000000)"] by auto

theorem stale_resume_lifts_pause_witness:
  "\<exists>w'. srv_run flag_server fst
     [PauseRequested Background \<lparr>Timeout = 5, Expiry = 25\<rparr>, Elapse (True, 10000000000), Wake 10000000000]
     \<lparr>env = (False, 5000000000), timers = [10000000000], failed_resumes = []\<rparr> w' \<and> \<not> fst (env w')"
proof -
  let ?w = "\<lparr>env = (False, 5000000000), timers = [10000000000], failed_resumes = []\<rparr> :: (bool \<times> time) srv"
  let ?req = "\<lparr>Timeout = 5, Expiry = 25\<rparr>"
  have v: "valid_time (snd (env ?w))" "valid_time (snd (env ?w) + sint (Expiry ?req) * 1000000000)" "0 < sint (Expiry ?req)"
    by (simp_all add: valid_time_def minValidSeconds_def maxValidSeconds_def)
  have e: "env (snd (Server_Pause flag_server Background ?req ?w)) = (True, 5000000000)"
    by (simp add: flag_server_Pause(2) [OF v])
  from stale_resume_lifts_pause [OF flag_console_ok _ flag_server_Pause(1) [OF v] refl,
      where t = 10000000000 and e' = "(True, 10000000000)" and ctx = Background]
  show ?thesis by (auto simp: e flag_Resume)
qed

section \<open>Migrating\<close>

lemma Server_Migrate_Ok:
  assumes "fst (Server_Migrate (node_server b p now) ctx w) = Ok resp"
  shows "\<exists>sync e1 e2. Get p ctx [SyncXPath] (env w) = (Ok [Some sync], e1) \<and>
    ResolveAddress p ctx (SelectAttrValue sync ''id'' '''') e1 = (Inr (Address resp), e2) \<and>
    MigratingTo resp = SelectAttrValue sync ''uname'' ''''"
proof -
  have "compiles SyncXPath" by (simp add: compiles_def compile_SyncXPath)
  then show ?thesis
  proof (cases rule: pcm.get_one [where xpath = SyncXPath and ctx = ctx and w = "env w" and p = p])
    case (Error err e1)
    with assms show ?thesis by (simp add: Server_Migrate_def pacemaker_crm_def)
  next
    case (Nodes n e1)
    show ?thesis
    proof (cases n)
      case None
      with Nodes assms show ?thesis by (simp add: Server_Migrate_def pacemaker_crm_def)
    next
      case (Some sync)
      obtain a e2 where a: "ResolveAddress p ctx (SelectAttrValue sync ''id'' '''') e1 = (a, e2)" by fastforce
      obtain m e3 where m: "Pacemaker.Migrate p ctx (SelectAttrValue sync ''uname'' '''') e2 = (m, e3)" by fastforce
      with Nodes Some a assms show ?thesis
        by (cases a; cases m; cases "Server_TimestampProto (now e3)") (auto simp: Server_Migrate_def pacemaker_crm_def Let_def)
    qed
  qed
qed

text \<open>
  What a migrate request does with Pacemaker: it succeeds exactly if the query finds a node in the role of the
  synchronous standby, this node's ID resolves to an address and \<open>crm resource migrate\<close> runs for this node's
  name without an error; the answer then has this name, this address and the moment. The clock aside it
  never panics, and if there is no such standby the cluster is left alone and the caller is told so.
\<close>

theorem Server_Migrate_result:
  assumes "\<And>w. valid_time (now w)"
  shows "\<not> is_panic (fst (Server_Migrate (node_server b p now) ctx w)) \<and>
    (fst (Get p ctx [SyncXPath] (env w)) = Ok [None] \<longrightarrow> Server_Migrate (node_server b p now) ctx w =
       (Err (Status ''NotFound'' ''failed to find sync node''), w\<lparr>env := snd (Get p ctx [SyncXPath] (env w))\<rparr>)) \<and>
    (is_ok (fst (Server_Migrate (node_server b p now) ctx w)) \<longleftrightarrow>
       (\<exists>sync e1 addr e2 e3. Get p ctx [SyncXPath] (env w) = (Ok [Some sync], e1) \<and>
          ResolveAddress p ctx (SelectAttrValue sync ''id'' '''') e1 = (Inr addr, e2) \<and>
          Pacemaker.Migrate p ctx (SelectAttrValue sync ''uname'' '''') e2 = (None, e3))) \<and>
    (\<forall>resp. fst (Server_Migrate (node_server b p now) ctx w) = Ok resp \<longrightarrow>
       (\<exists>sync e1 e2 e3. Get p ctx [SyncXPath] (env w) = (Ok [Some sync], e1) \<and>
          ResolveAddress p ctx (SelectAttrValue sync ''id'' '''') e1 = (Inr (Address resp), e2) \<and>
          MigratingTo resp = SelectAttrValue sync ''uname'' '''' \<and>
          Pacemaker.Migrate p ctx (MigratingTo resp) e2 = (None, e3) \<and>
          Timestamp_time (MigrateCreatedAt resp) = (now e3, None) \<and>
          snd (Server_Migrate (node_server b p now) ctx w) = w\<lparr>env := e3\<rparr>))"
proof -
  have "compiles SyncXPath" by (simp add: compiles_def compile_SyncXPath)
  then show ?thesis
  proof (cases rule: pcm.get_one [where xpath = SyncXPath and ctx = ctx and w = "env w" and p = p])
    case (Error err e1)
    then show ?thesis by (simp add: Server_Migrate_def pacemaker_crm_def)
  next
    case (Nodes n e1)
    show ?thesis
    proof (cases n)
      case None
      with Nodes show ?thesis by (simp add: Server_Migrate_def pacemaker_crm_def)
    next
      case (Some sync)
      obtain a e2 where a: "ResolveAddress p ctx (SelectAttrValue sync ''id'' '''') e1 = (a, e2)" by fastforce
      obtain m e3 where m: "Pacemaker.Migrate p ctx (SelectAttrValue sync ''uname'' '''') e2 = (m, e3)" by fastforce
      obtain ts where "Server_TimestampProto (now e3) = Ok ts" "Timestamp_time (Some ts) = (now e3, None)"
        using Server_TimestampProto_valid [OF assms [of e3]] by blast
      with Nodes Some a m show ?thesis
        by (cases a; cases m) (simp_all add: Server_Migrate_def pacemaker_crm_def Let_def)
    qed
  qed
qed

definition idle_bouncer :: "'w PgBouncer" where
  "idle_bouncer = \<lparr>ConfigFile = ''ini'', ConfigTemplateFile = ''template'', Executor =
     \<lparr>Query = (\<lambda>ctx q w. (Inl (Plain ''no rows''), w)), Execute = (\<lambda>ctx q w. (None, w)),
      scan_string = Inr, scan_int = (\<lambda>c. Inr None)\<rparr>\<rparr>"

theorem Server_Migrate_result_witness:
  "\<exists>resp. fst (Server_Migrate (node_server idle_bouncer (example_executor ''1'') (\<lambda>_. 0)) Background (fresh_server ())) =
     Ok resp \<and> MigratingTo resp = ''pg02''"
proof -
  let ?s = "node_server idle_bouncer (example_executor ''1'') (\<lambda>_. 0)"
  have now: "valid_time ((\<lambda>_ :: unit. 0) w)" for w
    by (simp add: valid_time_def minValidSeconds_def maxValidSeconds_def)
  obtain n where n: "FindElement (example_cib ''1'') SyncXPath = Ok (Some n)"
      "SelectAttrValue n ''uname'' '''' = ''pg02''" "SelectAttrValue n ''id'' '''' = ''2''" using example_sync by blast
  then have g: "Get (example_executor ''1'') Background [SyncXPath] () = (Ok [Some n], ())"
    by (simp add: Get_eq example_executor_def example_quorum)
  have v: "valid_node_id ''2''" by code_simp
  obtain ts where "Server_TimestampProto 0 = Ok ts" using Server_TimestampProto_valid [OF now] by blast
  then have "is_ok (fst (Server_Migrate ?s Background (fresh_server ())))"
    using g n v by (simp add: Server_Migrate_def pacemaker_crm_def fresh_server_def ResolveAddress_def
        Pacemaker.Migrate_def example_executor_def Let_def)
  then obtain resp where resp: "fst (Server_Migrate ?s Background (fresh_server ())) = Ok resp" by (auto simp: is_ok_iff)
  from Server_Migrate_result [OF now, where b = idle_bouncer and p = "example_executor ''1''" and ctx = Background
      and w = "fresh_server ()"] resp
  have "\<exists>sync e1. Get (example_executor ''1'') Background [SyncXPath] () = (Ok [Some sync], e1) \<and>
      MigratingTo resp = SelectAttrValue sync ''uname'' ''''" by (fastforce simp: fresh_server_def)
  with g n(2) have "MigratingTo resp = ''pg02''" by (elim exE conjE) simp
  with resp show ?thesis by blast
qed

end
