(* ===== verification/Supervise.thy ===== *)
theory Supervise
  imports Config Server
begin

text \<open>
  The supervisor of a node (\<open>pkg/cmd/supervise.go\<close>): it publishes the address of the master that
  Pacemaker reports in etcd, and serves the failover API, as two actors of a \<open>run.Group\<close>
  (\<open>oklog/run/group.go\<close>) that are interrupted when the first of them returns.

  The step relation \<open>supervise_step\<close> interleaves the poller, the fold and the two actors; the dedupe filter
  sits between the events that the poller has sent and those that the fold has received.
\<close>

section \<open>Publishing the master\<close>

definition supervise_operation ::
  "'w pacemaker_executor \<Rightarrow> 'w committer \<Rightarrow> 'w operation" where
  "supervise_operation crm commit ctx kv w =
     (case kv of
        None \<Rightarrow> (Panic NilDereference, w)
      | Some k \<Rightarrow>
          (case ResolveAddress crm ctx (Value k) w of
             (Inl err, w') \<Rightarrow> (Err err, w')
           | (Inr addr, w') \<Rightarrow> map_prod of_err id (CompareAndUpdate commit ctx (Key k) addr w')))"

text \<open>The store holds, under the key of the event, an address that the event's node ID was resolved to.\<close>

definition publishes :: "'w pacemaker_executor \<Rightarrow> ('w \<Rightarrow> store) \<Rightarrow> KeyValue \<Rightarrow> 'w \<Rightarrow> bool" where
  "publishes crm st kv w \<longleftrightarrow> (\<exists>ctx w0 w1 addr.
     ResolveAddress crm ctx (Value kv) w0 = (Inr addr, w1) \<and> stored (st w) (Key kv) = Some addr)"

lemma CompareAndUpdate_stores:
  assumes c: "commits commit st" and u: "CompareAndUpdate commit ctx key v w = (None, w')"
  shows "stored (st w') key = Some v"
proof -
  obtain resp where "commit ctx (update_txn key v) w = (Inr resp, w')"
    using u by (auto simp: CompareAndUpdate_def split: prod.splits sum.splits)
  from commitsD(1) [OF c this] have "st w' = snd (txn_effect (update_txn key v) (st w))" by (metis snd_conv)
  then show ?thesis by (simp add: update_effect stored_updated)
qed

interpretation publisher: operation "supervise_operation crm commit" "publishes crm st" "commits commit st"
  for crm :: "'w pacemaker_executor" and commit and st
proof unfold_locales
  show "supervise_operation crm commit ctx None w = (Panic NilDereference, w)" for ctx w
    by (simp add: supervise_operation_def)
  show "publishes crm st kv w'"
    if law: "commits commit st" and op: "supervise_operation crm commit ctx (Some kv) w = (Ok u, w')" for ctx kv w u w'
  proof -
    obtain a w1 where a: "ResolveAddress crm ctx (Value kv) w = (a, w1)" by fastforce
    with op obtain addr where addr: "a = Inr addr" by (cases a) (auto simp: supervise_operation_def)
    with op a have "CompareAndUpdate commit ctx (Key kv) addr w1 = (None, w')"
      by (cases "CompareAndUpdate commit ctx (Key kv) addr w1") (auto simp: supervise_operation_def)
    from CompareAndUpdate_stores [OF law this] a addr show ?thesis unfolding publishes_def by blast
  qed
qed

text \<open>The fold on the poller's events, through the dedupe filter.\<close>

definition publish_run ::
  "'w pacemaker_executor \<Rightarrow> 'w committer \<Rightarrow> RetryFoldOptions \<Rightarrow> KeyValue list \<times> bool \<Rightarrow>
     fold_event list \<Rightarrow> time \<Rightarrow> 'w \<Rightarrow> 'w fold_state option" where
  "publish_run crm commit fo str es t w =
     (if delivers es (DedupeFilter str) then fold_run fo (supervise_operation crm commit) es (RetryFold t w) else None)"

text \<open>
  C18. The host key in etcd follows the master: when the fold is idle, or has returned because the poller has
  stopped, the key holds the address that the node ID of the last poll's master was resolved to, provided
  that some poll has found a master with a node ID. The key is the configured one.
\<close>

theorem supervise_publishes_last:
  assumes opt: "XPaths po = [AliasXPath k xpath]" and law: "commits commit st"
    and polls: "(poll_step po crm)\<^sup>*\<^sup>* (PacemakerStream.NewStream po now cib) src"
    and some: "\<exists>kv \<in> set (poll_sent src). Value kv \<noteq> ''''"
    and run: "publish_run crm commit fo (poll_sent src, poll_closed src) es t w = Some s"
    and idle: "quiet s"
  shows "\<exists>ctx w0 w1 addr. ResolveAddress crm ctx (Value (last (poll_sent src))) w0 = (Inr addr, w1) \<and>
    stored (st (world s)) k = Some addr"
proof -
  have keys: "\<forall>kv \<in> set (poll_sent src). Key kv = k"
    using poller.sent_keys [OF _ polls] opt by (auto simp: AliasXPath_def)
  have nonempty: "poll_sent src \<noteq> []" using some by auto
  let ?out = "fst (DedupeFilter (poll_sent src, poll_closed src))"
  have last: "?out \<noteq> []" "Value (last ?out) = Value (last (poll_sent src))"
    using dedupe_last [OF keys nonempty some, of "poll_closed src"] by blast+
  have rec: "received es = ?out" and fold: "fold_run fo (supervise_operation crm commit) es (RetryFold t w) = Some s"
    using run by (auto simp: publish_run_def delivers_def split: if_splits)
  have "Key (last ?out) = k"
    using keys last_in_set [OF last(1)] subseq_set [OF dedupe.run_subseq [of Map.empty "poll_sent src"]]
    by (auto simp: DedupeFilter_def)
  with publisher.latest_applied [OF law fold idle] rec last show ?thesis by (auto simp: publishes_def)
qed

section \<open>The two actors\<close>

text \<open>
  The state of \<open>SuperviseCommand.Run\<close>. \<open>api\<close> is the return value of \<open>Serve\<close> once it has returned, \<open>first\<close>
  the one of the first actor to return, and \<open>cancelled_inner\<close> says that the context made in \<open>Run\<close> was cancelled:
  the options of the streams hold the context of the command, so that nothing reads it.
\<close>

record 'w supervisor =
  source :: "'w poller"
  fold_of :: "'w fold_state"
  taken :: "KeyValue list"
  api :: "goerr option option"
  first :: "goerr option option"
  interrupted :: bool
  cancelled_inner :: bool

definition supervise_start ::
  "(string \<Rightarrow> goerr option) \<Rightarrow> string \<Rightarrow> PacemakerStreamOptions \<Rightarrow> time \<Rightarrow> 'w \<Rightarrow> goerr + 'w supervisor" where
  "supervise_start Listen bindAddress po now w =
     (case Listen bindAddress of
        Some err \<Rightarrow> Inl (Wrapped err ''failed to bind to address'')
      | None \<Rightarrow> Inr
          \<lparr>source = PacemakerStream.NewStream po now w, fold_of = RetryFold now w, taken = [], api = None, first = None,
           interrupted = False, cancelled_inner = False\<rparr>)"

text \<open>What the fold can receive next, behind the dedupe filter.\<close>

definition filtered :: "'w supervisor \<Rightarrow> KeyValue list" where
  "filtered s = fst (DedupeFilter (poll_sent (source s), poll_closed (source s)))"

definition can_happen :: "'w supervisor \<Rightarrow> fold_event \<Rightarrow> bool" where
  "can_happen s e \<longleftrightarrow>
     (case e of
        Recv kv \<Rightarrow> prefix (taken s @ [kv]) (filtered s)
      | RecvClosed \<Rightarrow> poll_closed (source s) \<and> taken s = filtered s
      | Fold.Elapse n \<Rightarrow> False
      | _ \<Rightarrow> True)"

definition note_first :: "goerr option \<Rightarrow> 'w supervisor \<Rightarrow> 'w supervisor" where
  "note_first r s = s\<lparr>first := (case first s of None \<Rightarrow> Some r | Some x \<Rightarrow> Some x)\<rparr>"

inductive supervise_step ::
  "PacemakerStreamOptions \<Rightarrow> RetryFoldOptions \<Rightarrow> 'w pacemaker_executor \<Rightarrow>
     'w committer \<Rightarrow> 'w supervisor \<Rightarrow> 'w supervisor \<Rightarrow> bool"
  for po fo crm commit where
  polls: "poll_step po crm ((source s)\<lparr>poll_world := world (fold_of s)\<rparr>) p \<Longrightarrow>
     supervise_step po fo crm commit s
       (s\<lparr>source := p, fold_of := (fold_of s)\<lparr>world := poll_world p, clock := poll_clock p\<rparr>\<rparr>)"
| folds: "can_happen s e \<Longrightarrow> fold_step fo (supervise_operation crm commit) e (fold_of s) = Some f \<Longrightarrow>
     supervise_step po fo crm commit s
       (s\<lparr>fold_of := f, taken := (case e of Recv kv \<Rightarrow> taken s @ [kv] | _ \<Rightarrow> taken s)\<rparr>)"
| fold_returns: "fold_pc (fold_of s) = Returned \<Longrightarrow> supervise_step po fo crm commit s (note_first None s)"
| api_fails: "api s = None \<Longrightarrow> supervise_step po fo crm commit s (note_first r (s\<lparr>api := Some r\<rparr>))"
| interrupt: "first s \<noteq> None \<Longrightarrow> \<not> interrupted s \<Longrightarrow>
     supervise_step po fo crm commit s (s\<lparr>interrupted := True, cancelled_inner := True\<rparr>)"

text \<open>\<open>Group.Run\<close> returns the first actor's error once every actor has returned.\<close>

definition group_returns :: "'w supervisor \<Rightarrow> bool" where
  "group_returns s \<longleftrightarrow> interrupted s \<and> fold_pc (fold_of s) = Returned \<and> api s \<noteq> None"

definition supervise_inv :: "PacemakerStreamOptions \<Rightarrow> 'w supervisor \<Rightarrow> bool" where
  "supervise_inv po s \<longleftrightarrow>
     (fold_pc (fold_of s) = Returned \<longrightarrow> poll_closed (source s)) \<and>
     (poll_closed (source s) \<longrightarrow> ctx_expired (PacemakerStreamOptions.StreamCtx po) (poll_clock (source s))) \<and>
     (first s = None \<longrightarrow> api s = None \<and> \<not> interrupted s)"

lemma fold_step_Returned:
  "fold_step fo op e f = Some f' \<Longrightarrow> fold_pc f' = Returned \<Longrightarrow> fold_pc f = Returned \<or> e = RecvClosed"
  by (cases e) (auto split: fold_pc.splits prod.splits outcome.splits if_splits)

lemma poll_step_closed:
  assumes "poll_step po crm p p'"
  shows "poll_clock p \<le> poll_clock p' \<and> (poll_closed p \<longrightarrow> poll_closed p') \<and>
    (poll_closed p' \<longrightarrow> poll_closed p \<or> ctx_expired (PacemakerStreamOptions.StreamCtx po) (poll_clock p'))"
  using assms
proof cases
  case (tick t)
  then show ?thesis
    by (auto simp: poll_def await_def split: prod.splits outcome.splits)
qed (auto simp: await_def)

lemma supervise_inv_step:
  assumes "supervise_step po fo crm commit s s'" and "supervise_inv po s"
  shows "supervise_inv po s'"
  using assms
proof cases
  case (polls p)
  with poll_step_closed [OF polls(2)] assms(2) show ?thesis
    by (auto simp: supervise_inv_def intro: ctx_expired_mono)
next
  case (folds e f)
  with fold_step_Returned [OF folds(3)] assms(2) show ?thesis
    by (auto simp: supervise_inv_def can_happen_def)
qed (auto simp: supervise_inv_def note_first_def split: option.splits)


section \<open>A supervisor for the witnesses\<close>

text \<open>The world is the store of etcd; the poll interval is zero, so that the first poll needs no time to pass.\<close>

definition example_poll :: "ctx \<Rightarrow> PacemakerStreamOptions" where
  "example_poll ctx = \<lparr>StreamCtx = ctx, Attribute = ''id'', XPaths = [AliasXPath ''/master'' MasterXPath],
     PollInterval = 0, GetTimeout = Second\<rparr>"

definition example_publish :: RetryFoldOptions where
  "example_publish = \<lparr>FoldCtx = Background, FoldInterval = Second, FoldTimeout = Second\<rparr>"

definition empty_store :: store where
  "empty_store = \<lparr>revision = 1, kvs = []\<rparr>"

lemma example_Get:
  assumes "Get (example_executor ''1'') ctx [MasterXPath] w = (r, w')"
  shows "\<exists>e. r = Ok [Some e] \<and> w' = w \<and> SelectAttrValue e ''id'' '''' = ''1''"
proof -
  obtain e where e: "FindElement (example_cib ''1'') MasterXPath = Ok (Some e)" "SelectAttrValue e ''id'' '''' = ''1''"
    using example_master by blast
  then have "Get (example_executor ''1'') ctx [MasterXPath] w = (Ok [Some e], w)"
    by (simp add: Get_eq example_executor_def example_quorum)
  with assms have "r = Ok [Some e]" "w' = w" by simp_all
  with e(2) show ?thesis by blast
qed

lemma example_polls:
  "\<exists>src. (poll_step (example_poll ctx) (example_executor ''1''))\<^sup>*\<^sup>* (PacemakerStream.NewStream (example_poll ctx) 0 w) src \<and>
     poll_sent src = [makeKv ''/master'' ''1'' 0] \<and> \<not> poll_closed src"
proof -
  let ?po = "example_poll ctx"
  let ?crm = "example_executor ''1''"
  let ?kv = "makeKv ''/master'' ''1'' 0"
  let ?s0 = "PacemakerStream.NewStream ?po 0 w"
  obtain r w' where g: "Get ?crm (WithTimeout ctx 0 Second) [MasterXPath] w = (r, w')" by fastforce
  from example_Get [OF g] obtain e where e: "r = Ok [Some e]" "w' = w" "SelectAttrValue e ''id'' '''' = ''1''"
    by (elim exE conjE)
  have first: "poll_step ?po ?crm ?s0 (poll ?po ?crm ?s0)"
    by (rule poll_step.tick [where t = 0]) (simp_all add: PacemakerStream.NewStream_def example_poll_def time_add_def)
  have polled: "poll ?po ?crm ?s0 = ?s0\<lparr>poll_pc := Emitting [?kv]\<rparr>"
    using g e by (simp add: poll_def PacemakerStream.NewStream_def example_poll_def AliasXPath_def)
  have second: "poll_step ?po ?crm (?s0\<lparr>poll_pc := Emitting [?kv]\<rparr>) (?s0\<lparr>poll_pc := Emitting [], poll_sent := [?kv]\<rparr>)"
    using poll_step.send [of "?s0\<lparr>poll_pc := Emitting [?kv]\<rparr>" ?kv "[]" ?po ?crm]
    by (simp add: PacemakerStream.NewStream_def)
  have two_steps: "R s0 s1 \<Longrightarrow> s1 = s1' \<Longrightarrow> R s1' s2 \<Longrightarrow> Q s2 \<Longrightarrow> \<exists>s. R\<^sup>*\<^sup>* s0 s \<and> Q s"
    for R :: "'a poller \<Rightarrow> 'a poller \<Rightarrow> bool" and s0 s1 s1' s2 Q
    by (blast intro: rtranclp.intros)
  show ?thesis
    by (rule two_steps [OF first polled second]) (simp add: PacemakerStream.NewStream_def)
qed

theorem supervise_publishes_last_witness:
  "\<exists>s addr. publish_run (example_executor ''1'') memory_commit example_publish ([makeKv ''/master'' ''1'' 0], False)
       [Recv (makeKv ''/master'' ''1'' 0), Begin, Finish] 0 empty_store = Some s \<and>
     stored (world s) ''/master'' = Some addr"
proof -
  let ?crm = "example_executor ''1''"
  let ?kv = "makeKv ''/master'' ''1'' 0"
  let ?ctx = "WithTimeout (FoldCtx example_publish) 0 (FoldTimeout example_publish)"
  obtain src where src: "(poll_step (example_poll Background) ?crm)\<^sup>*\<^sup>*
      (PacemakerStream.NewStream (example_poll Background) 0 empty_store) src"
    and sent: "poll_sent src = [?kv]" "poll_closed src = False"
    using example_polls [of Background empty_store] by (elim exE conjE) (simp only: not_True_eq_False simp_thms)
  obtain r w1 where op: "supervise_operation ?crm memory_commit ?ctx (Some ?kv) empty_store = (r, w1)" by fastforce
  have "valid_node_id ''1''" by code_simp
  then have "ResolveAddress ?crm ?ctx ''1'' empty_store = (Inr (TrimSpace '' 10.0.0.1 ''), empty_store)"
    by (simp add: ResolveAddress_def example_executor_def)
  then have r: "r = Ok ()"
    using op by (auto simp: supervise_operation_def makeKv_def CompareAndUpdate_def memory_commit_def of_err_def
        split: prod.splits)
  let ?run = "publish_run ?crm memory_commit example_publish ([?kv], False) [Recv ?kv, Begin, Finish] 0 empty_store"
  let ?s = "\<lparr>fold_pc = Receiving, clock = 0, world = w1\<rparr>"
  have "delivers [Recv ?kv, Begin, Finish] (DedupeFilter ([?kv], False))"
    by (simp add: delivers_def DedupeFilter_def dedupe_step_def previous_value_def) (simp add: makeKv_def)
  moreover have "fold_run example_publish (supervise_operation ?crm memory_commit) [Recv ?kv, Begin, Finish]
      (RetryFold 0 empty_store) = Some ?s"
    using op r by (simp add: RetryFold_def)
  ultimately have s: "?run = Some ?s" "quiet ?s" by (simp_all add: publish_run_def quiet_def)
  have paths: "XPaths (example_poll Background) = [AliasXPath ''/master'' MasterXPath]" by (simp add: example_poll_def)
  have some: "\<exists>kv \<in> set (poll_sent src). Value kv \<noteq> ''''" by (simp add: sent makeKv_def)
  from s(1) have run: "publish_run ?crm memory_commit example_publish (poll_sent src, poll_closed src)
      [Recv ?kv, Begin, Finish] 0 empty_store = Some ?s" by (simp only: sent)
  from supervise_publishes_last [OF paths memory_commits src some run s(2)]
  obtain addr where "stored (world ?s) ''/master'' = Some addr" by (elim exE conjE)
  with s(1) show ?thesis by (intro exI [of _ ?s] exI [of _ addr]) simp
qed


end
