(* ===== verification/FailoverCmd.thy ===== *)
theory FailoverCmd
  imports Server Failover "HOL-Library.AList"
begin

text \<open>
  The failover command (\<open>pkg/cmd/failover.go\<close>), and the cluster it acts on: the servers of all nodes behind
  the transports that the command has dialled. Here the locale of \<open>Failover\<close> is interpreted on the
  model of the whole path: stubs, dispatch, handlers, PgBouncer and Pacemaker.
\<close>

section \<open>The command\<close>

record failoverCommand =
  endpoints :: "string list"
  command_opt :: FailoverOptions

text \<open>The loop that dials the endpoints: a Go map, so that a repeated endpoint is overwritten.\<close>

fun dial_clients ::
  "(string \<Rightarrow> goerr + ('b, 'w) transport) \<Rightarrow> 'b codec \<Rightarrow> string list \<Rightarrow> (string \<times> 'w FailoverClient) list \<Rightarrow>
     goerr + (string \<times> 'w FailoverClient) list" where
  "dial_clients dial cd [] cs = Inr cs"
| "dial_clients dial cd (endpoint # es) cs =
     (case dial endpoint of
        Inl err \<Rightarrow> Inl (Wrapped err (''failed to connect to endpoint '' @ endpoint))
      | Inr conn \<Rightarrow> dial_clients dial cd es (AList.update endpoint (NewFailoverClient conn cd) cs))"

definition NewFailover ::
  "'w Failover \<Rightarrow> (string \<times> 'w FailoverClient) list \<Rightarrow> 'w locker \<Rightarrow> FailoverOptions \<Rightarrow> 'w Failover" where
  "NewFailover runtime cs lk o1 = runtime\<lparr>clients := cs, locker_of := lk, opt := o1\<rparr>"

text \<open>
  The context for the clean-up. The goroutine evaluates \<open>ctx.Done()\<close> without receiving from it, sleeps ten
  seconds and cancels: the context is done ten seconds after the start, whatever happens to \<open>ctx\<close>.
\<close>

definition deferCtx :: "time \<Rightarrow> ctx" where
  "deferCtx started = WithTimeout Background started (10 * Second)"

definition Command_Run ::
  "'w Failover \<Rightarrow> ('w \<Rightarrow> (goerr + 'w locker) \<times> 'w) \<Rightarrow> (string \<Rightarrow> goerr + ('b, 'w) transport) \<Rightarrow> 'b codec \<Rightarrow>
     failoverCommand \<Rightarrow> ctx \<Rightarrow> 'w \<Rightarrow> unit outcome \<times> 'w" where
  "Command_Run runtime NewSession dial cd c ctx w =
     (case NewSession w of
        (Inl err, w') \<Rightarrow> (Err err, w')
      | (Inr lk, w') \<Rightarrow>
          (case dial_clients dial cd (endpoints c) [] of
             Inl err \<Rightarrow> (Err err, w')
           | Inr cs \<Rightarrow>
               Run (NewFailover runtime cs lk (command_opt c)) ctx (deferCtx (Failover.Now runtime w')) w'))"

lemma dial_clients_keys:
  assumes "dial_clients dial cd es cs = Inr cs'" and "distinct (map fst cs)"
  shows "distinct (map fst cs') \<and> fst ` set cs' = fst ` set cs \<union> set es"
  using assms
proof (induction es arbitrary: cs)
  case (Cons e es)
  then obtain conn where conn: "dial e = Inr conn" by (auto split: sum.splits)
  with Cons.prems(1) have "dial_clients dial cd es (AList.update e (NewFailoverClient conn cd) cs) = Inr cs'" by simp
  from Cons.IH [OF this distinct_update [OF Cons.prems(2)]] show ?case
    by (simp add: dom_update)
qed simp

section \<open>Time for the clean-up\<close>

text \<open>The documented behaviour of \<open>grpc\<close>: a call under a context that is done fails without being sent.\<close>

definition heeds_deadline :: "('w \<Rightarrow> time) \<Rightarrow> ('b, 'w) transport \<Rightarrow> bool" where
  "heeds_deadline now cc \<longleftrightarrow>
     (\<forall>ctx method body w. ctx_expired ctx (now w) \<longrightarrow> (\<exists>err. cc ctx method body w = (Inl err, w)))"

lemma late_call:
  assumes "heeds_deadline now cc" and "ctx_expired ctx (now w)"
  shows "\<exists>e. call cc cd dec ctx m req w = (Inl e, w)"
proof (cases "grpc_encode cd req")
  case (Inr body)
  obtain e where "cc ctx m body w = (Inl e, w)"
    using assms unfolding heeds_deadline_def by blast
  then show ?thesis unfolding call_def Inr by simp
qed (simp add: call_def)

lemma deferCtx_expired: "ctx_expired (deferCtx started) now \<longleftrightarrow> started + 10000000000 \<le> now"
proof -
  have "sint (10 * Second :: duration) = 10000000000" by (simp add: Second_def)
  then show ?thesis by (simp add: deferCtx_def)
qed

lemma each_client_all_fail:
  assumes "\<And>ep c. (ep, c) \<in> set cs \<Longrightarrow> \<exists>e. act ep c w = (Some e, w)"
  shows "\<exists>e. each_client act cs r w = (e, w) \<and> (cs \<noteq> [] \<longrightarrow> e \<noteq> None)"
  using assms
proof (induction cs arbitrary: r)
  case (Cons c cs)
  obtain ep cl where c: "c = (ep, cl)" by fastforce
  obtain e where e: "act ep cl w = (Some e, w)" using Cons.prems c by fastforce
  obtain e' where "each_client act cs (Some e) w = (e', w)" using Cons by fastforce
  moreover from this have "e' \<noteq> None" using each_client_err by (metis fst_conv)
  ultimately show ?case by (simp add: c e)
qed simp

text \<open>
  C32. The clean-up of the command has ten seconds from its start. If more than that has passed when the
  poolers are to be resumed and the migration constraint is to be removed, then over transports that
  heed deadlines no request is sent: both clean-ups fail and the cluster stays as it is.
\<close>

theorem late_cleanup_does_nothing:
  assumes it: "iterates f" and some: "clients f \<noteq> []"
    and stubs: "\<And>ep c. (ep, c) \<in> set (clients f) \<Longrightarrow> \<exists>cc. c = NewFailoverClient cc cd \<and> heeds_deadline (Failover.Now f) cc"
    and late: "started + 10000000000 \<le> Failover.Now f w"
  shows "(\<exists>err. Failover.Resume f (deferCtx started) w = (Err err, w)) \<and>
    (\<exists>err. Failover.Unmigrate f (deferCtx started) w = (Err err, w))"
proof -
  have exp: "ctx_expired (WithTimeout (deferCtx started) (Failover.Now f w) d) (Failover.Now f w)" for d
    using late by (simp add: deferCtx_expired)
  have resume: "\<exists>e. client_Resume c (WithTimeout (deferCtx started) (Failover.Now f w) d) w = (Inl e, w)"
    and unmigrate: "\<exists>e. client_Unmigrate c (WithTimeout (deferCtx started) (Failover.Now f w) d) w = (Inl e, w)"
    if "(ep, c) \<in> set (clients f)" for ep c d
  proof -
    note client = that
    obtain cc where c: "c = NewFailoverClient cc cd" "heeds_deadline (Failover.Now f) cc" using stubs [OF client] by blast
    have "\<exists>e. call cc cd dec (WithTimeout (deferCtx started) (Failover.Now f w) d) m req w = (Inl e, w)" for dec m req
      by (rule late_call [OF c(2) exp])
    then show "\<exists>e. client_Resume c (WithTimeout (deferCtx started) (Failover.Now f w) d) w = (Inl e, w)"
      and "\<exists>e. client_Unmigrate c (WithTimeout (deferCtx started) (Failover.Now f w) d) w = (Inl e, w)"
      unfolding c(1) NewFailoverClient_def FailoverClient.simps by blast+
  qed
  obtain ep c cs where r: "ranged f w = (ep, c) # cs"
    using some set_ranged [OF it, of w] by (cases "ranged f w") auto
  have "\<exists>e. each_client (\<lambda>ep c v. err_of (client_Resume c (WithTimeout (deferCtx started) (Failover.Now f w) (ResumeTimeout (opt f))) v))
      (ranged f w) None w = (e, w) \<and> (ranged f w \<noteq> [] \<longrightarrow> e \<noteq> None)"
  proof (rule each_client_all_fail)
    fix ep c
    assume "(ep, c) \<in> set (ranged f w)"
    then obtain e where "client_Resume c (WithTimeout (deferCtx started) (Failover.Now f w) (ResumeTimeout (opt f))) w = (Inl e, w)"
      using resume [of ep c "ResumeTimeout (opt f)"] set_ranged [OF it, of w] by blast
    then show "\<exists>e. err_of (client_Resume c (WithTimeout (deferCtx started) (Failover.Now f w) (ResumeTimeout (opt f))) w) = (Some e, w)"
      by (simp add: err_of_def)
  qed
  then have "\<exists>err. Failover.Resume f (deferCtx started) w = (Err err, w)"
    using r by (auto simp: Failover.Resume_def EachClient_def)
  moreover have "(ep, c) \<in> set (clients f)" using r set_ranged [OF it, of w] by auto
  then have "\<exists>err. Failover.Unmigrate f (deferCtx started) w = (Err err, w)"
  proof -
    assume "(ep, c) \<in> set (clients f)"
    then obtain e where "client_Unmigrate c (WithTimeout (deferCtx started) (Failover.Now f w) (PacemakerTimeout (opt f))) w = (Inl e, w)"
      using unmigrate [of ep c "PacemakerTimeout (opt f)"] by blast
    with r show ?thesis by (simp add: Failover.Unmigrate_def getClient_def)
  qed
  ultimately show ?thesis by blast
qed

section \<open>The cluster behind the clients\<close>

text \<open>
  The world of the command: the server process of every node, by its endpoint, and the rest, such as
  etcd. A server acts on its own node only.
\<close>

type_synonym ('w, 'x) cluster = "(string \<Rightarrow> 'w srv) \<times> 'x"

definition on_node :: "string \<Rightarrow> ('w srv \<Rightarrow> 'r \<times> 'w srv) \<Rightarrow> ('w, 'x) cluster \<Rightarrow> 'r \<times> ('w, 'x) cluster" where
  "on_node ep g W = (case g (fst W ep) of (r, s) \<Rightarrow> (r, ((fst W)(ep := s), snd W)))"

definition at_node :: "string \<Rightarrow> 'w srv FailoverServer \<Rightarrow> ('w, 'x) cluster FailoverServer" where
  "at_node ep srv =
     \<lparr>server_HealthCheck = (\<lambda>ctx. on_node ep (server_HealthCheck srv ctx)),
      server_Pause = (\<lambda>ctx req. on_node ep (server_Pause srv ctx req)),
      server_Resume = (\<lambda>ctx. on_node ep (server_Resume srv ctx)),
      server_Migrate = (\<lambda>ctx. on_node ep (server_Migrate srv ctx)),
      server_Unmigrate = (\<lambda>ctx. on_node ep (server_Unmigrate srv ctx))\<rparr>"

definition paused_nodes :: "('w \<Rightarrow> bool) \<Rightarrow> ('w, 'x) cluster \<Rightarrow> string set" where
  "paused_nodes P W = {ep. P (env (fst W ep))}"

lemma on_node_paused:
  "paused_nodes P (snd (on_node ep g W)) =
     paused_nodes P W - {ep} \<union> (if P (env (snd (g (fst W ep)))) then {ep} else {})"
  by (auto simp: on_node_def paused_nodes_def split: prod.splits)

lemma reply_snd [simp]: "snd (reply crash x) = snd x"
  by (simp add: reply_def)

lemma reply_Inr: "reply crash x = (Inr r, w') \<Longrightarrow> fst x = Ok r \<and> snd x = w'"
  by (auto simp: reply_def split: outcome.splits)

record ('b, 'w, 'x) node_conn =
  conn :: "('b, ('w, 'x) cluster) transport"
  node_bouncer :: "'w PgBouncer"
  node_pacemaker :: "'w pacemaker_executor"
  node_now :: "'w \<Rightarrow> time"

definition server_of :: "('b, 'w, 'x) node_conn \<Rightarrow> 'w Server" where
  "server_of n = node_server (node_bouncer n) (node_pacemaker n) (node_now n)"

text \<open>
  What the path from the command to the poolers is assumed to do: the transports deliver to the servers
  of the nodes, the consoles and the worlds of the nodes behave as documented, and neither the
  lock nor waiting pauses a pooler.
\<close>

definition cluster_ok ::
  "('w, 'x) cluster Failover \<Rightarrow> (string \<Rightarrow> ('b, 'w, 'x) node_conn) \<Rightarrow> 'b codec \<Rightarrow>
     ('w, 'x) cluster interceptor option \<Rightarrow> (panic \<Rightarrow> goerr) \<Rightarrow> ('w \<Rightarrow> bool) \<Rightarrow> bool" where
  "cluster_ok f nodes cd i crash P \<longleftrightarrow> iterates f \<and> codec_ok cd \<and> transparent i \<and>
     (\<forall>(ep, c) \<in> set (clients f). c = NewFailoverClient (conn (nodes ep)) cd \<and>
        connected (conn (nodes ep)) (at_node ep (failover_server (server_of (nodes ep)))) cd i crash \<and>
        console_ok (Executor (node_bouncer (nodes ep))) P \<and> lawful_world (server_of (nodes ep)) P) \<and>
     (\<forall>ctx W. paused_nodes P (snd (Lock (locker_of f) ctx W)) \<subseteq> paused_nodes P W \<and>
        paused_nodes P (snd (Unlock (locker_of f) ctx W)) \<subseteq> paused_nodes P W) \<and>
     (\<forall>t W. paused_nodes P (wait_until f t W) \<subseteq> paused_nodes P W)"

lemma cluster_client:
  assumes "cluster_ok f nodes cd i crash P" and "(ep, c) \<in> set (clients f)"
  shows "HealthCheck c ctx W = reply crash (on_node ep (Server_HealthCheck (server_of (nodes ep)) ctx) W)"
    and "client_Pause c ctx req W = reply crash (on_node ep (Server_Pause (server_of (nodes ep)) ctx req) W)"
    and "client_Resume c ctx W = reply crash (on_node ep (Server_Resume (server_of (nodes ep)) ctx) W)"
    and "client_Migrate c ctx W = reply crash (on_wire cd MMigrateResponse (on_node ep (Server_Migrate (server_of (nodes ep)) ctx) W))"
    and "client_Unmigrate c ctx W = reply crash (on_node ep (Server_Unmigrate (server_of (nodes ep)) ctx) W)"
proof -
  have c: "c = NewFailoverClient (conn (nodes ep)) cd"
    and cc: "connected (conn (nodes ep)) (at_node ep (failover_server (server_of (nodes ep)))) cd i crash"
    and cd: "codec_ok cd" and i: "transparent i"
    using assms unfolding cluster_ok_def by auto
  show "HealthCheck c ctx W = reply crash (on_node ep (Server_HealthCheck (server_of (nodes ep)) ctx) W)"
    and "client_Pause c ctx req W = reply crash (on_node ep (Server_Pause (server_of (nodes ep)) ctx req) W)"
    and "client_Resume c ctx W = reply crash (on_node ep (Server_Resume (server_of (nodes ep)) ctx) W)"
    and "client_Migrate c ctx W = reply crash (on_wire cd MMigrateResponse (on_node ep (Server_Migrate (server_of (nodes ep)) ctx) W))"
    and "client_Unmigrate c ctx W = reply crash (on_node ep (Server_Unmigrate (server_of (nodes ep)) ctx) W)"
    unfolding c by (simp_all add: stub_replies [OF cc cd i] at_node_def failover_server_def)
qed

lemma cluster_node:
  assumes "cluster_ok f nodes cd i crash P" and "(ep, c) \<in> set (clients f)"
  shows "console_ok (Executor (node_bouncer (nodes ep))) P" and "lawful_world (server_of (nodes ep)) P"
  using assms unfolding cluster_ok_def by auto

lemma node_resume:
  assumes "console_ok (Executor b) P" and "s = node_server b p now"
  shows "P (env (snd (Server_Resume s ctx w))) \<Longrightarrow> P (env w)"
    and "fst (Server_Resume s ctx w) = Ok r \<Longrightarrow> \<not> P (env (snd (Server_Resume s ctx w)))"
proof -
  obtain e w' where r: "pauser_Resume (bouncer_pauser b) ctx (env w) = (e, w')" by fastforce
  have "P w' \<longleftrightarrow> e \<noteq> None \<and> P (env w)" by (rule pgb.resume_eq [OF assms(1) r])
  with r show "P (env (snd (Server_Resume s ctx w))) \<Longrightarrow> P (env w)"
    and "fst (Server_Resume s ctx w) = Ok r \<Longrightarrow> \<not> P (env (snd (Server_Resume s ctx w)))"
    by (cases e; simp add: Server_Resume_def assms(2))+
qed

lemma node_cluster_calls:
  assumes "lawful_world s P"
  shows "P (env (snd (Server_Migrate s ctx w))) = P (env w)"
    and "P (env (snd (Server_Unmigrate s ctx w))) = P (env w)"
  using Server_Migrate_env [OF assms, of ctx w] assms
  by (auto simp: Server_Unmigrate_env lawful_world_def)

interpretation cluster: failover_nodes f "paused_nodes P" "cluster_ok f nodes cd i crash P"
  for f :: "('w, 'x) cluster Failover" and nodes and cd :: "'b codec" and i crash P
proof unfold_locales
  fix ep c ctx W
  assume ok: "cluster_ok f nodes cd i crash P" and c: "(ep, c) \<in> set (clients f)"
  note client = cluster_client [OF ok c] and node = cluster_node [OF ok c]
  show "paused_nodes P (snd (HealthCheck c ctx W)) \<subseteq> paused_nodes P W"
    by (auto simp: client on_node_paused Server_HealthCheck_def) (auto simp: paused_nodes_def)
  show "paused_nodes P (snd (client_Pause c ctx req W)) \<subseteq> insert ep (paused_nodes P W)" for req
    by (auto simp: client on_node_paused)
  have "P (env (snd (Server_Resume (server_of (nodes ep)) ctx (fst W ep)))) \<Longrightarrow> ep \<in> paused_nodes P W"
    using node_resume(1) [OF node(1) server_of_def] by (simp add: paused_nodes_def)
  then show "paused_nodes P (snd (client_Resume c ctx W)) \<subseteq> paused_nodes P W"
    by (auto simp: client on_node_paused)
  show "paused_nodes P (snd (client_Migrate c ctx W)) \<subseteq> paused_nodes P W"
    by (auto simp: client on_node_paused node_cluster_calls(1) [OF node(2)]) (simp add: paused_nodes_def)
  show "paused_nodes P (snd (client_Unmigrate c ctx W)) \<subseteq> paused_nodes P W"
    by (auto simp: client on_node_paused node_cluster_calls(2) [OF node(2)]) (simp add: paused_nodes_def)
  show "ep \<notin> paused_nodes P W'" if "client_Resume c ctx W = (Inr resp, W')" for resp W'
  proof -
    have r: "fst (on_node ep (Server_Resume (server_of (nodes ep)) ctx) W) = Ok resp"
      "snd (on_node ep (Server_Resume (server_of (nodes ep)) ctx) W) = W'"
      using that reply_Inr by (metis client(3))+
    then have "fst (Server_Resume (server_of (nodes ep)) ctx (fst W ep)) = Ok resp"
      by (simp add: on_node_def split: prod.splits)
    then show ?thesis
      using node_resume(2) [OF node(1) server_of_def] r(2)
        on_node_paused [of P ep "Server_Resume (server_of (nodes ep)) ctx" W] by auto
  qed
next
  fix ctx W t
  assume ok: "cluster_ok f nodes cd i crash P"
  then show "paused_nodes P (snd (Lock (locker_of f) ctx W)) \<subseteq> paused_nodes P W"
    and "paused_nodes P (snd (Unlock (locker_of f) ctx W)) \<subseteq> paused_nodes P W"
    and "paused_nodes P (wait_until f t W) \<subseteq> paused_nodes P W"
    unfolding cluster_ok_def by blast+
qed (simp add: cluster_ok_def)


section \<open>A cluster for the witnesses\<close>

text \<open>Two nodes with the pooler of \<open>flag_server\<close>, reached by transports without delay.\<close>

definition flag_node :: "string \<Rightarrow> (message, bool \<times> time, unit) node_conn" where
  "flag_node ep =
     \<lparr>conn = local_transport (at_node ep (failover_server flag_server)), node_bouncer = flag_bouncer,
      node_pacemaker = silent_pacemaker, node_now = snd\<rparr>"

definition flag_failover :: "(bool \<times> time, unit) cluster Failover" where
  "flag_failover =
     \<lparr>clients = [(''pg01'', NewFailoverClient (conn (flag_node ''pg01'')) identity_codec),
        (''pg02'', NewFailoverClient (conn (flag_node ''pg02'')) identity_codec)],
      locker_of = \<lparr>Lock = (\<lambda>ctx W. (None, W)), Unlock = (\<lambda>ctx W. (None, W))\<rparr>, opt = default_options,
      Now = (\<lambda>W. 0), iteration = (\<lambda>W cs. cs), host_events = (\<lambda>ctx W. []), wait_until = (\<lambda>t W. W),
      select_notify = (\<lambda>W. True)\<rparr>"

lemma flag_cluster_ok:
  "cluster_ok flag_failover flag_node identity_codec None (\<lambda>p. Status ''Unavailable'' ''connection closed'') fst"
  by (simp add: cluster_ok_def flag_failover_def iterates_def identity_codec_ok transparent_def intercept_def
      flag_node_def server_of_def local_transport_connected flag_console_ok flag_lawful)


definition dead_transport :: "('b, 'w) transport" where
  "dead_transport ctx method body w = (Inl (Status ''DeadlineExceeded'' ''context deadline exceeded''), w)"

definition late_failover :: "nat Failover" where
  "late_failover = (counting_failover [])\<lparr>clients := [(''pg01'', NewFailoverClient dead_transport identity_codec)],
     Failover.Now := (\<lambda>n. 30000000000)\<rparr>"

theorem late_cleanup_does_nothing_witness:
  "\<exists>err. Failover.Resume late_failover (deferCtx 0) 5 = (Err err, 5)"
proof -
  have "iterates late_failover" by (simp add: iterates_def late_failover_def counting_failover_def)
  moreover have "clients late_failover \<noteq> []" by (simp add: late_failover_def)
  moreover have "\<exists>cc. c = NewFailoverClient cc identity_codec \<and> heeds_deadline (Failover.Now late_failover) cc"
    if "(ep, c) \<in> set (clients late_failover)" for ep c
    using that by (auto simp: late_failover_def heeds_deadline_def dead_transport_def)
  ultimately show ?thesis
    using late_cleanup_does_nothing [of late_failover identity_codec 0 5] by (simp add: late_failover_def)
qed

end
