(* ===== verification/Commands.thy ===== *)
theory Commands
  imports Config "HOL-Library.List_Lexorder" "HOL-Library.Multiset" "HOL-Library.Countable"
begin

text \<open>
  The root command (\<open>pkg/cmd/cmd.go\<close>): the tree of its commands with their flags, and the handler of the quit
  signals. The command \<open>config show\<close> (\<open>pkg/cmd/config.go\<close>), which prints the settings in force as a
  configuration file.

  Parameters of the model: the TOML encoder and decoder. What \<open>cobra\<close> and \<open>pflag\<close> do is written out where the
  code relies on it: commands and flags are visited in the order of their names.
\<close>

section \<open>The tree of commands\<close>

datatype command = Command (command_name: string) (NonInheritedFlags: "pflag list") (subcommands: "command list")

text \<open>The flag that \<open>cobra\<close> adds to the command it runs.\<close>

definition help_flag :: pflag where
  "help_flag = (''help'', VString ''false'', ''help for show'')"

definition NewConfigShowCommand :: command where
  "NewConfigShowCommand = Command ''show'' [help_flag] []"

definition NewConfigCommand :: command where
  "NewConfigCommand = Command ''config'' [] [NewConfigShowCommand]"

definition NewFailoverCommand :: command where
  "NewFailoverCommand = Command ''failover'' failover_flags []"

definition NewProxyCommand :: command where
  "NewProxyCommand = Command ''proxy'' proxy_flags []"

definition NewSuperviseCommand :: command where
  "NewSuperviseCommand = Command ''supervise'' supervise_flags []"

definition NewPgcmCommand :: command where
  "NewPgcmCommand = Command ''pgcm'' (config_file_flag # etcd_flags)
     [NewConfigCommand, NewFailoverCommand, NewProxyCommand, NewSuperviseCommand]"

fun walkFlags :: "command \<Rightarrow> pflag list" where
  "walkFlags (Command name fs cs) = sort_key fst fs @ concat (map walkFlags (sort_key command_name cs))"

section \<open>Printing the settings\<close>

definition line :: "string \<Rightarrow> string" where
  "line s = s @ [CHR 0x0A]"

definition show_flag :: "(string \<Rightarrow> setting_value option \<Rightarrow> string) \<Rightarrow> viper \<Rightarrow> pflag \<Rightarrow> string" where
  "show_flag encode v flag =
     (case flag of (name, _, usage) \<Rightarrow>
        if name = ''help'' \<or> name = ''config-file'' then ''''
        else line (''# '' @ usage) @ encode name (find v name) @ line '''')"

text \<open>Writing to the buffer never fails, so that the command returns no error.\<close>

definition configShow_Run :: "(string \<Rightarrow> setting_value option \<Rightarrow> string) \<Rightarrow> viper \<Rightarrow> command \<Rightarrow> goerr option \<times> string" where
  "configShow_Run encode v root =
     (None, line ''# Generated by `pgcm show-config`'' @ line ''# See pgcm --help for more detailed usage'' @
        line (line ''# https://github.com/gocardless/pgsql-cluster-manager'') @
        concat (map (show_flag encode v) (walkFlags root)))"

section \<open>The quit signal\<close>

text \<open>
  The goroutine of \<open>handleQuitSignal\<close> and the delivery of signals. \<open>signal.Notify\<close> sends without blocking on
  a channel with room for one value: the send is dropped when the channel is full, and panics when the
  channel is closed, because the channel is never taken off the list of the package \<open>signal\<close>.
\<close>

datatype quit_pc = QuitWaiting | QuitHandling | QuitClosing | QuitDone

record quit_state =
  quit_pc :: quit_pc
  queued :: bool
  sigc_closed :: bool
  handler_calls :: nat
  crashed :: bool

datatype quit_event = Signal | ReceiveSignal | CallHandler | CloseChannel

fun quit_step :: "quit_event \<Rightarrow> quit_state \<Rightarrow> quit_state option" where
  "quit_step Signal s =
     (if sigc_closed s then Some (s\<lparr>crashed := True\<rparr>) else Some (s\<lparr>queued := True\<rparr>))"
| "quit_step ReceiveSignal s =
     (if quit_pc s = QuitWaiting \<and> queued s then Some (s\<lparr>quit_pc := QuitHandling, queued := False\<rparr>) else None)"
| "quit_step CallHandler s =
     (if quit_pc s = QuitHandling then Some (s\<lparr>quit_pc := QuitClosing, handler_calls := handler_calls s + 1\<rparr>) else None)"
| "quit_step CloseChannel s =
     (if quit_pc s = QuitClosing then Some (s\<lparr>quit_pc := QuitDone, sigc_closed := True\<rparr>) else None)"

fun quit_run :: "quit_event list \<Rightarrow> quit_state \<Rightarrow> quit_state option" where
  "quit_run [] s = Some s"
| "quit_run (e # es) s =
     (if crashed s then None else case quit_step e s of None \<Rightarrow> None | Some s' \<Rightarrow> quit_run es s')"

definition handleQuitSignal :: quit_state where
  "handleQuitSignal = \<lparr>quit_pc = QuitWaiting, queued = False, sigc_closed = False, handler_calls = 0, crashed = False\<rparr>"

section \<open>One signal, and a second one\<close>

text \<open>The control state determines how far the handling has come; \<open>n\<close> counts the signals delivered.\<close>

definition quit_inv :: "nat \<Rightarrow> quit_state \<Rightarrow> bool" where
  "quit_inv n s \<longleftrightarrow>
     handler_calls s = (if quit_pc s = QuitWaiting \<or> quit_pc s = QuitHandling then 0 else 1) \<and>
     (sigc_closed s \<longleftrightarrow> quit_pc s = QuitDone) \<and>
     (queued s \<or> quit_pc s \<noteq> QuitWaiting \<longrightarrow> 1 \<le> n) \<and>
     (crashed s \<longrightarrow> quit_pc s = QuitDone \<and> 2 \<le> n)"

lemma quit_inv_step:
  "quit_step e s = Some s' \<Longrightarrow> quit_inv n s \<Longrightarrow> \<not> crashed s \<Longrightarrow> quit_inv (if e = Signal then Suc n else n) s'"
  by (cases e; cases "quit_pc s") (auto simp: quit_inv_def split: if_splits)

lemma quit_inv_run:
  "quit_run es s = Some s' \<Longrightarrow> quit_inv n s \<Longrightarrow> quit_inv (n + count_list es Signal) s'"
proof (induction es arbitrary: s n)
  case (Cons e es)
  then obtain s1 where s1: "quit_step e s = Some s1" "\<not> crashed s" "quit_run es s1 = Some s'"
    by (auto split: option.splits if_splits)
  from Cons.IH [OF s1(3) quit_inv_step [OF s1(1) Cons.prems(2) s1(2)]] show ?case
    by (cases "e = Signal") simp_all
qed simp

text \<open>
  The handler of the quit signals runs at most once, and the process does not crash before a second
  signal. But once the handler has run and the channel is closed, the next signal panics: an operator
  who presses the interrupt key twice ends the process without the clean-up that the first
  signal has started.
\<close>

theorem quit_signal_once:
  assumes "quit_run es handleQuitSignal = Some s"
  shows "handler_calls s \<le> 1 \<and> (crashed s \<longrightarrow> handler_calls s = 1 \<and> 2 \<le> count_list es Signal) \<and>
    (quit_pc s = QuitDone \<and> \<not> crashed s \<longrightarrow> map_option crashed (quit_run (es @ [Signal]) handleQuitSignal) = Some True)"
proof -
  have "quit_inv 0 handleQuitSignal" by (simp add: quit_inv_def handleQuitSignal_def)
  with quit_inv_run [OF assms] have inv: "quit_inv (count_list es Signal) s" by fastforce
  have "quit_run (es @ es') s0 = Option.bind (quit_run es s0) (quit_run es')" for es es' s0
    by (induction es arbitrary: s0) (auto split: option.splits)
  with assms inv show ?thesis by (auto simp: quit_inv_def)
qed

theorem quit_signal_once_witness:
  "map_option crashed (quit_run ([Signal, ReceiveSignal, CallHandler, CloseChannel] @ [Signal]) handleQuitSignal) = Some True"
proof -
  let ?s = "\<lparr>quit_pc = QuitDone, queued = False, sigc_closed = True, handler_calls = 1, crashed = False\<rparr>"
  have "quit_run [Signal, ReceiveSignal, CallHandler, CloseChannel] handleQuitSignal = Some ?s"
    by (simp add: handleQuitSignal_def)
  from quit_signal_once [OF this] show ?thesis by simp
qed

section \<open>The printed file\<close>

lemma set_walkFlags: "set (walkFlags (Command name fs cs)) = set fs \<union> \<Union> (set ` walkFlags ` set cs)"
  by simp

lemma walk_bound: "set (walkFlags NewPgcmCommand) = insert help_flag (set bound_flags)"
proof -
  have "set (walkFlags NewPgcmCommand) =
      insert config_file_flag (set etcd_flags) \<union> {help_flag} \<union> set failover_flags \<union> set proxy_flags \<union> set supervise_flags"
    unfolding NewPgcmCommand_def NewConfigCommand_def NewConfigShowCommand_def NewFailoverCommand_def
      NewProxyCommand_def NewSuperviseCommand_def
    by (simp del: walkFlags.simps add: set_walkFlags) blast
  then show ?thesis by (auto simp: bound_flags_def)
qed

lemma mset_walkFlags:
  "mset (walkFlags (Command name fs cs)) = mset fs + (\<Sum>c \<in># mset cs. mset (walkFlags c))"
  by (simp add: mset_concat comp_def flip: sum_mset_sum_list)

lemma walk_names_distinct: "distinct (map fst (walkFlags NewPgcmCommand))"
proof -
  have "mset (walkFlags NewPgcmCommand) = mset (help_flag # bound_flags)"
    unfolding NewPgcmCommand_def NewConfigCommand_def NewConfigShowCommand_def NewFailoverCommand_def
      NewProxyCommand_def NewSuperviseCommand_def bound_flags_def
    by (simp del: walkFlags.simps add: mset_walkFlags)
  then have "mset (map fst (walkFlags NewPgcmCommand)) = mset (''help'' # map fst bound_flags)"
    by (simp add: mset_map help_flag_def)
  from mset_eq_imp_distinct_iff [OF this] have "distinct (map fst (walkFlags NewPgcmCommand)) = distinct (''help'' # map fst bound_flags)" .
  moreover have "''help'' \<notin> fst ` set bound_flags" by (simp add: flag_tables)
  ultimately show ?thesis using bound_flags_distinct by simp
qed

text \<open>
  The documents that are printed: comment lines, blank lines and assignments. The documented behaviour of the
  encoder and the decoder is that such a document, with no key twice, reads as its assignments.
\<close>

datatype item = Comment string | Blank | Assign string setting_value

fun print_item :: "(string \<Rightarrow> setting_value option \<Rightarrow> string) \<Rightarrow> item \<Rightarrow> string" where
  "print_item encode (Comment c) = line (''# '' @ c)"
| "print_item encode Blank = line ''''"
| "print_item encode (Assign key x) = encode key (Some x)"

fun assignments :: "item list \<Rightarrow> (string \<times> setting_value) list" where
  "assignments [] = []"
| "assignments (Assign key x # is) = (key, x) # assignments is"
| "assignments (_ # is) = assignments is"

definition one_line :: "item \<Rightarrow> bool" where
  "one_line i \<longleftrightarrow> (case i of Comment c \<Rightarrow> CHR 0x0A \<notin> set c | _ \<Rightarrow> True)"

definition toml_ok :: "(string \<Rightarrow> setting_value option \<Rightarrow> string) \<Rightarrow> (string \<Rightarrow> goerr + (string \<rightharpoonup> setting_value)) \<Rightarrow> bool" where
  "toml_ok encode toml \<longleftrightarrow> (\<forall>is. list_all one_line is \<longrightarrow> distinct (map fst (assignments is)) \<longrightarrow>
     toml (concat (map (print_item encode) is)) = Inr (map_of (assignments is)))"

lemma assignments_append [simp]: "assignments (xs @ ys) = assignments xs @ assignments ys"
  by (induction xs rule: assignments.induct) auto

definition flag_items :: "viper \<Rightarrow> pflag \<Rightarrow> item list" where
  "flag_items v flag =
     (case flag of (name, _, usage) \<Rightarrow>
        if name = ''help'' \<or> name = ''config-file'' then []
        else case find v name of None \<Rightarrow> [] | Some x \<Rightarrow> [Comment usage, Assign name x, Blank])"

definition header_items :: "item list" where
  "header_items = [Comment ''Generated by `pgcm show-config`'', Comment ''See pgcm --help for more detailed usage'',
     Comment ''https://github.com/gocardless/pgsql-cluster-manager'', Blank]"

lemma line_append [simp]: "line (line s) = line s @ line ''''"
  by (simp add: line_def)

lemma configShow_items:
  assumes "\<And>name. name \<in> fst ` set (walkFlags root) - {''help'', ''config-file''} \<Longrightarrow> find v name \<noteq> None"
  shows "snd (configShow_Run encode v root) =
    concat (map (print_item encode) (header_items @ concat (map (flag_items v) (walkFlags root))))"
proof -
  have "show_flag encode v flag = concat (map (print_item encode) (flag_items v flag))" if "flag \<in> set (walkFlags root)" for flag
  proof -
    obtain name d usage where flag: "flag = (name, d, usage)" by (cases flag)
    show ?thesis
    proof (cases "name = ''help'' \<or> name = ''config-file''")
      case True
      then show ?thesis by (auto simp: flag show_flag_def flag_items_def)
    next
      case False
      with assms [of name] that flag obtain x where "find v name = Some x" by force
      with False show ?thesis by (simp add: flag show_flag_def flag_items_def)
    qed
  qed
  then have "map (show_flag encode v) (walkFlags root) = map (\<lambda>flag. concat (map (print_item encode) (flag_items v flag))) (walkFlags root)"
    by (simp del: walkFlags.simps cong: map_cong)
  moreover have "concat (map f (concat (map g xs))) = concat (map (\<lambda>x. concat (map f (g x))) xs)"
    for f :: "item \<Rightarrow> string" and g :: "pflag \<Rightarrow> item list" and xs by (induction xs) auto
  ultimately show ?thesis by (simp add: configShow_Run_def header_items_def del: walkFlags.simps cong: map_cong)
qed

text \<open>The assignments that are printed, by the names of the flags.\<close>

definition shown_names :: "pflag list \<Rightarrow> string list" where
  "shown_names fs = filter (\<lambda>name. name \<noteq> ''help'' \<and> name \<noteq> ''config-file'') (map fst fs)"

lemma shown_assignments:
  "assignments (concat (map (flag_items v) fs)) = List.map_filter (\<lambda>name. map_option (Pair name) (find v name)) (shown_names fs)"
  by (induction fs) (auto simp: shown_names_def flag_items_def map_filter_simps split: option.splits)

lemma map_of_shown:
  "map_of (List.map_filter (\<lambda>name. map_option (Pair name) (g name)) names) k = (if k \<in> set names then g k else None)"
  by (induction names) (auto simp: map_filter_simps split: option.splits)

lemma distinct_shown:
  "distinct names \<Longrightarrow> distinct (map fst (List.map_filter (\<lambda>name. map_option (Pair name) (g name)) names))"
proof (induction names)
  case (Cons name names)
  have "set (map fst (List.map_filter (\<lambda>name. map_option (Pair name) (g name)) names)) \<subseteq> set names" for names
    by (induction names) (auto simp: map_filter_simps split: option.splits)
  with Cons show ?case by (auto simp: map_filter_simps split: option.splits)
qed (simp add: map_filter_simps)

lemma shown_names_bound:
  "set (shown_names (walkFlags NewPgcmCommand)) = fst ` set bound_flags - {''config-file''}"
proof -
  have "''help'' \<notin> fst ` set bound_flags" by (simp add: flag_tables)
  moreover have "set (shown_names (walkFlags NewPgcmCommand)) = fst ` set (walkFlags NewPgcmCommand) - {''help'', ''config-file''}"
    by (auto simp: shown_names_def simp del: walkFlags.simps)
  moreover have "fst ` set (walkFlags NewPgcmCommand) = insert ''help'' (fst ` set bound_flags)"
    by (simp add: walk_bound help_flag_def)
  ultimately show ?thesis by auto
qed

lemma usage_one_line: "(name, d, usage) \<in> set bound_flags \<Longrightarrow> CHR 0x0A \<notin> set usage"
proof -
  have "list_all (\<lambda>(name, d, usage). CHR 0x0A \<notin> set usage) bound_flags" by (simp add: flag_tables)
  then show "(name, d, usage) \<in> set bound_flags \<Longrightarrow> CHR 0x0A \<notin> set usage" by (fastforce simp: list_all_iff)
qed

text \<open>The keys that the options of a failover are read from.\<close>

definition failover_keys :: "string list" where
  "failover_keys = ''etcd-postgres-master-key'' #
     [''health-check-timeout'', ''lock-timeout'', ''pause-timeout'', ''pause-expiry'', ''resume-timeout'', ''pacemaker-timeout'']"

lemma find_loaded:
  assumes "changed v key = None" and "environ v (env_name key) = None \<or> environ v (env_name key) = Some ''''"
    and "m key = Some x"
  shows "find (v\<lparr>config_file := m\<rparr>) key = Some x"
  using assms by (auto simp: find_def)

lemma find_bound:
  assumes "flags v = bound_flags" and "key \<in> fst ` set bound_flags"
  shows "\<exists>x. find v key = Some x"
proof -
  obtain p where "map_of bound_flags key = Some p"
    using assms(2) by (metis map_of_eq_None_iff not_None_eq)
  with assms(1) show ?thesis by (auto simp: find_def split: option.splits list.splits)
qed

lemma shown_toml:
  assumes toml: "toml_ok encode toml" and bound: "flags v = bound_flags"
  shows "toml (snd (configShow_Run encode v NewPgcmCommand)) =
    Inr (map_of (List.map_filter (\<lambda>name. map_option (Pair name) (find v name)) (shown_names (walkFlags NewPgcmCommand))))"
proof -
  let ?items = "header_items @ concat (map (flag_items v) (walkFlags NewPgcmCommand))"
  have "find v name \<noteq> None" if "name \<in> fst ` set (walkFlags NewPgcmCommand) - {''help'', ''config-file''}" for name
    using find_bound [OF bound, of name] that by (auto simp: walk_bound help_flag_def)
  from configShow_items [OF this] have out:
    "snd (configShow_Run encode v NewPgcmCommand) = concat (map (print_item encode) ?items)" .
  have "list_all one_line header_items" by (simp add: header_items_def one_line_def)
  moreover have "list_all one_line (flag_items v flag)" if "flag \<in> set (walkFlags NewPgcmCommand)" for flag
  proof -
    obtain name d usage where flag: "flag = (name, d, usage)" by (cases flag)
    show ?thesis
      using that usage_one_line [of name d usage]
      by (auto simp: flag flag_items_def one_line_def walk_bound help_flag_def split: option.splits)
  qed
  ultimately have lines: "list_all one_line ?items" by (auto simp: list_all_iff simp del: walkFlags.simps)
  have asg: "assignments ?items =
      List.map_filter (\<lambda>name. map_option (Pair name) (find v name)) (shown_names (walkFlags NewPgcmCommand))"
    by (simp add: header_items_def shown_assignments del: walkFlags.simps)
  have "distinct (map fst (assignments ?items))"
    unfolding asg by (rule distinct_shown) (simp add: shown_names_def walk_names_distinct del: walkFlags.simps)
  with toml lines have "toml (concat (map (print_item encode) ?items)) = Inr (map_of (assignments ?items))"
    unfolding toml_ok_def by blast
  then show ?thesis unfolding out asg .
qed


section \<open>An encoding for the witness\<close>

text \<open>An assignment is a line of digits behind an equals sign, which stand for the pair of key and value.\<close>

instance setting_value :: countable
  by countable_datatype

definition number_line :: "string \<Rightarrow> setting_value option \<Rightarrow> string" where
  "number_line key x = line (CHR ''='' # itoa_nat (to_nat (key, x)))"

definition read_line :: "string \<Rightarrow> (string \<times> setting_value) option" where
  "read_line l =
     (case l of
        [] \<Rightarrow> None
      | c # ds \<Rightarrow>
          (if c = CHR ''='' then
             (case digits_value 0 ds of
                None \<Rightarrow> None
              | Some n \<Rightarrow> (case from_nat n :: string \<times> setting_value option of (key, x) \<Rightarrow> map_option (Pair key) x))
           else None))"

definition number_toml :: "string \<Rightarrow> goerr + (string \<rightharpoonup> setting_value)" where
  "number_toml text = Inr (map_of (List.map_filter read_line (split_on (CHR 0x0A) text)))"

lemma split_on_line: "CHR 0x0A \<notin> set s \<Longrightarrow> split_on (CHR 0x0A) (line s @ rest) = s # split_on (CHR 0x0A) rest"
  by (induction s) (auto simp: line_def)

lemma digits_one_line: "CHR 0x0A \<notin> set (itoa_nat n)"
  using itoa_nat_digits [of "CHR 0x0A" n] by (auto simp: re_digit_def less_eq_char_def)

lemma number_toml_ok: "toml_ok number_line number_toml"
proof -
  have "List.map_filter read_line (split_on (CHR 0x0A) (concat (map (print_item number_line) is))) = assignments is"
    if "list_all one_line is" for "is"
    using that
  proof (induction "is" rule: assignments.induct)
    case 1
    then show ?case by (simp add: map_filter_simps read_line_def)
  next
    case (2 key x items)
    moreover have "CHR 0x0A \<notin> set (CHR ''='' # itoa_nat n)" for n using digits_one_line by simp
    ultimately show ?case
      by (simp add: number_line_def split_on_line map_filter_simps read_line_def digits_value_itoa)
  qed (simp_all add: one_line_def split_on_line map_filter_simps read_line_def)
  then show ?thesis by (simp add: toml_ok_def number_toml_def)
qed



section \<open>Running a command\<close>

text \<open>
  \<open>Execute\<close>: the configuration file is loaded before any command (\<open>PersistentPreRunE\<close> of the root command, which no
  other command overrides), and the process ends with status 1 when this or the command itself fails. The command that
  \<open>cobra\<close> selects is an argument; the root command has the body \<open>root_RunE\<close>.
\<close>

definition root_RunE :: "viper \<Rightarrow> 'w \<Rightarrow> goerr option \<times> 'w" where
  "root_RunE v w = (Some (Plain ''no command given''), w)"

definition Execute ::
  "(string \<Rightarrow> goerr + string) \<Rightarrow> (string \<Rightarrow> goerr + (string \<rightharpoonup> setting_value)) \<Rightarrow> (string \<Rightarrow> 8 word list) \<Rightarrow>
     string \<Rightarrow> (viper \<Rightarrow> 'w \<Rightarrow> goerr option \<times> 'w) \<Rightarrow> viper \<Rightarrow> nat \<Rightarrow> 'w \<Rightarrow> int \<times> nat \<times> 'w" where
  "Execute read toml md5 file RunE v gauge w =
     (case loadConfig read toml md5 file v gauge of
        (Some err, v', gauge') \<Rightarrow> (1, gauge', w)
      | (None, v', gauge') \<Rightarrow>
          (case RunE v' w of
             (Some err, w') \<Rightarrow> (1, gauge', w')
           | (None, w') \<Rightarrow> (0, gauge', w')))"

lemma Execute_succeeds:
  "Execute read toml md5 file RunE v gauge w = (0, gauge', w') \<longleftrightarrow>
     (\<exists>v'. loadConfig read toml md5 file v gauge = (None, v', gauge') \<and> RunE v' w = (None, w'))"
  by (auto simp: Execute_def split: prod.splits option.splits)

lemma Execute_without_command: "fst (Execute read toml md5 file root_RunE v gauge w) = 1"
  by (simp add: Execute_def root_RunE_def split: prod.splits option.splits)

text \<open>What \<open>pgcm version\<close> would print; the command is never added to the root command.\<close>

record build_info =
  Version :: string
  Commit_sha :: string
  GoVersion :: string
  GOOS :: string
  GOARCH :: string
  Date :: string

definition version_output :: "build_info \<Rightarrow> string" where
  "version_output b =
     line (''pgcm Version: '' @ Version b) @ line (''Git SHA: '' @ Commit_sha b) @ line (''Go Version: '' @ GoVersion b) @
     line (''Go OS/Arch: '' @ GOOS b @ ''/'' @ GOARCH b) @ line (''Built at: '' @ Date b)"

lemma version_not_a_command: "''version'' \<notin> command_name ` set (subcommands NewPgcmCommand)"
  by (simp add: NewPgcmCommand_def NewConfigCommand_def NewFailoverCommand_def NewProxyCommand_def NewSuperviseCommand_def)

end
