(* ===== verification/Namespace.thy ===== *)
theory Namespace
  imports Kv
begin

text \<open>
  The namespace of the etcd client (\<open>vendor/github.com/coreos/etcd/clientv3/namespace\<close>), with which
  \<open>mustEtcdClient\<close> of \<open>pkg/cmd/flags.go\<close> wraps the client: every key of a request gets the prefix, every key of
  a response loses it. The wrapped client is shown to be a client of the part of the store below the
  prefix, so that what is proved of the program over a store holds below its namespace.

  The slices that remove the prefix would panic on a shorter key: \<open>range_has_prefix\<close> shows that no such
  key comes back.
\<close>

section \<open>The code\<close>

text \<open>
  The loop of \<open>prefixInterval\<close> increments the last byte and carries over while the result is zero; it is written
  over the reversed prefix.
\<close>

fun carry :: "string \<Rightarrow> string \<times> bool" where
  "carry [] = ([], False)"
| "carry (c # cs) =
     (if byte_succ c \<noteq> CHR 0x00 then (byte_succ c # cs, True)
      else (case carry cs of (ds, ok) \<Rightarrow> (byte_succ c # ds, ok)))"

definition prefixInterval :: "string \<Rightarrow> string \<Rightarrow> string \<Rightarrow> string \<times> string" where
  "prefixInterval pfx key end_key =
     (pfx @ key,
      if end_key = [CHR 0x00] then (case carry (rev pfx) of (e, ok) \<Rightarrow> if ok then rev e else [CHR 0x00])
      else if 1 \<le> length end_key then pfx @ end_key
      else [])"

definition prefixOp :: "string \<Rightarrow> Op \<Rightarrow> Op" where
  "prefixOp pfx op =
     (case prefixInterval pfx (op_key op) (op_end op) of (b, e) \<Rightarrow> op\<lparr>op_key := b, op_end := e\<rparr>)"

fun prefixCmp :: "string \<Rightarrow> Cmp \<Rightarrow> Cmp" where
  "prefixCmp pfx (CmpValue key v) = CmpValue (fst (prefixInterval pfx key [])) v"
| "prefixCmp pfx (CmpCreateRevision key r) = CmpCreateRevision (fst (prefixInterval pfx key [])) r"

definition unprefix_kv :: "string \<Rightarrow> KeyValue \<Rightarrow> KeyValue" where
  "unprefix_kv pfx kv = kv\<lparr>Key := drop (length pfx) (Key kv)\<rparr>"

fun unprefix_response :: "string \<Rightarrow> response \<Rightarrow> response" where
  "unprefix_response pfx (ResponseRange xs) = ResponseRange (map (unprefix_kv pfx) xs)"
| "unprefix_response pfx ResponsePut = ResponsePut"
| "unprefix_response pfx (ResponseDeleteRange n) = ResponseDeleteRange n"

definition unprefixTxnResponse :: "string \<Rightarrow> TxnResponse \<Rightarrow> TxnResponse" where
  "unprefixTxnResponse pfx resp = resp\<lparr>Responses := map (unprefix_response pfx) (Responses resp)\<rparr>"

definition prefix_txn :: "string \<Rightarrow> txn \<Rightarrow> txn" where
  "prefix_txn pfx t =
     \<lparr>IfAll = map (prefixCmp pfx) (IfAll t), ThenDo = map (prefixOp pfx) (ThenDo t), ElseDo = map (prefixOp pfx) (ElseDo t)\<rparr>"

definition ErrEmptyKey :: goerr where
  "ErrEmptyKey = Plain ''etcdserver: key is not provided''"

definition kvPrefix_Do :: "string \<Rightarrow> 'w KV \<Rightarrow> ctx \<Rightarrow> Op \<Rightarrow> 'w \<Rightarrow> (goerr + int \<times> response) \<times> 'w" where
  "kvPrefix_Do pfx kv ctx op w =
     (if op_key op = [] then (Inl ErrEmptyKey, w)
      else
        (case Do kv ctx (prefixOp pfx op) w of
           (Inl err, w') \<Rightarrow> (Inl err, w')
         | (Inr (h, resp), w') \<Rightarrow> (Inr (h, unprefix_response pfx resp), w')))"

definition txnPrefix_Commit :: "string \<Rightarrow> 'w KV \<Rightarrow> 'w committer" where
  "txnPrefix_Commit pfx kv ctx t w =
     (case Commit kv ctx (prefix_txn pfx t) w of
        (Inl err, w') \<Rightarrow> (Inl err, w')
      | (Inr resp, w') \<Rightarrow> (Inr (unprefixTxnResponse pfx resp), w'))"

definition NewKV :: "'w KV \<Rightarrow> string \<Rightarrow> 'w KV" where
  "NewKV kv pfx = \<lparr>Do = kvPrefix_Do pfx kv, Commit = txnPrefix_Commit pfx kv\<rparr>"

text \<open>
  A watch: the options are opaque, so that they are first applied to a \<open>Get\<close> to learn the range; the range end is
  appended to them. Each event of the wrapped watcher loses the prefix of its key.
\<close>

definition watch_op :: "string \<Rightarrow> string \<Rightarrow> OpOption list \<Rightarrow> Op" where
  "watch_op pfx key opts =
     (case prefixInterval pfx key (op_end (OpGet key opts)) of (pfxBegin, pfxEnd) \<Rightarrow>
        OpGet pfxBegin (opts @ (if pfxEnd \<noteq> [] then [WithRange pfxEnd] else [])))"

section \<open>Ranges below a prefix\<close>

definition incrementable :: "string \<Rightarrow> bool" where
  "incrementable pfx \<longleftrightarrow> pfx = [] \<or> last pfx \<noteq> CHR 0xFF"

lemma byte_succ_0: "byte_succ c = CHR 0x00 \<longleftrightarrow> c = CHR 0xFF"
proof
  assume "byte_succ c = CHR 0x00"
  then have "\<not> c < CHR 0xFF" using of_char_byte_succ [of c] by auto
  with le_last_byte [of c] show "c = CHR 0xFF" by simp
next
  have "byte_succ (CHR 0xFF) = CHR 0x00" by code_simp
  then show "c = CHR 0xFF \<Longrightarrow> byte_succ c = CHR 0x00" by simp
qed

text \<open>A carry is not needed, and then the loop computes the end that \<open>getPrefix\<close> computes.\<close>

lemma carry_getPrefix:
  assumes "incrementable pfx"
  shows "(case carry (rev pfx) of (e, ok) \<Rightarrow> if ok then rev e else [CHR 0x00]) = getPrefix pfx"
proof (cases pfx rule: rev_cases)
  case Nil
  then show ?thesis by (simp add: getPrefix_def noPrefixEnd_def)
next
  case (snoc p c)
  with assms have "c \<noteq> CHR 0xFF" by (simp add: incrementable_def)
  with le_last_byte [of c] have "c < CHR 0xFF" by simp
  with snoc \<open>c \<noteq> CHR 0xFF\<close> show ?thesis by (simp add: getPrefix_def byte_succ_0)
qed

lemma getPrefix_nonempty: "getPrefix p \<noteq> []"
proof (cases "prefix_end (rev p)")
  case (Some e)
  then obtain a c where "rev e = a @ [byte_succ c]" using prefix_end_cases [of p] by auto
  with Some show ?thesis by (simp add: getPrefix_def)
qed (simp add: getPrefix_def noPrefixEnd_def)

lemma prefix_drop_iff: "prefix p k \<longleftrightarrow> p @ drop (length p) k = k"
  by (metis append_eq_conv_conj prefix_def)

lemma le_prefix_drop: "prefix p k \<Longrightarrow> p @ a \<le> k \<longleftrightarrow> a \<le> drop (length p) (k :: string)"
  by (auto simp: prefix_def)

lemma drop_prefix_less: "prefix p k \<Longrightarrow> k < p @ a \<longleftrightarrow> drop (length p) (k :: string) < a"
  by (auto simp: prefix_def)

lemma prefixInterval_range:
  assumes "incrementable pfx"
  shows "(case prefixInterval pfx key end_key of (b, e) \<Rightarrow> in_range b e k) \<longleftrightarrow>
    prefix pfx k \<and> in_range key end_key (drop (length pfx) k)"
proof -
  have le: "pfx \<le> k" if "pfx @ key \<le> k"
    using prefix_le [of pfx "pfx @ key"] that by simp
  consider (single) "end_key = []" | (edge) "end_key = noPrefixEnd" | (between) "end_key \<noteq> []" "end_key \<noteq> noPrefixEnd" by blast
  then show ?thesis
  proof cases
    case single
    then show ?thesis by (auto simp: prefixInterval_def in_range_def noPrefixEnd_def prefix_def)
  next
    case edge
    then have e: "prefixInterval pfx key end_key = (pfx @ key, getPrefix pfx)"
      using carry_getPrefix [OF assms] by (simp add: prefixInterval_def noPrefixEnd_def)
    have "in_range (pfx @ key) (getPrefix pfx) k \<longleftrightarrow> pfx @ key \<le> k \<and> prefix pfx k"
    proof (cases "pfx = []")
      case True
      then show ?thesis by (simp add: in_range_def getPrefix_def noPrefixEnd_def)
    next
      case False
      then show ?thesis
        using getPrefix_range [OF False, of k] le getPrefix_nonempty [of pfx] by (auto simp: in_range_def split: if_splits)
    qed
    with e edge show ?thesis by (auto simp: in_range_def noPrefixEnd_def le_prefix_drop)
  next
    case between
    then have e: "prefixInterval pfx key end_key = (pfx @ key, pfx @ end_key)"
      unfolding noPrefixEnd_def prefixInterval_def by (cases end_key) (simp_all only: if_False, simp_all)
    have ne: "pfx @ end_key \<noteq> []" "pfx @ end_key \<noteq> noPrefixEnd"
      using between by (auto simp: noPrefixEnd_def append_eq_Cons_conv)
    have "pfx @ key \<le> k \<and> k < pfx @ end_key \<longleftrightarrow>
        prefix pfx k \<and> key \<le> drop (length pfx) k \<and> drop (length pfx) k < end_key"
      using between_prefix le_prefix_drop drop_prefix_less by blast
    with e between ne show ?thesis by (simp add: in_range_def)
  qed
qed

lemma prefixOp_range:
  "incrementable pfx \<Longrightarrow> in_range (op_key (prefixOp pfx op)) (op_end (prefixOp pfx op)) k \<longleftrightarrow>
     prefix pfx k \<and> in_range (op_key op) (op_end op) (drop (length pfx) k)"
  using prefixInterval_range [of pfx k "op_key op" "op_end op"] by (simp add: prefixOp_def split: prod.splits)

section \<open>The store below a prefix\<close>

definition view_kvs :: "string \<Rightarrow> KeyValue list \<Rightarrow> KeyValue list" where
  "view_kvs pfx xs = map (unprefix_kv pfx) (filter (\<lambda>kv. prefix pfx (Key kv)) xs)"

definition view :: "string \<Rightarrow> store \<Rightarrow> store" where
  "view pfx s = s\<lparr>kvs := view_kvs pfx (kvs s)\<rparr>"

lemma unprefix_kv_sel [simp]:
  "Key (unprefix_kv pfx kv) = drop (length pfx) (Key kv)" "CreateRevision (unprefix_kv pfx kv) = CreateRevision kv"
  "ModRevision (unprefix_kv pfx kv) = ModRevision kv" "Version (unprefix_kv pfx kv) = Version kv"
  "Value (unprefix_kv pfx kv) = Value kv" "Lease (unprefix_kv pfx kv) = Lease kv"
  by (simp_all add: unprefix_kv_def)

lemma prefixOp_sel [simp]:
  "op_key (prefixOp pfx op) = pfx @ op_key op" "op_type (prefixOp pfx op) = op_type op" "op_sort (prefixOp pfx op) = op_sort op"
  "op_limit (prefixOp pfx op) = op_limit op" "op_val (prefixOp pfx op) = op_val op" "leaseID (prefixOp pfx op) = leaseID op"
  "passes_filters (prefixOp pfx op) kv = passes_filters op kv"
  by (simp_all add: prefixOp_def prefixInterval_def passes_filters_def split: prod.splits)

lemma passes_filters_unprefix [simp]: "passes_filters op (unprefix_kv pfx kv) = passes_filters op kv"
  by (simp add: passes_filters_def)

text \<open>Sorting commutes with a renaming that keeps the order of the sort keys.\<close>

lemma insort_key_map:
  "\<forall>y \<in> set (x # xs). \<forall>z \<in> set (x # xs). f (g y) \<le> f (g z) \<longleftrightarrow> h y \<le> h z \<Longrightarrow>
     insort_key f (g x) (map g xs) = map g (insort_key h x xs)"
  by (induction xs) auto

lemma sort_key_map:
  "\<forall>y \<in> set xs. \<forall>z \<in> set xs. f (g y) \<le> f (g z) \<longleftrightarrow> h y \<le> h z \<Longrightarrow>
     sort_key f (map g xs) = map g (sort_key h xs)"
proof (induction xs)
  case (Cons x xs)
  then have "sort_key f (map g xs) = map g (sort_key h xs)" by simp
  moreover have "insort_key f (g x) (map g (sort_key h xs)) = map g (insort_key h x (sort_key h xs))"
    using Cons.prems by (intro insort_key_map) simp
  ultimately show ?case by simp
qed simp

lemma sorted_range_unprefix:
  assumes "\<forall>kv \<in> set xs. prefix pfx (Key kv)"
  shows "sorted_range so (map (unprefix_kv pfx) xs) = map (unprefix_kv pfx) (sorted_range so xs)"
proof -
  have key: "sort_key Key (map (unprefix_kv pfx) xs) = map (unprefix_kv pfx) (sort_key Key xs)"
  proof (rule sort_key_map, intro ballI)
    fix y z
    assume "y \<in> set xs" "z \<in> set xs"
    with assms have "prefix pfx (Key y)" "prefix pfx (Key z)" by blast+
    then obtain a b where "Key y = pfx @ a" "Key z = pfx @ b" by (elim prefixE)
    then show "Key (unprefix_kv pfx y) \<le> Key (unprefix_kv pfx z) \<longleftrightarrow> Key y \<le> Key z" by simp
  qed
  have "sort_by t (map (unprefix_kv pfx) ys) = map (unprefix_kv pfx) (sort_by t ys)" for t ys
    by (cases t) (simp_all add: sort_key_map)
  with key show ?thesis by (simp add: sorted_range_def rev_map split: option.splits SortOrder.splits)
qed

lemma set_sorted_range [simp]: "set (sorted_range so xs) = set xs"
proof -
  have "set (sort_by t ys) = set ys" for t ys by (cases t) simp_all
  then show ?thesis by (simp add: sorted_range_def split: option.splits SortOrder.splits)
qed

lemma range_has_prefix:
  "incrementable pfx \<Longrightarrow> kv \<in> set (range_kvs (prefixOp pfx op) xs) \<Longrightarrow> prefix pfx (Key kv)"
  using prefixOp_range [of pfx op "Key kv"]
  by (auto simp: range_kvs_def Let_def split: if_splits dest: in_set_takeD)

lemma range_view:
  assumes "incrementable pfx"
  shows "range_kvs op (view_kvs pfx xs) = map (unprefix_kv pfx) (range_kvs (prefixOp pfx op) xs)"
proof -
  let ?found = "filter (\<lambda>kv. in_range (op_key (prefixOp pfx op)) (op_end (prefixOp pfx op)) (Key kv) \<and> passes_filters op kv) xs"
  have "filter (\<lambda>kv. in_range (op_key op) (op_end op) (Key kv) \<and> passes_filters op kv) (view_kvs pfx xs) =
      map (unprefix_kv pfx) ?found"
    by (simp add: view_kvs_def filter_map comp_def prefixOp_range [OF assms] conj_commute conj_left_commute del: prefixOp_sel(1))
  moreover have "\<forall>kv \<in> set ?found. prefix pfx (Key kv)"
    by (simp add: prefixOp_range [OF assms] del: prefixOp_sel(1))
  ultimately show ?thesis
    using sorted_range_unprefix [of ?found pfx "op_sort op"]
    by (simp add: range_kvs_def Let_def take_map del: prefixOp_sel(1))
qed

lemma lookup_view: "lookup_key (view_kvs pfx xs) key = map_option (unprefix_kv pfx) (lookup_key xs (pfx @ key))"
proof (induction xs)
  case (Cons kv xs)
  then show ?case by (auto simp: lookup_key_def view_kvs_def prefix_def)
qed (simp add: lookup_key_def view_kvs_def)

lemma holds_view: "holds (view_kvs pfx xs) c \<longleftrightarrow> holds xs (prefixCmp pfx c)"
  by (cases c) (simp_all add: lookup_view prefixInterval_def split: option.splits)

lemma put_view: "put_kv r op (view_kvs pfx xs) = view_kvs pfx (put_kv r (prefixOp pfx op) xs)"
proof (cases "lookup_key xs (pfx @ op_key op)")
  case None
  then show ?thesis
    by (simp add: put_kv_def lookup_view) (simp add: view_kvs_def unprefix_kv_def)
next
  case (Some kv0)
  have "map (\<lambda>kv. if Key kv = op_key op
        then kv\<lparr>ModRevision := r, Version := Version kv + 1, Value := op_val op, Lease := leaseID op\<rparr> else kv) (view_kvs pfx xs) =
      view_kvs pfx (map (\<lambda>kv. if Key kv = pfx @ op_key op
        then kv\<lparr>ModRevision := r, Version := Version kv + 1, Value := op_val op, Lease := leaseID op\<rparr> else kv) xs)"
    by (induction xs) (auto simp: view_kvs_def unprefix_kv_def prefix_def)
  with Some show ?thesis by (simp add: put_kv_def lookup_view cong: if_cong)
qed

lemma op_effect_view:
  assumes "incrementable pfx" and "op_effect r (prefixOp pfx op) xs = (resp, ys)"
  shows "op_effect r op (view_kvs pfx xs) = (unprefix_response pfx resp, view_kvs pfx ys)"
proof (cases "op_type op")
  case tDeleteRange
  let ?in = "\<lambda>kv. in_range (op_key (prefixOp pfx op)) (op_end (prefixOp pfx op)) (Key kv)"
  let ?in' = "\<lambda>kv. in_range (op_key op) (op_end op) (Key kv)"
  have in_view: "?in kv \<longleftrightarrow> prefix pfx (Key kv) \<and> ?in' (unprefix_kv pfx kv)" for kv
    by (simp only: prefixOp_range [OF assms(1)] unprefix_kv_sel)
  have "filter ?in' (view_kvs pfx xs) = map (unprefix_kv pfx) (filter ?in xs)"
    "filter (\<lambda>kv. \<not> ?in' kv) (view_kvs pfx xs) = view_kvs pfx (filter (\<lambda>kv. \<not> ?in kv) xs)"
    unfolding in_view by (induction xs) (auto simp: view_kvs_def)
  with tDeleteRange assms(2) show ?thesis
    by (auto simp add: op_effect_def simp del: prefixOp_sel(1))
qed (use assms in \<open>auto simp: op_effect_def range_view put_view\<close>)

lemma wrote_unprefix [simp]: "wrote (unprefix_response pfx resp) = wrote resp"
  by (cases resp) simp_all

lemma ops_effect_view:
  assumes "incrementable pfx" and "ops_effect r (map (prefixOp pfx) ops) xs = (resps, ys)"
  shows "ops_effect r ops (view_kvs pfx xs) = (map (unprefix_response pfx) resps, view_kvs pfx ys)"
  using assms(2)
proof (induction ops arbitrary: xs resps)
  case (Cons op ops)
  obtain resp zs where one: "op_effect r (prefixOp pfx op) xs = (resp, zs)" by fastforce
  with Cons.prems obtain resps' where rest: "ops_effect r (map (prefixOp pfx) ops) zs = (resps', ys)" "resps = resp # resps'"
    by (auto split: prod.splits)
  from op_effect_view [OF assms(1) one] Cons.IH [OF rest(1)] rest(2) show ?case by simp
qed simp

text \<open>A transaction below the prefix is the prefixed transaction of the whole store.\<close>

lemma txn_effect_view:
  assumes "incrementable pfx" and "txn_effect (prefix_txn pfx t) s = (resp, s')"
  shows "txn_effect t (view pfx s) = (unprefixTxnResponse pfx resp, view pfx s')"
proof -
  have ok: "list_all (holds (kvs s)) (IfAll (prefix_txn pfx t)) \<longleftrightarrow> list_all (holds (kvs (view pfx s))) (IfAll t)"
    by (simp add: prefix_txn_def view_def list_all_iff holds_view)
  have wrote: "list_ex wrote (map (unprefix_response pfx) resps) = list_ex wrote resps" for resps
    by (induction resps) simp_all

  obtain resps ys where e: "ops_effect (revision s + 1)
      (if list_all (holds (kvs (view pfx s))) (IfAll t) then ThenDo (prefix_txn pfx t) else ElseDo (prefix_txn pfx t)) (kvs s) = (resps, ys)"
    by fastforce
  then have "ops_effect (revision s + 1)
      (map (prefixOp pfx) (if list_all (holds (kvs (view pfx s))) (IfAll t) then ThenDo t else ElseDo t)) (kvs s) = (resps, ys)"
    by (auto simp: prefix_txn_def split: if_splits)
  from ops_effect_view [OF assms(1) this]
  have "ops_effect (revision s + 1) (if list_all (holds (kvs (view pfx s))) (IfAll t) then ThenDo t else ElseDo t) (kvs (view pfx s)) =
      (map (unprefix_response pfx) resps, view_kvs pfx ys)"
    by (simp add: view_def)
  with assms(2) e show ?thesis
    by (auto simp: txn_effect_def ok wrote unprefixTxnResponse_def view_def Let_def)
qed

section \<open>The client of a namespace\<close>

lemma unprefix_one_op:
  "prefix_txn pfx (one_op op) = one_op (prefixOp pfx op)"
  by (simp add: prefix_txn_def one_op_def)

interpretation namespaced: kv_service "NewKV kv pfx" "\<lambda>w. view pfx (st w)" "kv_serves kv st \<and> incrementable pfx"
  for kv :: "'w KV" and pfx st
proof unfold_locales
  fix c t w w' resp
  assume law: "kv_serves kv st \<and> incrementable pfx" and "Commit (NewKV kv pfx) c t w = (Inr resp, w')"
  then obtain r where r: "Commit kv c (prefix_txn pfx t) w = (Inr r, w')" "resp = unprefixTxnResponse pfx r"
    by (auto simp: NewKV_def txnPrefix_Commit_def split: prod.splits sum.splits)
  from law served.commit_ok [OF _ r(1), of st] have "txn_effect (prefix_txn pfx t) (st w) = (r, st w')" by simp
  from txn_effect_view [OF _ this] law r(2) show "(resp, view pfx (st w')) = txn_effect t (view pfx (st w))" by simp
next
  fix c t w w' err
  assume law: "kv_serves kv st \<and> incrementable pfx" and "Commit (NewKV kv pfx) c t w = (Inl err, w')"
  then have r: "Commit kv c (prefix_txn pfx t) w = (Inl err, w')"
    by (auto simp: NewKV_def txnPrefix_Commit_def split: prod.splits sum.splits)
  obtain q s' where q: "txn_effect (prefix_txn pfx t) (st w) = (q, s')" by fastforce
  from law served.commit_err [OF _ r, of st] q have "st w' = st w \<or> st w' = s'" by simp
  with txn_effect_view [OF _ q] law
  show "view pfx (st w') = view pfx (st w) \<or> view pfx (st w') = snd (txn_effect t (view pfx (st w)))" by auto
next
  fix c op w w' h resp
  assume law: "kv_serves kv st \<and> incrementable pfx" and "Do (NewKV kv pfx) c op w = (Inr (h, resp), w')"
  then obtain r where r: "Do kv c (prefixOp pfx op) w = (Inr (h, r), w')" "resp = unprefix_response pfx r"
    by (auto simp: NewKV_def kvPrefix_Do_def split: prod.splits sum.splits if_splits)
  from law served.do_ok [OF _ r(1), of st]
  have "txn_effect (prefix_txn pfx (one_op op)) (st w) = (\<lparr>HeaderRevision = h, Succeeded = True, Responses = [r]\<rparr>, st w')"
    by (simp add: unprefix_one_op)
  from txn_effect_view [OF _ this] law r(2)
  show "(\<lparr>HeaderRevision = h, Succeeded = True, Responses = [resp]\<rparr>, view pfx (st w')) = txn_effect (one_op op) (view pfx (st w))"
    by (simp add: unprefixTxnResponse_def)
next
  fix c op w w' err
  assume law: "kv_serves kv st \<and> incrementable pfx" and call: "Do (NewKV kv pfx) c op w = (Inl err, w')"
  show "view pfx (st w') = view pfx (st w) \<or> view pfx (st w') = snd (txn_effect (one_op op) (view pfx (st w)))"
  proof (cases "op_key op = []")
    case True
    with call show ?thesis by (simp add: NewKV_def kvPrefix_Do_def)
  next
    case False
    with call have r: "Do kv c (prefixOp pfx op) w = (Inl err, w')"
      by (auto simp: NewKV_def kvPrefix_Do_def split: prod.splits sum.splits)
    obtain q s' where q: "txn_effect (prefix_txn pfx (one_op op)) (st w) = (q, s')" by fastforce
    from law served.do_err [OF _ r, of st] q have "st w' = st w \<or> st w' = s'" by (simp add: unprefix_one_op)
    with txn_effect_view [OF _ q] law show ?thesis by auto
  qed
qed

text \<open>The keys outside of the prefix.\<close>

definition outside :: "string \<Rightarrow> store \<Rightarrow> KeyValue list" where
  "outside pfx s = filter (\<lambda>kv. \<not> prefix pfx (Key kv)) (kvs s)"

lemma put_outside: "filter (\<lambda>kv. \<not> prefix pfx (Key kv)) (put_kv r (prefixOp pfx op) xs) = filter (\<lambda>kv. \<not> prefix pfx (Key kv)) xs"
proof -
  have "filter (\<lambda>kv. \<not> prefix pfx (Key kv)) (map (\<lambda>kv. if Key kv = pfx @ op_key op then kv\<lparr>ModRevision := r,
      Version := Version kv + 1, Value := op_val op, Lease := leaseID op\<rparr> else kv) xs) = filter (\<lambda>kv. \<not> prefix pfx (Key kv)) xs"
    by (induction xs) (auto simp: prefix_def)
  then show ?thesis by (simp add: put_kv_def split: option.splits cong: if_cong)
qed

lemma ops_outside:
  assumes "incrementable pfx"
  shows "filter (\<lambda>kv. \<not> prefix pfx (Key kv)) (snd (ops_effect r (map (prefixOp pfx) ops) xs)) = filter (\<lambda>kv. \<not> prefix pfx (Key kv)) xs"
proof (induction ops arbitrary: xs)
  case (Cons op ops)
  have "filter (\<lambda>kv. \<not> prefix pfx (Key kv)) (snd (op_effect r (prefixOp pfx op) xs)) = filter (\<lambda>kv. \<not> prefix pfx (Key kv)) xs"
    by (cases "op_type op")
      (auto simp: op_effect_def put_outside prefixOp_range [OF assms] simp del: prefixOp_sel(1) intro!: filter_cong)
  with Cons.IH show ?case by (simp split: prod.splits) (metis snd_conv)
qed simp

lemma txn_outside: "incrementable pfx \<Longrightarrow> outside pfx (snd (txn_effect (prefix_txn pfx t) s)) = outside pfx s"
  using ops_outside [of pfx "revision s + 1" "ThenDo t" "kvs s"] ops_outside [of pfx "revision s + 1" "ElseDo t" "kvs s"]
  by (auto simp: txn_effect_def outside_def prefix_txn_def Let_def split: prod.splits)

lemma commit_outside:
  assumes "kv_serves kv st" and "incrementable pfx"
  shows "outside pfx (st (snd (Commit (NewKV kv pfx) c t w))) = outside pfx (st w)"
proof -
  obtain r w' where r: "Commit kv c (prefix_txn pfx t) w = (r, w')" by fastforce
  then have "st w' = st w \<or> st w' = snd (txn_effect (prefix_txn pfx t) (st w))"
    by (rule served.commit_any [OF assms(1)])
  moreover have "snd (Commit (NewKV kv pfx) c t w) = w'"
    by (simp add: NewKV_def txnPrefix_Commit_def r split: sum.splits)
  ultimately show ?thesis using txn_outside [OF assms(2)] by auto
qed

lemma do_outside:
  assumes "kv_serves kv st" and "incrementable pfx"
  shows "outside pfx (st (snd (Do (NewKV kv pfx) c op w))) = outside pfx (st w)"
proof -
  obtain q v where q: "Do kv c (prefixOp pfx op) w = (q, v)" by fastforce
  then have "st v = st w \<or> st v = snd (txn_effect (prefix_txn pfx (one_op op)) (st w))"
    using served.do_any [OF assms(1)] by (simp add: unprefix_one_op)
  moreover have "snd (Do (NewKV kv pfx) c op w) \<in> {w, v}"
    by (auto simp: NewKV_def kvPrefix_Do_def q split: sum.splits)
  ultimately show ?thesis using txn_outside [OF assms(2)] by auto
qed

lemma lookup_outside: "\<not> prefix pfx k \<Longrightarrow> lookup_key (kvs s) k = lookup_key (outside pfx s) k"
proof -
  assume k: "\<not> prefix pfx k"
  have "lookup_key xs k = lookup_key (filter (\<lambda>kv. \<not> prefix pfx (Key kv)) xs) k" for xs
    using k by (induction xs) (auto simp: lookup_key_def)
  then show ?thesis by (simp add: outside_def)
qed

text \<open>
  C11. The client of a namespace behaves like a client of a store that holds the keys below the prefix, without the
  prefix: every transaction and every request acts on this part of the store and answers from it as it
  would on a store of its own, and no key outside of the prefix is ever changed, whether the request
  succeeds or fails. The prefix must not end in the byte 0xff.
\<close>

theorem namespaced_serves:
  assumes "kv_serves kv st" and "incrementable pfx"
  shows "kv_serves (NewKV kv pfx) (\<lambda>w. view pfx (st w)) \<and>
    outside pfx (st (snd (Commit (NewKV kv pfx) c t w))) = outside pfx (st w) \<and>
    outside pfx (st (snd (Do (NewKV kv pfx) c op w))) = outside pfx (st w)"
  using namespaced.all_served [of kv st pfx] commit_outside [OF assms] do_outside [OF assms] assms by blast

theorem namespaced_serves_witness:
  "kv_serves (NewKV memory_kv ''/ns'') (\<lambda>s. view ''/ns'' s) \<and>
   outside ''/ns'' (snd (Do (NewKV memory_kv ''/ns'') Background (OpDelete ''/master'' []) \<lparr>revision = 4, kvs = []\<rparr>)) = []"
proof -
  have "incrementable ''/ns''" by (simp add: incrementable_def)
  from namespaced_serves [OF memory_serves this, where w = "\<lparr>revision = 4, kvs = []\<rparr>" and c = Background
      and op = "OpDelete ''/master'' []"]
  show ?thesis by (simp add: outside_def)
qed

text \<open>
  C22. An event stream of \<open>pkg/etcd\<close> watches the prefix \<open>/\<close> of its namespace: the range that is requested from the
  service holds exactly the keys that are the namespace, a slash and anything. A configured key that does
  not start with a slash is never in the watch, and only the polls report it.
\<close>

theorem stream_watch_range:
  assumes "incrementable ns"
  shows "in_range (op_key (watch_op ns ''/'' [WithPrefix])) (op_end (watch_op ns ''/'' [WithPrefix])) k \<longleftrightarrow>
    (\<exists>key. k = ns @ key \<and> prefix ''/'' key)"
proof -
  have get: "op_end (OpGet ''/'' [WithPrefix]) = getPrefix ''/''" by (simp add: OpGet_def op_defs)
  obtain b e where be: "prefixInterval ns ''/'' (getPrefix ''/'') = (b, e)" by fastforce
  have "getPrefix ''/'' = ''0''" by code_simp
  with be have e: "e \<noteq> []" "b = ns @ ''/''" by (auto simp: prefixInterval_def)
  then have "op_key (watch_op ns ''/'' [WithPrefix]) = b" "op_end (watch_op ns ''/'' [WithPrefix]) = e"
    using be get by (simp_all add: watch_op_def OpGet_def op_defs)
  then have "in_range (op_key (watch_op ns ''/'' [WithPrefix])) (op_end (watch_op ns ''/'' [WithPrefix])) k \<longleftrightarrow>
      prefix ns k \<and> prefix ''/'' (drop (length ns) k)"
    using prefixInterval_range [OF assms, of k "''/''" "getPrefix ''/''"] be getPrefix_range [of "''/''"] by simp
  then show ?thesis by (auto simp: prefix_def)
qed

theorem stream_watch_range_witness:
  "in_range (op_key (watch_op ''/ns'' ''/'' [WithPrefix])) (op_end (watch_op ''/ns'' ''/'' [WithPrefix])) ''/ns/master'' \<and>
   \<not> in_range (op_key (watch_op ''/ns'' ''/'' [WithPrefix])) (op_end (watch_op ''/ns'' ''/'' [WithPrefix])) ''/nsmaster''"
  using stream_watch_range [of "''/ns''"] by (simp add: incrementable_def)

end
