(* ===== verification/Mutex.thy ===== *)
theory Mutex
  imports Etcd
begin

text \<open>
  The lock that a failover takes (\<open>concurrency.NewMutex\<close> of \<open>pkg/cmd/failover.go\<close>): the vendored
  \<open>vendor/github.com/coreos/etcd/clientv3/concurrency\<close>, \<open>mutex.go\<close> and \<open>key.go\<close>. Each client has an entry below a
  common prefix, named after the lease of its session; the entry with the smallest create revision has the
  lock, and the others wait until every older entry is gone.

  Each function of the source is cut at its calls to etcd, and any number of clients take these steps in any
  order. Beside them time passes, other programs write keys elsewhere, and a lease can be lost, which
  removes the entries that are attached to it. The client is any one with the documented behaviour
  (\<open>kv_serves\<close>), so that the theorems hold below a namespace too. What a watch delivers, and when it ends, is
  arbitrary.
\<close>

section \<open>The code\<close>

text \<open>\<open>%x\<close> of a signed number.\<close>

definition hex_digit :: "nat \<Rightarrow> char" where
  "hex_digit n = (if n < 10 then char_of (48 + n) else char_of (87 + n))"

fun hex_nat :: "nat \<Rightarrow> string" where
  "hex_nat n = (if n < 16 then [hex_digit n] else hex_nat (n div 16) @ [hex_digit (n mod 16)])"

declare hex_nat.simps [simp del]

definition hex :: "int \<Rightarrow> string" where
  "hex i = (if i < 0 then CHR ''-'' # hex_nat (nat (- i)) else hex_nat (nat i))"

record Mutex =
  mutex_lease :: int   \<comment> \<open>the session, of which only the lease is used\<close>
  mutex_pfx :: string
  myKey :: string
  myRev :: int

definition NewMutex :: "int \<Rightarrow> string \<Rightarrow> Mutex" where
  "NewMutex lease key = \<lparr>mutex_lease = lease, mutex_pfx = key @ ''/'', myKey = '''', myRev = -1\<rparr>"

datatype lock_pc =
    Fresh                          \<comment> \<open>\<open>Lock\<close> has not been called\<close>
  | WaitGet                        \<comment> \<open>in \<open>waitDeletes\<close>, about to look for an older entry\<close>
  | WaitDelete string int          \<comment> \<open>in \<open>waitDelete\<close>, watching this key from this revision\<close>
  | Selecting "goerr option"       \<comment> \<open>at the \<open>select\<close>, with the error of \<open>waitDeletes\<close>\<close>
  | Returned "goerr option" bool   \<comment> \<open>\<open>Lock\<close> has returned; whether the \<open>select\<close> has found the context done\<close>
  | Unlocked "goerr option"        \<comment> \<open>\<open>Unlock\<close> has returned\<close>
  | Panicked panic

record client =
  mutex :: Mutex
  lock_pc :: lock_pc
  lock_ctx :: ctx
  leased :: bool      \<comment> \<open>the lease of the session is alive\<close>

definition lock_txn :: "Mutex \<Rightarrow> txn" where
  "lock_txn m =
     \<lparr>IfAll = [CmpCreateRevision (myKey m) 0],
      ThenDo = [OpPut (myKey m) '''' [WithLease (mutex_lease m)], OpGet (mutex_pfx m) WithFirstCreate],
      ElseDo = [OpGet (myKey m) [], OpGet (mutex_pfx m) WithFirstCreate]\<rparr>"

text \<open>\<open>Responses[i].GetResponseRange().Kvs\<close>, where a response of another kind gives a nil pointer.\<close>

definition response_kvs :: "response list \<Rightarrow> nat \<Rightarrow> KeyValue list outcome" where
  "response_kvs resps i =
     (if i < length resps
      then (case resps ! i of ResponseRange xs \<Rightarrow> Ok xs | _ \<Rightarrow> Panic NilDereference)
      else Panic IndexOutOfRange)"

definition own_revision :: "TxnResponse \<Rightarrow> int outcome" where
  "own_revision resp =
     (if Succeeded resp then Ok (HeaderRevision resp)
      else
        (case response_kvs (Responses resp) 0 of
           Ok (kv # _) \<Rightarrow> Ok (CreateRevision kv)
         | Ok [] \<Rightarrow> Panic IndexOutOfRange
         | Err e \<Rightarrow> Err e
         | Panic p \<Rightarrow> Panic p))"

definition lock_answer :: "client \<Rightarrow> TxnResponse \<Rightarrow> client" where
  "lock_answer c resp =
     (case own_revision resp of
        Ok r \<Rightarrow>
          (case response_kvs (Responses resp) 1 of
             Ok ownerKey \<Rightarrow>
               c\<lparr>mutex := (mutex c)\<lparr>myRev := r\<rparr>,
                 lock_pc := (if ownerKey = [] \<or> CreateRevision (hd ownerKey) = r then Returned None False else WaitGet)\<rparr>
           | Err e \<Rightarrow> c\<lparr>lock_pc := Returned (Some e) False\<rparr>
           | Panic p \<Rightarrow> c\<lparr>lock_pc := Panicked p\<rparr>)
      | Err e \<Rightarrow> c\<lparr>lock_pc := Returned (Some e) False\<rparr>
      | Panic p \<Rightarrow> c\<lparr>lock_pc := Panicked p\<rparr>)"

text \<open>\<open>Lock\<close> up to the wait.\<close>

definition lock_enter :: "'w KV \<Rightarrow> client \<Rightarrow> 'w \<Rightarrow> client \<times> 'w" where
  "lock_enter kv c0 w =
     (let c = c0\<lparr>mutex := (mutex c0)\<lparr>myKey := mutex_pfx (mutex c0) @ hex (mutex_lease (mutex c0))\<rparr>\<rparr> in
      case Commit kv (lock_ctx c) (lock_txn (mutex c)) w of
        (Inl err, w') \<Rightarrow> (c\<lparr>lock_pc := Returned (Some err) False\<rparr>, w')
      | (Inr resp, w') \<Rightarrow> (lock_answer c resp, w'))"

definition wait_op :: "Mutex \<Rightarrow> Op" where
  "wait_op m = OpGet (mutex_pfx m) (WithLastCreate @ [WithMaxCreateRev (myRev m - 1)])"

text \<open>One look for an older entry in the loop of \<open>waitDeletes\<close>.\<close>

definition wait_get :: "'w KV \<Rightarrow> client \<Rightarrow> 'w \<Rightarrow> client \<times> 'w" where
  "wait_get kv c w =
     (case Do kv (lock_ctx c) (wait_op (mutex c)) w of
        (Inl err, w') \<Rightarrow> (c\<lparr>lock_pc := Selecting (Some err)\<rparr>, w')
      | (Inr (h, resp), w') \<Rightarrow>
          (case resp of
             ResponseRange [] \<Rightarrow> (c\<lparr>lock_pc := Selecting None\<rparr>, w')
           | ResponseRange (x # _) \<Rightarrow> (c\<lparr>lock_pc := WaitDelete (Key x) h\<rparr>, w')
           | _ \<Rightarrow> (c\<lparr>lock_pc := Panicked NilDereference\<rparr>, w')))"

text \<open>
  \<open>waitDelete\<close> over the responses that the watch delivers until its channel is closed, where \<open>wr\<close> is the one received
  last: the first deletion ends it.
\<close>

record WatchResponse =
  Events :: "event list"
  wr_Err :: "goerr option"

fun waitDelete :: "WatchResponse \<Rightarrow> WatchResponse list \<Rightarrow> goerr option \<Rightarrow> goerr option" where
  "waitDelete wr [] ctx_Err =
     (case wr_Err wr of
        Some err \<Rightarrow> Some err
      | None \<Rightarrow>
          (case ctx_Err of
             Some err \<Rightarrow> Some err
           | None \<Rightarrow> Some (Plain ''lost watcher waiting for delete'')))"
| "waitDelete _ (wr # wrs) ctx_Err =
     (if list_ex (\<lambda>ev. Type ev = DELETE) (Events wr) then None else waitDelete wr wrs ctx_Err)"

definition wait_done :: "WatchResponse list \<Rightarrow> goerr option \<Rightarrow> client \<Rightarrow> client" where
  "wait_done wrs ctx_Err c =
     (case waitDelete \<lparr>Events = [], wr_Err = None\<rparr> wrs ctx_Err of
        Some err \<Rightarrow> c\<lparr>lock_pc := Selecting (Some err)\<rparr>
      | None \<Rightarrow> c\<lparr>lock_pc := WaitGet\<rparr>)"

definition mutex_Unlock :: "'w KV \<Rightarrow> ctx \<Rightarrow> Mutex \<Rightarrow> 'w \<Rightarrow> (goerr option \<times> Mutex) \<times> 'w" where
  "mutex_Unlock kv ctx m w =
     (case Do kv ctx (OpDelete (myKey m) []) w of
        (Inl err, w') \<Rightarrow> ((Some err, m), w')
      | (Inr _, w') \<Rightarrow> ((None, m\<lparr>myKey := [CHR 0x00], myRev := -1\<rparr>), w'))"

text \<open>The \<open>select\<close> at the end of \<open>Lock\<close>, which returns \<open>werr\<close> in both cases. The error of \<open>Unlock\<close> is dropped.\<close>

definition lock_select :: "'w KV \<Rightarrow> time \<Rightarrow> goerr option \<Rightarrow> client \<Rightarrow> 'w \<Rightarrow> client \<times> 'w" where
  "lock_select kv t werr c w =
     (if ctx_expired (lock_ctx c) t
      then (case mutex_Unlock kv Background (mutex c) w of
              ((_, m), w') \<Rightarrow> (c\<lparr>mutex := m, lock_pc := Returned werr True\<rparr>, w'))
      else (c\<lparr>lock_pc := Returned werr False\<rparr>, w))"

definition client_unlock :: "'w KV \<Rightarrow> ctx \<Rightarrow> client \<Rightarrow> 'w \<Rightarrow> client \<times> 'w" where
  "client_unlock kv ctx c w =
     (case mutex_Unlock kv ctx (mutex c) w of ((r, m), w') \<Rightarrow> (c\<lparr>mutex := m, lock_pc := Unlocked r\<rparr>, w'))"

section \<open>Many clients\<close>

record 'w lock_state =
  lock_world :: 'w
  lock_now :: time
  lock_client :: "nat \<Rightarrow> client"

definition lock_start :: "string \<Rightarrow> (nat \<Rightarrow> int) \<Rightarrow> (nat \<Rightarrow> ctx) \<Rightarrow> time \<Rightarrow> 'w \<Rightarrow> 'w lock_state" where
  "lock_start key lease ctx t w =
     \<lparr>lock_world = w, lock_now = t,
      lock_client = (\<lambda>i. \<lparr>mutex = NewMutex (lease i) key, lock_pc = Fresh, lock_ctx = ctx i, leased = True\<rparr>)\<rparr>"

text \<open>The entries below the prefix of the lock.\<close>

definition entries :: "string \<Rightarrow> store \<Rightarrow> KeyValue list" where
  "entries p s = filter (\<lambda>kv. prefix p (Key kv)) (kvs s)"

definition moves :: "'w lock_state \<Rightarrow> nat \<Rightarrow> client \<times> 'w \<Rightarrow> 'w lock_state" where
  "moves s i x = s\<lparr>lock_client := (lock_client s)(i := fst x), lock_world := snd x\<rparr>"

inductive lock_step :: "'w KV \<Rightarrow> ('w \<Rightarrow> store) \<Rightarrow> string \<Rightarrow> 'w lock_state \<Rightarrow> 'w lock_state \<Rightarrow> bool"
  for kv st p where
  elapse: "lock_step kv st p s (s\<lparr>lock_now := lock_now s + int n\<rparr>)"
| others: "entries p (st w) = entries p (st (lock_world s)) \<Longrightarrow> revision (st (lock_world s)) \<le> revision (st w) \<Longrightarrow>
     lock_step kv st p s (s\<lparr>lock_world := w\<rparr>)"
| expire: "entries p (st w) = filter (\<lambda>x. Lease x \<noteq> mutex_lease (mutex (lock_client s i))) (entries p (st (lock_world s))) \<Longrightarrow>
     revision (st (lock_world s)) \<le> revision (st w) \<Longrightarrow>
     lock_step kv st p s (moves s i ((lock_client s i)\<lparr>leased := False\<rparr>, w))"
| enter: "lock_pc (lock_client s i) = Fresh \<Longrightarrow>
     lock_step kv st p s (moves s i (lock_enter kv (lock_client s i) (lock_world s)))"
| get: "lock_pc (lock_client s i) = WaitGet \<Longrightarrow>
     lock_step kv st p s (moves s i (wait_get kv (lock_client s i) (lock_world s)))"
| waited: "lock_pc (lock_client s i) = WaitDelete k h \<Longrightarrow>
     lock_step kv st p s (moves s i (wait_done wrs ctx_Err (lock_client s i), lock_world s))"
| select: "lock_pc (lock_client s i) = Selecting werr \<Longrightarrow>
     lock_step kv st p s (moves s i (lock_select kv (lock_now s) werr (lock_client s i) (lock_world s)))"
| unlock: "lock_pc (lock_client s i) = Returned r b \<Longrightarrow>
     lock_step kv st p s (moves s i (client_unlock kv ctx (lock_client s i) (lock_world s)))"

section \<open>Names of entries\<close>

lemma of_char_hex_digit: "n < 16 \<Longrightarrow> of_char (hex_digit n) = (if n < 10 then 48 + n else 87 + n :: nat)"
  by (simp add: hex_digit_def of_char_of)

lemma hex_digit_inj:
  assumes "m < 16" and "n < 16" and "hex_digit m = hex_digit n"
  shows "m = n"
proof -
  have "(of_char (hex_digit m) :: nat) = of_char (hex_digit n)" using assms(3) by simp
  then show ?thesis
    unfolding of_char_hex_digit [OF assms(1)] of_char_hex_digit [OF assms(2)] using assms(1,2) by (simp split: if_splits)
qed

lemma hex_digit_minus:
  assumes "n < 16"
  shows "hex_digit n \<noteq> CHR ''-''"
proof
  assume "hex_digit n = CHR ''-''"
  then have "of_char (hex_digit n) = (of_char (CHR ''-'') :: nat)" by simp
  then show False unfolding of_char_hex_digit [OF assms] by (simp split: if_splits)
qed

lemma hex_nat_snoc: "hex_nat n = (if n < 16 then [] else hex_nat (n div 16)) @ [hex_digit (n mod 16)]"
  by (subst hex_nat.simps) simp

lemma hex_nat_nonempty [simp]: "hex_nat n \<noteq> []"
  by (subst hex_nat_snoc) simp

lemma hex_nat_inj: "hex_nat m = hex_nat n \<Longrightarrow> m = n"
proof (induction m arbitrary: n rule: hex_nat.induct)
  case (1 m)
  have last: "hex_digit (m mod 16) = hex_digit (n mod 16)"
    and front: "(if m < 16 then [] else hex_nat (m div 16)) = (if n < 16 then [] else hex_nat (n div 16))"
    using "1.prems" hex_nat_snoc [of m] hex_nat_snoc [of n] by simp_all
  have "m mod 16 = n mod 16" using last by (intro hex_digit_inj) simp_all
  moreover have "m div 16 = n div 16"
  proof (cases "m < 16")
    case True
    with front have "n < 16" using hex_nat_nonempty [of "n div 16"] by (metis (full_types))
    with True show ?thesis by simp
  next
    case False
    with front have "hex_nat (m div 16) = hex_nat (n div 16)" by (simp split: if_splits)
    with "1.IH" False show ?thesis by blast
  qed
  ultimately show ?case by (metis div_mult_mod_eq)
qed

lemma hex_nat_no_minus: "hex_nat n \<noteq> CHR ''-'' # s"
proof (induction n arbitrary: s rule: hex_nat.induct)
  case (1 n)
  then show ?case
    by (subst hex_nat_snoc) (auto simp: hex_digit_minus append_eq_Cons_conv split: if_splits)
qed

lemma hex_inj: "hex i = hex j \<longleftrightarrow> i = j"
proof
  assume h: "hex i = hex j"
  then show "i = j"
    using hex_nat_no_minus hex_nat_inj by (auto simp: hex_def split: if_splits dest!: hex_nat_inj) (metis hex_nat_no_minus)+
qed simp

section \<open>What a step does to the entries\<close>

definition own_key :: "string \<Rightarrow> int \<Rightarrow> string" where
  "own_key p l = p @ hex l"

text \<open>
  Every entry is named after its lease, no two have the same name or the same create revision, and none is
  newer than the store. Revisions are positive.
\<close>

definition entries_ok :: "string \<Rightarrow> store \<Rightarrow> bool" where
  "entries_ok p s \<longleftrightarrow> 0 \<le> revision s \<and> distinct (map Key (entries p s)) \<and> distinct (map CreateRevision (entries p s)) \<and>
     (\<forall>x \<in> set (entries p s). 0 < CreateRevision x \<and> CreateRevision x \<le> revision s \<and> Key x = own_key p (Lease x))"

text \<open>The effect on the entries of a step of the client with the lease \<open>l\<close>, seen by the others.\<close>

definition acts :: "string \<Rightarrow> int \<Rightarrow> store \<Rightarrow> store \<Rightarrow> bool" where
  "acts p l s s' \<longleftrightarrow> revision s \<le> revision s' \<and>
     (\<forall>x \<in> set (entries p s). Key x \<noteq> own_key p l \<longrightarrow> x \<in> set (entries p s')) \<and>
     (\<forall>x \<in> set (entries p s'). x \<in> set (entries p s) \<or> revision s < CreateRevision x \<and> Key x = own_key p l)"

definition queued :: "string \<Rightarrow> Mutex \<Rightarrow> store \<Rightarrow> bool" where
  "queued p m s \<longleftrightarrow> (\<exists>x \<in> set (entries p s). Key x = own_key p (mutex_lease m) \<and> CreateRevision x = myRev m)"

definition oldest :: "string \<Rightarrow> Mutex \<Rightarrow> store \<Rightarrow> bool" where
  "oldest p m s \<longleftrightarrow> (\<forall>x \<in> set (entries p s). myRev m \<le> CreateRevision x)"

lemma own_key_inj [simp]: "own_key p l = own_key p l' \<longleftrightarrow> l = l'"
  by (simp add: own_key_def hex_inj)

lemma own_key_prefix [simp]: "prefix p (own_key p l)"
  by (simp add: own_key_def)

lemma acts_queued: "acts p l s s' \<Longrightarrow> mutex_lease m \<noteq> l \<Longrightarrow> queued p m s \<Longrightarrow> queued p m s'"
  unfolding acts_def queued_def by auto

lemma acts_oldest:
  assumes "acts p l s s'" and "entries_ok p s" and "queued p m s" and "oldest p m s"
  shows "oldest p m s'"
proof -
  have "myRev m \<le> revision s" using assms(2,3) by (auto simp: queued_def entries_ok_def)
  with assms(1,4) show ?thesis unfolding acts_def oldest_def by force
qed

lemma distinct_entry:
  "distinct (map f xs) \<Longrightarrow> x \<in> set xs \<Longrightarrow> y \<in> set xs \<Longrightarrow> f x = f y \<Longrightarrow> x = y"
  by (auto simp: distinct_map dest: inj_onD)

text \<open>Two clients whose entries are both the oldest are the same.\<close>

lemma oldest_unique:
  assumes "entries_ok p s" and "queued p m s" "oldest p m s" and "queued p m' s" "oldest p m' s"
  shows "mutex_lease m = mutex_lease m'"
proof -
  obtain x y where x: "x \<in> set (entries p s)" "Key x = own_key p (mutex_lease m)" "CreateRevision x = myRev m"
    and y: "y \<in> set (entries p s)" "Key y = own_key p (mutex_lease m')" "CreateRevision y = myRev m'"
    using assms(2,4) by (auto simp: queued_def)
  then have "CreateRevision x = CreateRevision y"
    using assms(3,5) unfolding oldest_def by (metis order_antisym)
  with assms(1) x(1) y(1) have "x = y" by (auto simp: entries_ok_def dest: distinct_entry)
  with x(2) y(2) show ?thesis by simp
qed

lemma entries_refl: "entries p s' = entries p s \<Longrightarrow> revision s \<le> revision s' \<Longrightarrow> acts p l s s'"
  by (simp add: acts_def)

lemma entries_ok_same: "entries_ok p s \<Longrightarrow> entries p s' = entries p s \<Longrightarrow> revision s \<le> revision s' \<Longrightarrow> entries_ok p s'"
  by (auto simp: entries_ok_def)

lemma entries_ok_filter:
  assumes "entries_ok p s" and "entries p s' = filter P (entries p s)" and "revision s \<le> revision s'"
  shows "entries_ok p s'"
  using assms by (auto simp: entries_ok_def distinct_map_filter)

lemma acts_filter:
  assumes "entries p s' = filter P (entries p s)" and "revision s \<le> revision s'"
    and "\<And>x. x \<in> set (entries p s) \<Longrightarrow> \<not> P x \<Longrightarrow> Key x = own_key p l"
  shows "acts p l s s'"
  using assms by (auto simp: acts_def)

section \<open>The requests of the lock\<close>

lemma lookup_entries: "prefix p k \<Longrightarrow> lookup_key (kvs s) k = lookup_key (entries p s) k"
proof -
  assume k: "prefix p k"
  have "lookup_key xs k = lookup_key (filter (\<lambda>x. prefix p (Key x)) xs) k" for xs
    using k by (induction xs) (auto simp: lookup_key_def)
  then show ?thesis by (simp add: entries_def)
qed

lemma lookup_None: "lookup_key xs k = None \<longleftrightarrow> k \<notin> Key ` set xs"
  by (auto simp: lookup_key_def find_None_iff)

lemma lookup_Some: "lookup_key xs k = Some x \<Longrightarrow> x \<in> set xs \<and> Key x = k"
  by (auto simp: lookup_key_def find_Some_iff)

lemma first_create_range:
  assumes "p \<noteq> []"
  shows "range_kvs (OpGet p WithFirstCreate) (kvs s) = take 1 (sort_key CreateRevision (sort_key Key (entries p s)))"
  using assms getPrefix_range [OF assms]
  by (simp add: range_kvs_def OpGet_def op_defs passes_filters_def sorted_range_def entries_def)

lemma first_create_oldest:
  assumes "p \<noteq> []"
  shows "case range_kvs (OpGet p WithFirstCreate) (kvs s) of
      [] \<Rightarrow> entries p s = []
    | x # _ \<Rightarrow> x \<in> set (entries p s) \<and> (\<forall>y \<in> set (entries p s). CreateRevision x \<le> CreateRevision y)"
proof -
  define xs where "xs = sort_key CreateRevision (sort_key Key (entries p s))"
  have "sorted (map CreateRevision xs)" by (simp add: xs_def)
  then have "case take 1 xs of [] \<Rightarrow> set xs = {} | x # _ \<Rightarrow> x \<in> set xs \<and> (\<forall>y \<in> set xs. CreateRevision x \<le> CreateRevision y)"
    by (cases xs) auto
  moreover have "set xs = set (entries p s)" by (simp add: xs_def)
  moreover have "range_kvs (OpGet p WithFirstCreate) (kvs s) = take 1 xs" using first_create_range [OF assms] by (simp add: xs_def)
  ultimately show ?thesis by (cases "take 1 xs") simp_all
qed

lemma own_key_range:
  "set (range_kvs (OpGet k []) (kvs s)) = {x \<in> set (kvs s). Key x = k}"
  by (auto simp: range_kvs_def OpGet_def op_defs passes_filters_def sorted_range_def in_range_def)

lemma wait_op_none:
  assumes "mutex_pfx m \<noteq> []" and "range_kvs (wait_op m) (kvs s) = []"
  shows "oldest (mutex_pfx m) m s"
proof -
  let ?xs = "filter (\<lambda>kv. in_range (op_key (wait_op m)) (op_end (wait_op m)) (Key kv) \<and> passes_filters (wait_op m) kv) (kvs s)"
  have op: "op_key (wait_op m) = mutex_pfx m" "op_end (wait_op m) = getPrefix (mutex_pfx m)" "op_limit (wait_op m) = 1"
    "passes_filters (wait_op m) x \<longleftrightarrow> myRev m = 1 \<or> CreateRevision x \<le> myRev m - 1"
    "op_sort (wait_op m) = Some \<lparr>Target = SortByCreateRevision, Order = SortDescend\<rparr>" for x
    using assms(1) by (auto simp: wait_op_def OpGet_def op_defs passes_filters_def)
  have "?xs = []"
  proof (rule ccontr)
    assume "?xs \<noteq> []"
    then have "sort_key CreateRevision (sort_key Key ?xs) \<noteq> []"
      by (metis (no_types) set_sort set_empty)
    then have "range_kvs (wait_op m) (kvs s) \<noteq> []"
      by (simp add: range_kvs_def op(3,5) sorted_range_def Let_def del: set_empty)
    with assms(2) show False by contradiction
  qed
  then have "\<forall>x \<in> set (entries (mutex_pfx m) s). \<not> (myRev m = 1 \<or> CreateRevision x \<le> myRev m - 1)"
    by (auto simp: filter_empty_conv op(1,2,4) getPrefix_range [OF assms(1)] entries_def)
  then show ?thesis by (auto simp: oldest_def)
qed

text \<open>The two outcomes of the transaction with which \<open>Lock\<close> begins: a new entry, or the old one.\<close>

lemma lock_txn_effect:
  assumes p: "mutex_pfx m = p" "p \<noteq> []" and key: "myKey m = own_key p (mutex_lease m)"
    and positive: "\<forall>x \<in> set (entries p s). 0 < CreateRevision x"
    and effect: "txn_effect (lock_txn m) s = (resp, s')"
  shows "(\<exists>x. entries p s' = entries p s @ [x] \<and> Key x = myKey m \<and> CreateRevision x = revision s' \<and> Lease x = mutex_lease m \<and>
        myKey m \<notin> Key ` set (entries p s) \<and> revision s' = revision s + 1 \<and> Succeeded resp \<and> HeaderRevision resp = revision s' \<and>
        Responses resp = [ResponsePut, ResponseRange (range_kvs (OpGet p WithFirstCreate) (kvs s'))]) \<or>
    (s' = s \<and> myKey m \<in> Key ` set (entries p s) \<and> \<not> Succeeded resp \<and>
        Responses resp = [ResponseRange (range_kvs (OpGet (myKey m) []) (kvs s)),
          ResponseRange (range_kvs (OpGet p WithFirstCreate) (kvs s))])"
proof -
  have look: "lookup_key (kvs s) (myKey m) = lookup_key (entries p s) (myKey m)"
    by (rule lookup_entries) (simp add: key)
  have types: "op_type (OpGet k opts) = tRange" if "opts = [] \<or> opts = WithFirstCreate" for k opts
    using that by (auto simp: OpGet_def op_defs)
  have put: "op_type (OpPut (myKey m) '''' [WithLease (mutex_lease m)]) = tPut"
    "op_key (OpPut (myKey m) '''' [WithLease (mutex_lease m)]) = myKey m"
    "leaseID (OpPut (myKey m) '''' [WithLease (mutex_lease m)]) = mutex_lease m"
    by (simp_all add: OpPut_def op_defs)
  show ?thesis
  proof (cases "lookup_key (entries p s) (myKey m)")
    case None
    let ?put = "OpPut (myKey m) '''' [WithLease (mutex_lease m)]"
    let ?x = "\<lparr>Key = myKey m, CreateRevision = revision s + 1, ModRevision = revision s + 1, Version = 1,
      Value = op_val ?put, Lease = mutex_lease m\<rparr>"
    have put_kv: "put_kv (revision s + 1) ?put (kvs s) = kvs s @ [?x]"
      using None look by (simp add: put_kv_def put)
    then have "resp = \<lparr>HeaderRevision = revision s + 1, Succeeded = True,
          Responses = [ResponsePut, ResponseRange (range_kvs (OpGet p WithFirstCreate) (kvs s @ [?x]))]\<rparr>"
      "s' = \<lparr>revision = revision s + 1, kvs = kvs s @ [?x]\<rparr>"
      using effect None look
      by (auto simp: txn_effect_def lock_txn_def op_effect_def types put put_kv p Let_def)
    moreover have "prefix p (myKey m)" by (simp add: key)
    ultimately have "entries p s' = entries p s @ [?x] \<and> Key ?x = myKey m \<and> CreateRevision ?x = revision s' \<and>
        Lease ?x = mutex_lease m \<and> myKey m \<notin> Key ` set (entries p s) \<and> revision s' = revision s + 1 \<and> Succeeded resp \<and>
        HeaderRevision resp = revision s' \<and>
        Responses resp = [ResponsePut, ResponseRange (range_kvs (OpGet p WithFirstCreate) (kvs s'))]"
      using None by (simp add: entries_def lookup_None)
    then show ?thesis by blast
  next
    case (Some x)
    from lookup_Some [OF Some] have x: "x \<in> set (entries p s)" "Key x = myKey m" by auto
    then have "CreateRevision x \<noteq> 0" "myKey m \<in> Key ` set (entries p s)" using positive by (force simp: image_iff)+
    then show ?thesis
      using effect Some look by (auto simp: txn_effect_def lock_txn_def op_effect_def types put p Let_def)
  qed
qed

section \<open>Steps of one client\<close>

text \<open>What the entries look like after a commit of the transaction, whether it was reported or not.\<close>

lemma lock_txn_acts:
  assumes p: "mutex_pfx m = p" "p \<noteq> []" and key: "myKey m = own_key p (mutex_lease m)" and ok: "entries_ok p s"
  shows "entries_ok p (snd (txn_effect (lock_txn m) s)) \<and> acts p (mutex_lease m) s (snd (txn_effect (lock_txn m) s))"
proof -
  obtain resp s' where e: "txn_effect (lock_txn m) s = (resp, s')" by fastforce
  from ok have pos: "\<forall>x \<in> set (entries p s). 0 < CreateRevision x" by (simp add: entries_ok_def)
  from lock_txn_effect [OF p key pos e] show ?thesis
  proof (elim disjE exE conjE)
    fix x
    assume x: "entries p s' = entries p s @ [x]" "Key x = myKey m" "CreateRevision x = revision s'" "Lease x = mutex_lease m"
      "myKey m \<notin> Key ` set (entries p s)" "revision s' = revision s + 1"
    with ok have "revision s' \<notin> CreateRevision ` set (entries p s)" by (auto simp: entries_ok_def)
    with x ok key have "entries_ok p s'" by (force simp: entries_ok_def)
    moreover from x key have "acts p (mutex_lease m) s s'" by (auto simp: acts_def)
    ultimately show ?thesis using e by simp
  qed (use e ok in \<open>simp add: entries_refl\<close>)
qed

definition lock_inv :: "string \<Rightarrow> client \<Rightarrow> store \<Rightarrow> bool" where
  "lock_inv p c s \<longleftrightarrow> mutex_pfx (mutex c) = p \<and>
     (lock_pc c \<noteq> Fresh \<longrightarrow> myKey (mutex c) = own_key p (mutex_lease (mutex c)) \<or>
        myKey (mutex c) = [CHR 0x00] \<and> own_key p (mutex_lease (mutex c)) \<notin> Key ` set (entries p s)) \<and>
     (\<forall>q. lock_pc c \<noteq> Panicked q) \<and>
     (lock_pc c = WaitGet \<or> (\<exists>k h. lock_pc c = WaitDelete k h) \<or> (\<exists>r. lock_pc c = Selecting r) \<longrightarrow>
        myKey (mutex c) = own_key p (mutex_lease (mutex c)) \<and> (leased c \<longrightarrow> queued p (mutex c) s)) \<and>
     (lock_pc c = Returned None False \<and> leased c \<longrightarrow> queued p (mutex c) s) \<and>
     (lock_pc c = Selecting None \<or> lock_pc c = Returned None False \<longrightarrow> leased c \<longrightarrow> oldest p (mutex c) s)"

text \<open>The steps of others keep it.\<close>

lemma acts_lock_inv:
  assumes "acts p l s s'" and "entries_ok p s" and "mutex_lease (mutex c) \<noteq> l" and inv: "lock_inv p c s"
  shows "lock_inv p c s'"
proof -
  have "queued p (mutex c) s'" if "queued p (mutex c) s" using acts_queued [OF assms(1,3) that] .
  moreover have "oldest p (mutex c) s'" if "queued p (mutex c) s" "oldest p (mutex c) s"
    using acts_oldest [OF assms(1,2) that] .
  moreover have "own_key p (mutex_lease (mutex c)) \<notin> Key ` set (entries p s')"
    if "own_key p (mutex_lease (mutex c)) \<notin> Key ` set (entries p s)"
    using that assms(1,3) by (force simp: acts_def)
  ultimately show ?thesis using inv unfolding lock_inv_def by blast
qed

lemma lock_inv_same: "lock_inv p c s \<Longrightarrow> entries p s' = entries p s \<Longrightarrow> lock_inv p c s'"
  by (simp add: lock_inv_def queued_def oldest_def)

context kv_service
begin

lemma enter_step:
  assumes law: "lawful" and fresh: "lock_pc c = Fresh" and p: "p \<noteq> []" and ok: "entries_ok p (st w)"
    and inv: "lock_inv p c (st w)" and call: "lock_enter kv c w = (c', w')"
  shows "lock_inv p c' (st w') \<and> entries_ok p (st w') \<and> acts p (mutex_lease (mutex c)) (st w) (st w') \<and>
    mutex_lease (mutex c') = mutex_lease (mutex c) \<and> lock_pc c' \<noteq> Fresh"
proof -
  let ?m = "(mutex c)\<lparr>myKey := mutex_pfx (mutex c) @ hex (mutex_lease (mutex c))\<rparr>"
  have m: "mutex_pfx ?m = p" "myKey ?m = own_key p (mutex_lease ?m)" "mutex_lease ?m = mutex_lease (mutex c)"
    using inv by (simp_all add: lock_inv_def own_key_def)
  obtain r v where r: "Commit kv (lock_ctx c) (lock_txn ?m) w = (r, v)" by fastforce
  from commit_any [OF law r] have "st v = st w \<or> st v = snd (txn_effect (lock_txn ?m) (st w))" .
  then have store: "entries_ok p (st v) \<and> acts p (mutex_lease (mutex c)) (st w) (st v)"
    using lock_txn_acts [OF m(1) p m(2) ok] ok m(3) by (auto simp: entries_refl)
  show ?thesis
  proof (cases r)
    case (Inl err)
    then have "c' = c\<lparr>mutex := ?m, lock_pc := Returned (Some err) False\<rparr>" "w' = v"
      using call r by (simp_all add: lock_enter_def Let_def)
    with store m show ?thesis by (simp add: lock_inv_def)
  next
    case (Inr resp)
    then have c': "c' = lock_answer (c\<lparr>mutex := ?m\<rparr>) resp" "w' = v"
      using call r by (simp_all add: lock_enter_def Let_def)
    from ok have pos: "\<forall>x \<in> set (entries p (st w)). 0 < CreateRevision x" by (simp add: entries_ok_def)
    from commit_ok [OF law, of "lock_ctx c" "lock_txn ?m" w resp v] r Inr
    have effect: "txn_effect (lock_txn ?m) (st w) = (resp, st v)" by simp
    define owner where "owner = range_kvs (OpGet p WithFirstCreate) (kvs (st v))"
    have rev: "\<exists>r. own_revision resp = Ok r \<and> response_kvs (Responses resp) 1 = Ok owner \<and>
        (\<exists>x \<in> set (entries p (st v)). Key x = own_key p (mutex_lease (mutex c)) \<and> CreateRevision x = r)"
      using lock_txn_effect [OF m(1) p m(2) pos effect]
    proof (elim disjE exE conjE)
      fix x
      assume "entries p (st v) = entries p (st w) @ [x]" "Key x = myKey ?m" "CreateRevision x = revision (st v)"
        "Succeeded resp" "HeaderRevision resp = revision (st v)"
        "Responses resp = [ResponsePut, ResponseRange (range_kvs (OpGet p WithFirstCreate) (kvs (st v)))]"
      with m show ?thesis by (simp add: own_revision_def response_kvs_def owner_def)
    next
      assume v: "st v = st w" and there: "myKey ?m \<in> Key ` set (entries p (st w))" and no: "\<not> Succeeded resp"
        and resps: "Responses resp = [ResponseRange (range_kvs (OpGet (myKey ?m) []) (kvs (st w))),
          ResponseRange (range_kvs (OpGet p WithFirstCreate) (kvs (st w)))]"
      obtain y ys where y: "range_kvs (OpGet (myKey ?m) []) (kvs (st w)) = y # ys"
        using there own_key_range [of "myKey ?m" "st w"]
        by (cases "range_kvs (OpGet (myKey ?m) []) (kvs (st w))") (auto simp: entries_def)
      with own_key_range [of "myKey ?m" "st w"] have "y \<in> set (kvs (st w))" "Key y = myKey ?m" by auto
      then have "y \<in> set (entries p (st v))" "Key y = own_key p (mutex_lease (mutex c))" using m v by (auto simp: entries_def)
      with y no resps v show ?thesis by (auto simp: own_revision_def response_kvs_def owner_def)
    qed
    then obtain r0 where r0: "own_revision resp = Ok r0" "response_kvs (Responses resp) 1 = Ok owner"
      "\<exists>x \<in> set (entries p (st v)). Key x = own_key p (mutex_lease (mutex c)) \<and> CreateRevision x = r0" by blast
    have oldest: "\<forall>y \<in> set (entries p (st v)). r0 \<le> CreateRevision y" if "owner = [] \<or> CreateRevision (hd owner) = r0"
      using first_create_oldest [OF p, of "st v"] that r0(3) by (cases owner) (auto simp: owner_def)
    have "c' = c\<lparr>mutex := ?m\<lparr>myRev := r0\<rparr>,
        lock_pc := (if owner = [] \<or> CreateRevision (hd owner) = r0 then Returned None False else WaitGet)\<rparr>"
      using r0(1,2) by (simp add: c' lock_answer_def)
    with store m c'(2) r0(3) oldest show ?thesis by (auto simp: lock_inv_def queued_def oldest_def)
  qed
qed

lemma get_step:
  assumes law: "lawful" and pc: "lock_pc c = WaitGet" and p: "p \<noteq> []" and ok: "entries_ok p (st w)"
    and inv: "lock_inv p c (st w)" and call: "wait_get kv c w = (c', w')"
  shows "lock_inv p c' (st w') \<and> st w' = st w \<and> mutex c' = mutex c \<and> lock_pc c' \<noteq> Fresh"
proof -
  obtain r v where r: "Do kv (lock_ctx c) (wait_op (mutex c)) w = (r, v)" by fastforce
  have "op_type (wait_op (mutex c)) = tRange" by (auto simp: wait_op_def OpGet_def op_defs)
  from get_result [OF law this r] have v: "st v = st w"
    and ans: "\<And>h resp. r = Inr (h, resp) \<Longrightarrow> resp = ResponseRange (range_kvs (wait_op (mutex c)) (kvs (st w)))" by auto
  show ?thesis
  proof (cases r)
    case (Inl err)
    with call r have "c' = c\<lparr>lock_pc := Selecting (Some err)\<rparr>" "w' = v" by (simp_all add: wait_get_def)
    with inv v pc show ?thesis by (auto simp: lock_inv_def)
  next
    case (Inr x)
    then obtain h where h: "r = Inr (h, ResponseRange (range_kvs (wait_op (mutex c)) (kvs (st w))))" using ans by (cases x) auto
    show ?thesis
    proof (cases "range_kvs (wait_op (mutex c)) (kvs (st w))")
      case Nil
      with call r h have "c' = c\<lparr>lock_pc := Selecting None\<rparr>" "w' = v" by (simp_all add: wait_get_def)
      moreover have "oldest p (mutex c) (st w)" using wait_op_none [OF _ Nil] inv p by (auto simp: lock_inv_def)
      ultimately show ?thesis using inv v pc by (auto simp: lock_inv_def)
    next
      case (Cons x xs)
      with call r h have "c' = c\<lparr>lock_pc := WaitDelete (Key x) h\<rparr>" "w' = v" by (simp_all add: wait_get_def)
      with inv v pc show ?thesis by (auto simp: lock_inv_def)
    qed
  qed
qed

lemma entries_delete: "kvs s' = filter (\<lambda>x. Key x \<noteq> k) (kvs s) \<Longrightarrow> entries p s' = filter (\<lambda>x. Key x \<noteq> k) (entries p s)"
  by (simp add: entries_def conj_commute)

text \<open>\<open>Unlock\<close>, also after a \<open>Lock\<close> that failed: it removes the entry of the client, if there is one, and no other.\<close>

lemma unlock_entries:
  assumes law: "lawful" and ok: "entries_ok p (st w)" and key: "myKey m = own_key p (mutex_lease m) \<or>
      myKey m = [CHR 0x00] \<and> own_key p (mutex_lease m) \<notin> Key ` set (entries p (st w))"
    and p: "\<exists>q. p = q @ ''/''" and call: "mutex_Unlock kv ctx m w = ((r, m'), w')"
  shows "entries_ok p (st w')" and "acts p (mutex_lease m) (st w) (st w')"
    and "mutex_lease m' = mutex_lease m \<and> mutex_pfx m' = mutex_pfx m"
    and "myKey m' = own_key p (mutex_lease m) \<or> myKey m' = [CHR 0x00] \<and> own_key p (mutex_lease m) \<notin> Key ` set (entries p (st w'))"
    and "r = None \<Longrightarrow> own_key p (mutex_lease m) \<notin> Key ` set (entries p (st w'))"
    and "\<forall>x \<in> set (entries p (st w)). Lease x \<noteq> mutex_lease m \<longrightarrow> x \<in> set (entries p (st w'))"
proof -
  obtain q v where d: "Do kv ctx (OpDelete (myKey m) []) w = (q, v)" by fastforce
  have v: "v = w'" "r = (case q of Inl err \<Rightarrow> Some err | Inr _ \<Rightarrow> None)"
    "m' = (case q of Inl err \<Rightarrow> m | Inr _ \<Rightarrow> m\<lparr>myKey := [CHR 0x00], myRev := -1\<rparr>)"
    using call d by (auto simp: mutex_Unlock_def split: sum.splits)
  have zero: "\<not> prefix p [CHR 0x00]" using p by (auto simp: prefix_Cons append_eq_Cons_conv)
  have own: "Key x = own_key p (mutex_lease m)" if "x \<in> set (entries p (st w))" "Key x = myKey m" for x
    using key that zero by (auto simp: entries_def)
  have store: "st w' = st w \<or> revision (st w) \<le> revision (st w') \<and> entries p (st w') = filter (\<lambda>x. Key x \<noteq> myKey m) (entries p (st w))"
    using delete_result(1) [OF law d] entries_delete v(1) by blast
  then show "entries_ok p (st w')" using ok entries_ok_filter by metis
  show "acts p (mutex_lease m) (st w) (st w')" using store own by (auto simp: entries_refl intro: acts_filter)
  show "mutex_lease m' = mutex_lease m \<and> mutex_pfx m' = mutex_pfx m" by (simp add: v(3) split: sum.splits)
  have gone: "own_key p (mutex_lease m) \<notin> Key ` set (entries p (st w'))" if "q = Inr z" for z
    using delete_result(2) [OF law d that, THEN entries_delete] key v(1) by auto
  show "r = None \<Longrightarrow> own_key p (mutex_lease m) \<notin> Key ` set (entries p (st w'))"
    using gone v(2) by (auto split: sum.splits)
  show "myKey m' = own_key p (mutex_lease m) \<or> myKey m' = [CHR 0x00] \<and> own_key p (mutex_lease m) \<notin> Key ` set (entries p (st w'))"
    using gone key store v(3) by (auto split: sum.splits)
  show "\<forall>x \<in> set (entries p (st w)). Lease x \<noteq> mutex_lease m \<longrightarrow> x \<in> set (entries p (st w'))"
  proof (intro ballI impI)
    fix x
    assume x: "x \<in> set (entries p (st w))" "Lease x \<noteq> mutex_lease m"
    with ok have "Key x \<noteq> own_key p (mutex_lease m)" by (simp add: entries_ok_def)
    with own x(1) have "Key x \<noteq> myKey m" by blast
    with store x(1) show "x \<in> set (entries p (st w'))" by auto
  qed
qed

end

section \<open>All clients\<close>

definition locks_inv :: "('w \<Rightarrow> store) \<Rightarrow> string \<Rightarrow> (nat \<Rightarrow> int) \<Rightarrow> 'w lock_state \<Rightarrow> bool" where
  "locks_inv st p lease s \<longleftrightarrow> entries_ok p (st (lock_world s)) \<and>
     (\<forall>i. mutex_lease (mutex (lock_client s i)) = lease i \<and> lock_inv p (lock_client s i) (st (lock_world s)))"

lemma locks_inv_start:
  assumes "entries_ok (key @ ''/'') (st w)"
  shows "locks_inv st (key @ ''/'') lease (lock_start key lease ctx t w)"
  using assms by (simp add: locks_inv_def lock_start_def lock_inv_def NewMutex_def)

text \<open>A step of one client that keeps its own invariant and acts only on its own entry keeps the invariant of all.\<close>

lemma locks_inv_moves:
  assumes inv: "locks_inv st p lease s" and "inj lease"
    and own: "lock_inv p c (st w)" "mutex_lease (mutex c) = lease i"
    and store: "entries_ok p (st w)" "acts p (lease i) (st (lock_world s)) (st w)"
  shows "locks_inv st p lease (moves s i (c, w))"
proof -
  have "lock_inv p (lock_client s j) (st w)" if "j \<noteq> i" for j
  proof (rule acts_lock_inv [OF store(2)])
    from inv show "entries_ok p (st (lock_world s))" "lock_inv p (lock_client s j) (st (lock_world s))"
      by (simp_all add: locks_inv_def)
    from inv assms(2) that show "mutex_lease (mutex (lock_client s j)) \<noteq> lease i"
      by (auto simp: locks_inv_def dest: injD)
  qed
  then show ?thesis using own store inv by (auto simp: locks_inv_def moves_def)
qed

lemma locks_inv_step:
  assumes law: "kv_serves kv st" and lease: "inj lease" and p: "\<exists>q. p = q @ ''/''"
    and inv: "locks_inv st p lease s" and step: "lock_step kv st p s s'"
  shows "locks_inv st p lease s'"
  using step
proof cases
  case (elapse n)
  with inv show ?thesis by (simp add: locks_inv_def)
next
  case (others w)
  with inv show ?thesis by (auto simp: locks_inv_def intro: entries_ok_same lock_inv_same)
next
  case (expire w i)
  have ok: "entries_ok p (st (lock_world s))" and l: "mutex_lease (mutex (lock_client s i)) = lease i"
    and own: "lock_inv p (lock_client s i) (st (lock_world s))" using inv by (simp_all add: locks_inv_def)
  have "acts p (lease i) (st (lock_world s)) (st w)"
    using expire(2,3) l ok by (intro acts_filter) (auto simp: entries_ok_def)
  moreover have "entries_ok p (st w)" using entries_ok_filter [OF ok expire(2,3)] .
  moreover have "lock_inv p ((lock_client s i)\<lparr>leased := False\<rparr>) (st w)"
    using own expire(2) by (auto simp: lock_inv_def)
  ultimately show ?thesis using locks_inv_moves [OF inv lease] l expire(1) by simp
next
  case (enter i)
  obtain c w where c: "lock_enter kv (lock_client s i) (lock_world s) = (c, w)" by fastforce
  have "p \<noteq> []" using p by auto
  with served.enter_step [OF law enter(2) _ _ _ c] inv show ?thesis
    unfolding enter(1) c using locks_inv_moves [OF inv lease, of c w i] by (auto simp: locks_inv_def)
next
  case (get i)
  obtain c w where c: "wait_get kv (lock_client s i) (lock_world s) = (c, w)" by fastforce
  have "p \<noteq> []" using p by auto
  moreover have ok: "entries_ok p (st (lock_world s))" and own: "lock_inv p (lock_client s i) (st (lock_world s))"
    and l: "mutex_lease (mutex (lock_client s i)) = lease i" using inv by (simp_all add: locks_inv_def)
  ultimately have "lock_inv p c (st w)" "st w = st (lock_world s)" "mutex c = mutex (lock_client s i)"
    using served.get_step [OF law get(2) _ ok own c] by blast+
  then show ?thesis
    unfolding get(1) c using ok l by (intro locks_inv_moves [OF inv lease]) (simp_all add: entries_refl)
next
  case (waited i k h wrs ctx_Err)
  have own: "lock_inv p (lock_client s i) (st (lock_world s))" "mutex_lease (mutex (lock_client s i)) = lease i"
    using inv by (simp_all add: locks_inv_def)
  then have "lock_inv p (wait_done wrs ctx_Err (lock_client s i)) (st (lock_world s)) \<and>
      mutex_lease (mutex (wait_done wrs ctx_Err (lock_client s i))) = lease i"
    using waited(2) by (auto simp: lock_inv_def wait_done_def split: option.splits)
  then show ?thesis
    unfolding waited(1) using locks_inv_moves [OF inv lease] inv by (simp add: locks_inv_def entries_refl)
next
  case (select i werr)
  have ok: "entries_ok p (st (lock_world s))" and l: "mutex_lease (mutex (lock_client s i)) = lease i"
    and own: "lock_inv p (lock_client s i) (st (lock_world s))" using inv by (simp_all add: locks_inv_def)
  show ?thesis
  proof (cases "ctx_expired (lock_ctx (lock_client s i)) (lock_now s)")
    case True
    obtain r m w where u: "mutex_Unlock kv Background (mutex (lock_client s i)) (lock_world s) = ((r, m), w)" by (metis prod.exhaust)
    have key: "myKey (mutex (lock_client s i)) = own_key p (lease i)" using own select(2) l by (auto simp: lock_inv_def)
    note e = served.unlock_entries [OF law ok _ p u]
    have "lock_inv p ((lock_client s i)\<lparr>mutex := m, lock_pc := Returned werr True\<rparr>) (st w)"
      using e(3,4) key l own by (auto simp: lock_inv_def)
    with True u show ?thesis
      unfolding select(1) using locks_inv_moves [OF inv lease] e(1,2,3) key l by (simp add: lock_select_def)
  next
    case False
    have "lock_inv p ((lock_client s i)\<lparr>lock_pc := Returned werr False\<rparr>) (st (lock_world s))"
      using own select(2) by (auto simp: lock_inv_def)
    with False show ?thesis
      unfolding select(1) using locks_inv_moves [OF inv lease] ok l by (simp add: lock_select_def entries_refl)
  qed
next
  case (unlock i r b ctx)
  have ok: "entries_ok p (st (lock_world s))" and l: "mutex_lease (mutex (lock_client s i)) = lease i"
    and own: "lock_inv p (lock_client s i) (st (lock_world s))" using inv by (simp_all add: locks_inv_def)
  obtain r' m w where u: "mutex_Unlock kv ctx (mutex (lock_client s i)) (lock_world s) = ((r', m), w)" by (metis prod.exhaust)
  have key: "myKey (mutex (lock_client s i)) = own_key p (mutex_lease (mutex (lock_client s i))) \<or>
      myKey (mutex (lock_client s i)) = [CHR 0x00] \<and>
      own_key p (mutex_lease (mutex (lock_client s i))) \<notin> Key ` set (entries p (st (lock_world s)))"
    using own unlock(2) by (auto simp: lock_inv_def)
  note e = served.unlock_entries [OF law ok key p u]
  have "lock_inv p ((lock_client s i)\<lparr>mutex := m, lock_pc := Unlocked r'\<rparr>) (st w)"
    using e(3,4) own by (auto simp: lock_inv_def)
  with u show ?thesis
    unfolding unlock(1) using locks_inv_moves [OF inv lease] e(1,2,3) l by (simp add: client_unlock_def)
qed

lemma locks_inv_reachable:
  assumes "kv_serves kv st" and "inj lease" and "\<exists>q. p = q @ ''/''" and "locks_inv st p lease s0"
    and "(lock_step kv st p)\<^sup>*\<^sup>* s0 s"
  shows "locks_inv st p lease s"
  using assms(5) by (induction rule: rtranclp_induct) (use assms in \<open>auto intro: locks_inv_step\<close>)

section \<open>What the lock promises\<close>

lemma lock_owner:
  assumes "kv_serves kv st" and "inj lease" and "entries_ok (key @ ''/'') (st w)"
    and "(lock_step kv st (key @ ''/''))\<^sup>*\<^sup>* (lock_start key lease ctx t w) s"
  shows "lock_pc (lock_client s i) = Returned None False \<Longrightarrow> leased (lock_client s i) \<Longrightarrow>
      (\<exists>x \<in> set (entries (key @ ''/'') (st (lock_world s))). Key x = key @ ''/'' @ hex (lease i) \<and>
        (\<forall>y \<in> set (entries (key @ ''/'') (st (lock_world s))). CreateRevision x \<le> CreateRevision y)) \<and>
      (\<forall>j. lock_pc (lock_client s j) = Returned None False \<and> leased (lock_client s j) \<longrightarrow> j = i)"
    and "lock_pc (lock_client s j) \<noteq> Panicked q"
proof -
  let ?p = "key @ ''/''"
  have inv: "locks_inv st ?p lease s"
    using locks_inv_reachable [OF assms(1,2) _ locks_inv_start [where key = key and st = st and w = w, OF assms(3)] assms(4)] by blast
  then have ok: "entries_ok ?p (st (lock_world s))" and l: "mutex_lease (mutex (lock_client s j)) = lease j"
    and own: "lock_inv ?p (lock_client s j) (st (lock_world s))" for j by (simp_all add: locks_inv_def)
  have q: "queued ?p (mutex (lock_client s j)) (st (lock_world s))" "oldest ?p (mutex (lock_client s j)) (st (lock_world s))"
    if "lock_pc (lock_client s j) = Returned None False" "leased (lock_client s j)" for j
    using own [of j] that by (simp_all add: lock_inv_def)
  show "lock_pc (lock_client s j) \<noteq> Panicked q" using own [of j] by (simp add: lock_inv_def)
  assume i: "lock_pc (lock_client s i) = Returned None False" "leased (lock_client s i)"
  have "j = i" if "lock_pc (lock_client s j) = Returned None False" "leased (lock_client s j)" for j
    using oldest_unique [OF ok q [OF i] q [OF that]] l assms(2) by (auto dest: injD)
  moreover have "\<exists>x \<in> set (entries ?p (st (lock_world s))). Key x = key @ ''/'' @ hex (lease i) \<and>
      (\<forall>y \<in> set (entries ?p (st (lock_world s))). CreateRevision x \<le> CreateRevision y)"
    using q [OF i] l [of i] unfolding queued_def oldest_def own_key_def by auto
  ultimately show "(\<exists>x \<in> set (entries ?p (st (lock_world s))). Key x = key @ ''/'' @ hex (lease i) \<and>
        (\<forall>y \<in> set (entries ?p (st (lock_world s))). CreateRevision x \<le> CreateRevision y)) \<and>
      (\<forall>j. lock_pc (lock_client s j) = Returned None False \<and> leased (lock_client s j) \<longrightarrow> j = i)" by blast
qed

text \<open>
  C5. Mutual exclusion. Of all the clients of a lock, whatever steps they take and whatever else happens to the
  store, at most one has returned from \<open>Lock\<close> without an error with its context not yet done and has its
  lease alive; its entry is in the store and older than every other. No client ever panics.
\<close>

theorem mutex_exclusive:
  assumes "kv_serves kv st" and "inj lease" and "entries_ok (key @ ''/'') (st w)"
    and "(lock_step kv st (key @ ''/''))\<^sup>*\<^sup>* (lock_start key lease ctx t w) s"
    and "lock_pc (lock_client s i) = Returned None False" and "leased (lock_client s i)"
  shows "(\<exists>x \<in> set (entries (key @ ''/'') (st (lock_world s))). Key x = key @ ''/'' @ hex (lease i) \<and>
        (\<forall>y \<in> set (entries (key @ ''/'') (st (lock_world s))). CreateRevision x \<le> CreateRevision y)) \<and>
    (\<forall>j. lock_pc (lock_client s j) = Returned None False \<and> leased (lock_client s j) \<longrightarrow> j = i) \<and>
    (\<forall>j q. lock_pc (lock_client s j) \<noteq> Panicked q)"
  using lock_owner [OF assms(1,2,3,4)] assms(5,6) by blast

text \<open>
  C12. Releasing the lock is harmless, also for a client whose \<open>Lock\<close> has failed or has been given up: \<open>Unlock\<close>
  leaves the entry of every other client as it is. When it succeeds, the entry of the client is gone, also the
  one that a transaction left behind whose answer was lost.
\<close>

theorem release_removes_own:
  assumes "kv_serves kv st" and "inj lease" and "entries_ok (key @ ''/'') (st w)"
    and "(lock_step kv st (key @ ''/''))\<^sup>*\<^sup>* (lock_start key lease ctx t w) s"
    and "lock_pc (lock_client s i) = Returned r b"
    and "client_unlock kv c (lock_client s i) (lock_world s) = (m, w')"
  shows "(\<forall>x \<in> set (entries (key @ ''/'') (st (lock_world s))). Lease x \<noteq> lease i \<longrightarrow> x \<in> set (entries (key @ ''/'') (st w'))) \<and>
    (lock_pc m = Unlocked None \<longrightarrow> (\<forall>x \<in> set (entries (key @ ''/'') (st w')). Key x \<noteq> key @ ''/'' @ hex (lease i) \<and> Lease x \<noteq> lease i))"
proof -
  let ?p = "key @ ''/''"
  have inv: "locks_inv st ?p lease s"
    using locks_inv_reachable [OF assms(1,2) _ locks_inv_start [where key = key and st = st and w = w, OF assms(3)] assms(4)] by blast
  then have ok: "entries_ok ?p (st (lock_world s))" and l: "mutex_lease (mutex (lock_client s i)) = lease i"
    and own: "lock_inv ?p (lock_client s i) (st (lock_world s))" by (simp_all add: locks_inv_def)
  obtain r' m' where u: "mutex_Unlock kv c (mutex (lock_client s i)) (lock_world s) = ((r', m'), w')" "lock_pc m = Unlocked r'"
    using assms(6) by (auto simp: client_unlock_def split: prod.splits)
  have key: "myKey (mutex (lock_client s i)) = own_key ?p (mutex_lease (mutex (lock_client s i))) \<or>
      myKey (mutex (lock_client s i)) = [CHR 0x00] \<and>
      own_key ?p (mutex_lease (mutex (lock_client s i))) \<notin> Key ` set (entries ?p (st (lock_world s)))"
    using own assms(5) by (auto simp: lock_inv_def)
  note e = served.unlock_entries [OF assms(1) ok key _ u(1)]
  have "own_key ?p (Lease x) = Key x" if "x \<in> set (entries ?p (st w'))" for x
    using e(1) that by (auto simp: entries_ok_def)
  with e(5,6) u(2) l show ?thesis by (force simp: own_key_def)
qed

section \<open>Examples\<close>

text \<open>Three sessions on a fresh store; the second one gives up after five seconds, the others after ten.\<close>

definition example_ctx :: "nat \<Rightarrow> ctx" where
  "example_ctx i = WithTimeout Background 0 (if i = 1 then 5 * Second else 10 * Second)"

definition example_client :: "nat \<Rightarrow> string \<Rightarrow> int \<Rightarrow> lock_pc \<Rightarrow> client" where
  "example_client i k r pc =
     \<lparr>mutex = \<lparr>mutex_lease = int i, mutex_pfx = ''/master/'', myKey = k, myRev = r\<rparr>, lock_pc = pc,
      lock_ctx = example_ctx i, leased = True\<rparr>"

definition example_entry :: "int \<Rightarrow> int \<Rightarrow> KeyValue" where
  "example_entry l r =
     \<lparr>Key = ''/master/'' @ hex l, CreateRevision = r, ModRevision = r, Version = 1, Value = '''', Lease = l\<rparr>"

lemma example_enter_0:
  "lock_enter memory_kv (example_client 0 '''' (-1) Fresh) \<lparr>revision = 1, kvs = []\<rparr> =
     (example_client 0 ''/master/0'' 2 (Returned None False), \<lparr>revision = 2, kvs = [example_entry 0 2]\<rparr>)"
  by code_simp

lemma example_enter_1:
  "lock_enter memory_kv (example_client 1 '''' (-1) Fresh) \<lparr>revision = 2, kvs = [example_entry 0 2]\<rparr> =
     (example_client 1 ''/master/1'' 3 WaitGet, \<lparr>revision = 3, kvs = [example_entry 0 2, example_entry 1 3]\<rparr>)"
  by code_simp

lemma example_unlock_0:
  "client_unlock memory_kv Background (example_client 0 ''/master/0'' 2 (Returned None False))
     \<lparr>revision = 3, kvs = [example_entry 0 2, example_entry 1 3]\<rparr> =
     (example_client 0 [CHR 0x00] (-1) (Unlocked None), \<lparr>revision = 4, kvs = [example_entry 1 3]\<rparr>)"
  by code_simp

lemma example_get_1:
  "wait_get memory_kv (example_client 1 ''/master/1'' 3 WaitGet) \<lparr>revision = 4, kvs = [example_entry 1 3]\<rparr> =
     (example_client 1 ''/master/1'' 3 (Selecting None), \<lparr>revision = 4, kvs = [example_entry 1 3]\<rparr>)"
  by code_simp

lemma example_select_1:
  "lock_select memory_kv 5000000000 None (example_client 1 ''/master/1'' 3 (Selecting None))
     \<lparr>revision = 4, kvs = [example_entry 1 3]\<rparr> =
     (example_client 1 [CHR 0x00] (-1) (Returned None True), \<lparr>revision = 5, kvs = []\<rparr>)"
  by code_simp

lemma example_enter_2:
  "lock_enter memory_kv (example_client 2 '''' (-1) Fresh) \<lparr>revision = 5, kvs = []\<rparr> =
     (example_client 2 ''/master/2'' 6 (Returned None False), \<lparr>revision = 6, kvs = [example_entry 2 6]\<rparr>)"
  by code_simp

definition example_locks :: "store lock_state" where
  "example_locks = lock_start ''/master'' int example_ctx 0 \<lparr>revision = 1, kvs = []\<rparr>"

lemma example_locks_sel:
  "lock_client example_locks i = example_client i '''' (-1) Fresh" "lock_world example_locks = \<lparr>revision = 1, kvs = []\<rparr>"
  "lock_now example_locks = 0"
  by (simp_all add: example_locks_def lock_start_def example_client_def NewMutex_def)

lemma example_entries_ok: "entries_ok (''/master'' @ ''/'') \<lparr>revision = 1, kvs = []\<rparr>"
  by (simp add: entries_ok_def entries_def)

abbreviation example_step :: "store lock_state \<Rightarrow> store lock_state \<Rightarrow> bool" where
  "example_step \<equiv> lock_step memory_kv (\<lambda>s. s) (''/master'' @ ''/'')"

lemma lock_pc_example [simp]: "lock_pc (example_client i k r pc) = pc" "leased (example_client i k r pc)"
  by (simp_all add: example_client_def)

lemma moves_sel [simp]:
  "lock_client (moves s i (c, w)) = (lock_client s)(i := c)" "lock_world (moves s i (c, w)) = w"
  "lock_now (moves s i x) = lock_now s"
  by (simp_all add: moves_def)

lemma example_first: "example_step example_locks
    (moves example_locks 0 (example_client 0 ''/master/0'' 2 (Returned None False), \<lparr>revision = 2, kvs = [example_entry 0 2]\<rparr>))"
  using lock_step.enter [of example_locks 0 memory_kv "\<lambda>s. s" "''/master'' @ ''/''"]
  by (simp add: example_locks_sel example_enter_0 del: append_Cons)

text \<open>
  A lock that is handed over too late is lost without an error: when the older entries go away after a \<open>Lock\<close>
  has run into its timeout, \<open>Lock\<close> removes its own entry and returns no error all the same. Here, with all
  leases alive and every request answered, a first client releases the lock, the second one
  finds no older entry, is past its five seconds at the \<open>select\<close>, and returns without an error; the third one
  then gets the lock, while the second one goes on as if it held it.
\<close>

lemma late_lock_is_shared:
  "\<exists>s. (lock_step memory_kv (\<lambda>s. s) (''/master'' @ ''/''))\<^sup>*\<^sup>* example_locks s \<and>
     lock_pc (lock_client s 1) = Returned None True \<and> leased (lock_client s 1) \<and>
     lock_pc (lock_client s 2) = Returned None False \<and> leased (lock_client s 2)"
proof -
  define s1 where "s1 = moves example_locks 0
    (example_client 0 ''/master/0'' 2 (Returned None False), \<lparr>revision = 2, kvs = [example_entry 0 2]\<rparr>)"
  define s2 where "s2 = moves s1 1
    (example_client 1 ''/master/1'' 3 WaitGet, \<lparr>revision = 3, kvs = [example_entry 0 2, example_entry 1 3]\<rparr>)"
  define s3 where "s3 = moves s2 0 (example_client 0 [CHR 0x00] (-1) (Unlocked None), \<lparr>revision = 4, kvs = [example_entry 1 3]\<rparr>)"
  define s4 where "s4 = moves s3 1
    (example_client 1 ''/master/1'' 3 (Selecting None), \<lparr>revision = 4, kvs = [example_entry 1 3]\<rparr>)"
  define s5 where "s5 = s4\<lparr>lock_now := lock_now s4 + int 5000000000\<rparr>"
  define s6 where "s6 = moves s5 1 (example_client 1 [CHR 0x00] (-1) (Returned None True), \<lparr>revision = 5, kvs = []\<rparr>)"
  define s7 where "s7 = moves s6 2 (example_client 2 ''/master/2'' 6 (Returned None False), \<lparr>revision = 6, kvs = [example_entry 2 6]\<rparr>)"
  let ?R = "example_step"
  have "?R example_locks s1" unfolding s1_def by (rule example_first)
  moreover have "?R s1 s2"
    using lock_step.enter [of s1 1 memory_kv "\<lambda>s. s" "''/master'' @ ''/''"] example_enter_1
    by (simp add: s2_def s1_def example_locks_sel)
  moreover have "?R s2 s3"
    using lock_step.unlock [of s2 0 None False memory_kv "\<lambda>s. s" "''/master'' @ ''/''" Background] example_unlock_0
    by (simp add: s3_def s2_def s1_def)
  moreover have "?R s3 s4"
    using lock_step.get [of s3 1 memory_kv "\<lambda>s. s" "''/master'' @ ''/''"] example_get_1
    by (simp add: s4_def s3_def s2_def)
  moreover have "?R s4 s5" unfolding s5_def by (rule lock_step.elapse)
  moreover have "lock_now s5 = 5000000000" by (simp add: s5_def s4_def s3_def s2_def s1_def example_locks_sel)
  then have "?R s5 s6"
    using lock_step.select [of s5 1 None memory_kv "\<lambda>s. s" "''/master'' @ ''/''"] example_select_1
    by (simp add: s6_def s5_def s4_def)
  moreover have "?R s6 s7"
    using lock_step.enter [of s6 2 memory_kv "\<lambda>s. s" "''/master'' @ ''/''"] example_enter_2
    by (simp add: s7_def s6_def s5_def s4_def s3_def s2_def s1_def example_locks_sel)
  ultimately have "?R\<^sup>*\<^sup>* example_locks s7" by (meson converse_rtranclp_into_rtranclp r_into_rtranclp)
  then show ?thesis by (intro exI [of _ s7]) (simp add: s7_def s6_def)
qed

theorem mutex_exclusive_witness:
  "\<exists>s. (lock_step memory_kv (\<lambda>s. s) (''/master'' @ ''/''))\<^sup>*\<^sup>* example_locks s \<and> lock_pc (lock_client s 0) = Returned None False \<and>
     (\<forall>j. lock_pc (lock_client s j) = Returned None False \<and> leased (lock_client s j) \<longrightarrow> j = 0)"
proof -
  let ?s = "moves example_locks 0 (example_client 0 ''/master/0'' 2 (Returned None False), \<lparr>revision = 2, kvs = [example_entry 0 2]\<rparr>)"
  have run: "example_step\<^sup>*\<^sup>* (lock_start ''/master'' int example_ctx 0 \<lparr>revision = 1, kvs = []\<rparr>) ?s"
    using example_first unfolding example_locks_def by (rule r_into_rtranclp)
  have pc: "lock_pc (lock_client ?s 0) = Returned None False" "leased (lock_client ?s 0)" by simp_all
  have "inj int" by (simp add: inj_def)
  from mutex_exclusive [OF memory_serves this example_entries_ok run pc] run pc show ?thesis
    unfolding example_locks_def by blast
qed

theorem release_removes_own_witness:
  "\<exists>s m w'. (lock_step memory_kv (\<lambda>s. s) (''/master'' @ ''/''))\<^sup>*\<^sup>* example_locks s \<and>
     client_unlock memory_kv Background (lock_client s 0) (lock_world s) = (m, w') \<and>
     (lock_pc m = Unlocked None \<longrightarrow> (\<forall>x \<in> set (entries (''/master'' @ ''/'') w'). Lease x \<noteq> 0))"
proof -
  let ?s = "moves example_locks 0 (example_client 0 ''/master/0'' 2 (Returned None False), \<lparr>revision = 2, kvs = [example_entry 0 2]\<rparr>)"
  have run: "example_step\<^sup>*\<^sup>* (lock_start ''/master'' int example_ctx 0 \<lparr>revision = 1, kvs = []\<rparr>) ?s"
    using example_first unfolding example_locks_def by (rule r_into_rtranclp)
  have pc: "lock_pc (lock_client ?s 0) = Returned None False" by simp
  obtain m w' where u: "client_unlock memory_kv Background (lock_client ?s 0) (lock_world ?s) = (m, w')" by fastforce
  have "inj int" by (simp add: inj_def)
  from release_removes_own [OF memory_serves this example_entries_ok run pc u] run u show ?thesis
    unfolding example_locks_def by fastforce
qed

end
