(* ===== verification/Concurrent.thy ===== *)
theory Concurrent
  imports Failover Mutex
begin

text \<open>
  Several \<open>pgcm failover\<close> commands at once. The control of a failover (\<open>Run\<close> of \<open>pkg/failover/failover.go\<close> over
  \<open>Pipeline\<close> of \<open>pkg/failover/pipeline.go\<close>) is cut at its actions: which one runs, and which clean-ups are on the
  stack. Executed on its own it is \<open>Run\<close>. Any number of commands then take these steps in any order, and the actions
  that acquire and release the lock are the steps of the clients of \<open>Mutex\<close>, so that the two models meet:
  a failover that has passed \<open>AcquireLock\<close> is alone with the poolers and the cluster.
\<close>

section \<open>The control of a failover\<close>

datatype failover_call = CHealthCheck | CAcquireLock | CReleaseLock | CPause | CResume | CMigrate | CUnmigrate

text \<open>Each step of the pipeline of \<open>Run\<close> with the actions that it defers.\<close>

definition failover_steps :: "(failover_call \<times> failover_call list) list" where
  "failover_steps =
     [(CHealthCheck, []), (CAcquireLock, [CReleaseLock]), (CPause, [CResume]), (CMigrate, [CUnmigrate])]"

datatype control =
    Doing failover_call "(failover_call \<times> failover_call list) list" "failover_call list"   \<comment> \<open>in a primary action; the steps after it, the deferred calls\<close>
  | Undoing failover_call "failover_call list" "unit outcome"             \<comment> \<open>in a deferred call; those after it, the result so far\<close>
  | Finished "unit outcome"

fun unwind :: "failover_call list \<Rightarrow> unit outcome \<Rightarrow> control" where
  "unwind [] r = Finished r"
| "unwind (d # ds) r = Undoing d ds r"

fun next_step :: "(failover_call \<times> failover_call list) list \<Rightarrow> failover_call list \<Rightarrow> control" where
  "next_step [] stack = unwind stack (Ok ())"
| "next_step ((a, ds) # ss) stack = Doing a ss (rev ds @ stack)"

text \<open>The control after the current action has returned.\<close>

fun returns :: "control \<Rightarrow> unit outcome \<Rightarrow> control" where
  "returns (Doing a ss stack) q = (case q of Ok _ \<Rightarrow> next_step ss stack | _ \<Rightarrow> unwind stack q)"
| "returns (Undoing d ds r) q = unwind ds (case q of Panic p \<Rightarrow> Panic p | _ \<Rightarrow> r)"
| "returns (Finished r) q = Finished r"

fun current :: "control \<Rightarrow> failover_call option" where
  "current (Doing a ss stack) = Some a"
| "current (Undoing d ds r) = Some d"
| "current (Finished r) = None"

section \<open>One command on its own\<close>

fun run_control :: "(failover_call \<Rightarrow> 'w action) \<Rightarrow> ctx \<Rightarrow> ctx \<Rightarrow> nat \<Rightarrow> control \<Rightarrow> 'w \<Rightarrow> control \<times> 'w" where
  "run_control act ctx dctx 0 c w = (c, w)"
| "run_control act ctx dctx (Suc n) c w =
     (case c of
        Doing a ss stack \<Rightarrow> (case act a ctx w of (q, w') \<Rightarrow> run_control act ctx dctx n (returns c q) w')
      | Undoing d ds r \<Rightarrow> (case act d dctx w of (q, w') \<Rightarrow> run_control act ctx dctx n (returns c q) w')
      | Finished r \<Rightarrow> (c, w))"

text \<open>The number of actions that are left at most.\<close>

fun calls_left :: "control \<Rightarrow> nat" where
  "calls_left (Doing a ss stack) = Suc (length stack + sum_list (map (\<lambda>s. Suc (length (snd s))) ss))"
| "calls_left (Undoing d ds r) = Suc (length ds)"
| "calls_left (Finished r) = 0"

definition failover_act :: "'w Failover \<Rightarrow> failover_call \<Rightarrow> 'w action" where
  "failover_act f a =
     (case a of
        CHealthCheck \<Rightarrow> HealthCheckClients f
      | CAcquireLock \<Rightarrow> AcquireLock f
      | CReleaseLock \<Rightarrow> ReleaseLock f
      | CPause \<Rightarrow> Pause f
      | CResume \<Rightarrow> Resume f
      | CMigrate \<Rightarrow> Migrate f
      | CUnmigrate \<Rightarrow> Unmigrate f)"

lemma calls_left_unwind [simp]: "calls_left (unwind ds r) = length ds"
  by (cases ds) simp_all

lemma calls_left_next [simp]:
  "calls_left (next_step ss stack) = length stack + sum_list (map (\<lambda>s. Suc (length (snd s))) ss)"
  by (cases "(ss, stack)" rule: next_step.cases) simp_all

lemma run_control_Finished [simp]: "run_control act ctx dctx n (Finished r) w = (Finished r, w)"
  by (cases n) simp_all

lemma run_control_unwind:
  "length ds \<le> n \<Longrightarrow> run_control act ctx dctx n (unwind ds r) w =
     (case cleanup (map act ds) dctx (r, w) of (q, w') \<Rightarrow> (Finished q, w'))"
proof (induction ds arbitrary: n r w)
  case Nil
  then show ?case by simp
next
  case (Cons d ds)
  then obtain m where m: "n = Suc m" "length ds \<le> m" by (cases n) auto
  obtain q w' where d: "act d dctx w = (q, w')" by fastforce
  have "cleanup (map act (d # ds)) dctx (r, w) = cleanup (map act ds) dctx (cleanup [act d] dctx (r, w))"
    using cleanup_append [of "[act d]" "map act ds" dctx "(r, w)"] by simp
  also have "cleanup [act d] dctx (r, w) = ((case q of Panic p \<Rightarrow> Panic p | _ \<Rightarrow> r), w')"
    using d by (cases q; cases r) (simp_all add: cleanup_def close_outcome_def)
  finally show ?case using Cons.IH [OF m(2)] by (simp add: m(1) d)
qed

lemma run_control_next:
  "calls_left (next_step ss stack) \<le> n \<Longrightarrow> run_control act ctx dctx n (next_step ss stack) w =
     (case cleanup (map act stack) dctx
        (nested (map (\<lambda>s. Defer (Step (act (fst s))) (map act (snd s))) ss) ctx dctx w) of (q, w') \<Rightarrow> (Finished q, w'))"
proof (induction ss arbitrary: n stack w)
  case Nil
  then show ?case by (simp add: run_control_unwind)
next
  case (Cons s ss)
  obtain a ds where s: "s = (a, ds)" by fastforce
  obtain m where m: "n = Suc m" "length ds + length stack + sum_list (map (\<lambda>s. Suc (length (snd s))) ss) \<le> m"
    using Cons.prems by (cases n) (auto simp: s)
  obtain q w' where a: "act a ctx w = (q, w')" by fastforce
  have app: "map act (rev ds @ stack) = rev (map act ds) @ map act stack" by (simp add: rev_map)
  show ?case
    using m(2) Cons.IH [of "rev ds @ stack" m w'] run_control_unwind [of "rev ds @ stack" m act ctx dctx q w']
    by (cases q) (simp_all add: s a m(1) app cleanup_append Defer_def Step_def del: map_append)
qed

lemma failover_pipeline:
  "map (\<lambda>s. Defer (Step (failover_act f (fst s))) (map (failover_act f) (snd s))) failover_steps =
     [Step (HealthCheckClients f), Defer (Step (AcquireLock f)) [ReleaseLock f],
      Defer (Step (Pause f)) [Resume f], Defer (Step (Migrate f)) [Unmigrate f]]"
  by (simp add: failover_steps_def failover_act_def Defer_def Step_def)


section \<open>Many commands\<close>

record 'w commands =
  locks :: "'w lock_state"
  control_of :: "nat \<Rightarrow> control option"   \<comment> \<open>\<open>None\<close> before the command is run\<close>

definition commands_start :: "string \<Rightarrow> (nat \<Rightarrow> int) \<Rightarrow> (nat \<Rightarrow> ctx) \<Rightarrow> time \<Rightarrow> 'w \<Rightarrow> 'w commands" where
  "commands_start key lease ctx t w = \<lparr>locks = lock_start key lease ctx t w, control_of = (\<lambda>i. None)\<rparr>"

definition goes_on :: "'w commands \<Rightarrow> nat \<Rightarrow> control \<Rightarrow> 'w commands" where
  "goes_on s i c = s\<lparr>control_of := (control_of s)(i \<mapsto> c)\<rparr>"

text \<open>
  The steps: the surroundings of the locks change (time passes, a lease is lost, other keys are written); a command
  is started; an action other than those of the lock returns, with any result; \<open>Lock\<close> takes a step, and
  returns to \<open>AcquireLock\<close>; \<open>ReleaseLock\<close> calls \<open>Unlock\<close> and returns; the process of a command is killed.
\<close>

inductive command_step :: "'w KV \<Rightarrow> ('w \<Rightarrow> store) \<Rightarrow> string \<Rightarrow> 'w commands \<Rightarrow> 'w commands \<Rightarrow> bool" for kv st p where
  around: "lock_step kv st p (locks s) l \<Longrightarrow> (\<And>i. lock_pc (lock_client l i) = lock_pc (lock_client (locks s) i)) \<Longrightarrow>
     command_step kv st p s (s\<lparr>locks := l\<rparr>)"
| run: "control_of s i = None \<Longrightarrow> command_step kv st p s (goes_on s i (next_step failover_steps []))"
| acts: "control_of s i = Some c \<Longrightarrow> current c = Some a \<Longrightarrow> a \<noteq> CAcquireLock \<Longrightarrow> a \<noteq> CReleaseLock \<Longrightarrow>
     command_step kv st p s (goes_on s i (returns c q))"
| locking: "control_of s i = Some c \<Longrightarrow> current c = Some CAcquireLock \<Longrightarrow> lock_step kv st p (locks s) l \<Longrightarrow>
     (\<And>r b. lock_pc (lock_client (locks s) i) \<noteq> Returned r b) \<Longrightarrow>
     (\<And>j. j \<noteq> i \<Longrightarrow> lock_pc (lock_client l j) = lock_pc (lock_client (locks s) j)) \<Longrightarrow>
     command_step kv st p s (s\<lparr>locks := l\<rparr>)"
| locked: "control_of s i = Some c \<Longrightarrow> current c = Some CAcquireLock \<Longrightarrow> lock_pc (lock_client (locks s) i) = Returned r b \<Longrightarrow>
     command_step kv st p s (goes_on s i (returns c (of_err r)))"
| release: "control_of s i = Some c \<Longrightarrow> current c = Some CReleaseLock \<Longrightarrow> lock_pc (lock_client (locks s) i) = Returned r b \<Longrightarrow>
     client_unlock kv ctx (lock_client (locks s) i) (lock_world (locks s)) = (m, w) \<Longrightarrow> lock_pc m = Unlocked r' \<Longrightarrow>
     command_step kv st p s (goes_on (s\<lparr>locks := moves (locks s) i (m, w)\<rparr>) i (returns c (of_err r')))"
| killed: "control_of s i = Some c \<Longrightarrow> command_step kv st p s (goes_on s i (Finished (Panic (Explicit ''killed''))))"

inductive_cases command_stepE: "command_step kv st p s s'"

text \<open>The control states that a command goes through, with what its lock has done at each.\<close>

definition lock_phase :: "control option \<Rightarrow> lock_pc \<Rightarrow> bool" where
  "lock_phase c pc \<longleftrightarrow>
     (case c of
        None \<Rightarrow> pc = Fresh
      | Some (Doing a ss stack) \<Rightarrow>
          a = CHealthCheck \<and> ss = drop 1 failover_steps \<and> stack = [] \<and> pc = Fresh \<or>
          a = CAcquireLock \<and> ss = drop 2 failover_steps \<and> stack = [CReleaseLock] \<and> (\<forall>r. pc \<noteq> Unlocked r) \<or>
          a = CPause \<and> ss = drop 3 failover_steps \<and> stack = [CResume, CReleaseLock] \<and> (\<exists>b. pc = Returned None b) \<or>
          a = CMigrate \<and> ss = [] \<and> stack = [CUnmigrate, CResume, CReleaseLock] \<and> (\<exists>b. pc = Returned None b)
      | Some (Undoing d ds r) \<Rightarrow>
          d = CReleaseLock \<and> ds = [] \<and> (\<exists>r b. pc = Returned r b) \<or>
          d = CResume \<and> ds = [CReleaseLock] \<and> (\<exists>b. pc = Returned None b) \<or>
          d = CUnmigrate \<and> ds = [CResume, CReleaseLock] \<and> (\<exists>b. pc = Returned None b)
      | Some (Finished r) \<Rightarrow>
          r = Panic (Explicit ''killed'') \<or> pc = Fresh \<or> (\<exists>r. pc = Unlocked r))"

text \<open>The actions on the poolers and on the cluster.\<close>

definition critical :: "control option \<Rightarrow> bool" where
  "critical c \<longleftrightarrow> (case c of None \<Rightarrow> False | Some c' \<Rightarrow> current c' \<in> {Some CPause, Some CMigrate, Some CUnmigrate, Some CResume})"

lemma lock_phase_critical: "lock_phase c pc \<Longrightarrow> critical c \<Longrightarrow> \<exists>b. pc = Returned None b"
  by (auto simp: lock_phase_def critical_def split: option.splits control.splits)

lemma drop_failover_steps:
  "drop (Suc 0) failover_steps = [(CAcquireLock, [CReleaseLock]), (CPause, [CResume]), (CMigrate, [CUnmigrate])]"
  "drop 2 failover_steps = [(CPause, [CResume]), (CMigrate, [CUnmigrate])]"
  "drop 3 failover_steps = [(CMigrate, [CUnmigrate])]"
  by (simp_all add: failover_steps_def numeral_2_eq_2 numeral_3_eq_3)

lemma lock_phase_acts:
  assumes "lock_phase (Some c) pc" and "current c = Some a" and "a \<noteq> CAcquireLock" "a \<noteq> CReleaseLock"
  shows "lock_phase (Some (returns c q)) pc"
  using assms
  by (cases c; cases q) (auto simp: lock_phase_def drop_failover_steps)

lemma lock_phase_locked:
  assumes "lock_phase (Some c) (Returned r b)" and "current c = Some CAcquireLock"
  shows "lock_phase (Some (returns c (of_err r))) (Returned r b)"
  using assms by (cases c; cases r) (auto simp: lock_phase_def drop_failover_steps)

lemma lock_phase_release:
  assumes "lock_phase (Some c) pc" and "current c = Some CReleaseLock"
  shows "lock_phase (Some (returns c q)) (Unlocked r)"
  using assms by (cases c) (auto simp: lock_phase_def)

lemma lock_phase_locking:
  "lock_phase (Some c) pc \<Longrightarrow> current c = Some CAcquireLock \<Longrightarrow> (\<And>r. pc' \<noteq> Unlocked r) \<Longrightarrow> lock_phase (Some c) pc'"
  by (cases c) (auto simp: lock_phase_def)

text \<open>A step of \<open>Lock\<close> does not end in \<open>Unlock\<close>.\<close>

lemma lock_calls_not_Unlocked:
  "lock_pc (lock_answer c resp) \<noteq> Unlocked q"
  "lock_pc (fst (lock_enter kv c w)) \<noteq> Unlocked q"
  "lock_pc (fst (wait_get kv c w)) \<noteq> Unlocked q"
  "lock_pc (wait_done wrs e c) \<noteq> Unlocked q"
  "lock_pc (fst (lock_select kv t werr c w)) \<noteq> Unlocked q"
proof -
  show "lock_pc (lock_answer c resp) \<noteq> Unlocked q"
    by (simp add: lock_answer_def split: outcome.split)
  have answer': "lock_pc (lock_answer c resp) \<noteq> Unlocked q" for c resp
    by (simp add: lock_answer_def split: outcome.split)
  show "lock_pc (fst (lock_enter kv c w)) \<noteq> Unlocked q"
    by (simp add: lock_enter_def Let_def answer' split: prod.split sum.split)
  show "lock_pc (fst (wait_get kv c w)) \<noteq> Unlocked q"
    by (simp add: wait_get_def split: prod.split sum.split response.split list.split)
  show "lock_pc (wait_done wrs e c) \<noteq> Unlocked q" by (simp add: wait_done_def split: option.split)
  show "lock_pc (fst (lock_select kv t werr c w)) \<noteq> Unlocked q"
    by (simp add: lock_select_def split: prod.split)
qed

lemma lock_step_not_Unlocked:
  assumes "lock_step kv st p s s'" and "\<And>r b. lock_pc (lock_client s i) \<noteq> Returned r b"
    and "lock_pc (lock_client s i) \<noteq> Unlocked q"
  shows "lock_pc (lock_client s' i) \<noteq> Unlocked q"
  using assms
proof cases
  case (unlock j r b ctx)
  then have "j \<noteq> i" using assms(2) by blast
  with unlock(1) assms(3) show ?thesis by (simp add: moves_def)
qed (auto simp: moves_def lock_calls_not_Unlocked)

definition commands_inv :: "'w commands \<Rightarrow> bool" where
  "commands_inv s \<longleftrightarrow> (\<forall>i. lock_phase (control_of s i) (lock_pc (lock_client (locks s) i)))"

lemma commands_inv_goes:
  assumes "commands_inv s" and "lock_phase (Some c) (lock_pc (lock_client l i))"
    and "\<And>j. j \<noteq> i \<Longrightarrow> lock_pc (lock_client l j) = lock_pc (lock_client (locks s) j)"
  shows "commands_inv (goes_on (s\<lparr>locks := l\<rparr>) i c)"
  using assms by (simp add: commands_inv_def goes_on_def)

lemma commands_inv_step:
  assumes "commands_inv s" and "command_step kv st p s s'"
  shows "commands_inv s'"
proof -
  have inv: "lock_phase (control_of s j) (lock_pc (lock_client (locks s) j))" for j
    using assms(1) by (simp add: commands_inv_def)
  have same: "commands_inv (goes_on s i c)" if "lock_phase (Some c) (lock_pc (lock_client (locks s) i))" for i c
    using commands_inv_goes [OF assms(1) that] by simp
  from assms(2) show ?thesis
  proof cases
    case (around l)
    with inv show ?thesis by (simp add: commands_inv_def)
  next
    case (run i)
    with inv [of i] have "lock_pc (lock_client (locks s) i) = Fresh" by (simp add: lock_phase_def)
    then show ?thesis unfolding run(1) by (intro same) (simp add: lock_phase_def failover_steps_def)
  next
    case (acts i c a q)
    with inv [of i] show ?thesis unfolding acts(1) by (intro same lock_phase_acts) simp_all
  next
    case (locking i c l)
    have phase: "lock_phase (Some c) (lock_pc (lock_client (locks s) i))" using inv [of i] locking(2) by simp
    then have "lock_pc (lock_client (locks s) i) \<noteq> Unlocked r" for r
      using locking(3) by (cases c) (auto simp: lock_phase_def)
    then have "lock_pc (lock_client l i) \<noteq> Unlocked r" for r by (rule lock_step_not_Unlocked [OF locking(4,5)])
    then have i: "lock_phase (control_of s i) (lock_pc (lock_client l i))"
      using lock_phase_locking [OF phase locking(3)] locking(2) by simp
    have "lock_phase (control_of s j) (lock_pc (lock_client l j))" for j
      using i inv [of j] locking(6) [of j] by (cases "j = i") simp_all
    then show ?thesis unfolding locking(1) by (simp add: commands_inv_def)
  next
    case (locked i c r b)
    then show ?thesis using inv [of i] unfolding locked(1) by (intro same) (simp add: lock_phase_locked)
  next
    case release
    have "lock_phase (Some (returns c q)) (Unlocked r)"
      if "control_of s i = Some c" "current c = Some CReleaseLock" for i c q r
      using inv [of i] that lock_phase_release by simp
    with release show ?thesis by (auto intro!: commands_inv_goes [OF assms(1)] simp: moves_def)
  next
    case (killed i c)
    then show ?thesis unfolding killed(1) by (intro same) (simp add: lock_phase_def)
  qed
qed

lemma command_step_locks: "command_step kv st p s s' \<Longrightarrow> (lock_step kv st p)\<^sup>*\<^sup>* (locks s) (locks s')"
proof (erule command_stepE)
  fix i c r b ctx m w r'
  assume "s' = goes_on (s\<lparr>locks := moves (locks s) i (m, w)\<rparr>) i (returns c (of_err r'))"
    and "lock_pc (lock_client (locks s) i) = Returned r b"
    and "client_unlock kv ctx (lock_client (locks s) i) (lock_world (locks s)) = (m, w)"
  with lock_step.unlock [of "locks s" i r b kv st p ctx] show ?thesis by (simp add: goes_on_def r_into_rtranclp)
qed (auto simp: goes_on_def)

lemma commands_reachable:
  assumes "(command_step kv st p)\<^sup>*\<^sup>* (commands_start key lease ctx t w) s"
  shows "commands_inv s \<and> (lock_step kv st p)\<^sup>*\<^sup>* (lock_start key lease ctx t w) (locks s)"
  using assms
proof (induction rule: rtranclp_induct)
  case base
  then show ?case by (simp add: commands_inv_def commands_start_def lock_start_def lock_phase_def)
next
  case (step s s')
  with commands_inv_step command_step_locks show ?case by (meson rtranclp_trans)
qed

text \<open>A command that acts on the poolers or on the cluster, with its lease alive and its lock in time.\<close>

definition in_charge :: "'w commands \<Rightarrow> nat \<Rightarrow> bool" where
  "in_charge s i \<longleftrightarrow> critical (control_of s i) \<and> leased (lock_client (locks s) i) \<and>
     lock_pc (lock_client (locks s) i) \<noteq> Returned None True"

text \<open>
  C6. Failovers exclude each other. However many commands are run, in whatever order they go on, and whoever is
  killed or loses its lease: of the commands whose lease is alive and whose \<open>Lock\<close> has not returned too late, at
  most one is pausing poolers, migrating the master or undoing this. A command that has ended without being
  killed has called \<open>Unlock\<close>, unless it has never called \<open>Lock\<close>.
\<close>

theorem failovers_exclusive:
  assumes "kv_serves kv st" and "inj lease" and "entries_ok (key @ ''/'') (st w)"
    and "(command_step kv st (key @ ''/''))\<^sup>*\<^sup>* (commands_start key lease ctx t w) s"
  shows "(\<forall>i j. in_charge s i \<and> in_charge s j \<longrightarrow> i = j) \<and>
    (\<forall>i r. control_of s i = Some (Finished r) \<and> r \<noteq> Panic (Explicit ''killed'') \<longrightarrow>
       lock_pc (lock_client (locks s) i) = Fresh \<or> (\<exists>e. lock_pc (lock_client (locks s) i) = Unlocked e))"
proof -
  have inv: "commands_inv s" and run: "(lock_step kv st (key @ ''/''))\<^sup>*\<^sup>* (lock_start key lease ctx t w) (locks s)"
    using commands_reachable [OF assms(4)] by blast+
  have pc: "lock_pc (lock_client (locks s) k) = Returned None False" "leased (lock_client (locks s) k)" if "in_charge s k" for k
    using inv that lock_phase_critical unfolding commands_inv_def in_charge_def by (metis (full_types))+
  have "i = j" if "in_charge s i" "in_charge s j" for i j
    using lock_owner(1) [OF assms(1,2,3) run pc [OF that(2)]] pc [OF that(1)] by blast
  moreover have "lock_pc (lock_client (locks s) i) = Fresh \<or> (\<exists>e. lock_pc (lock_client (locks s) i) = Unlocked e)"
    if "control_of s i = Some (Finished r)" "r \<noteq> Panic (Explicit ''killed'')" for i r
  proof -
    have "lock_phase (Some (Finished r)) (lock_pc (lock_client (locks s) i))"
      using inv that(1) unfolding commands_inv_def by metis
    with that(2) show ?thesis by (simp add: lock_phase_def)
  qed
  ultimately show ?thesis by blast
qed

section \<open>The lock alone does not exclude\<close>

text \<open>
  Whatever the clients of a lock can do, commands can do too: each client that has called \<open>Lock\<close> is one
  whose command is in \<open>AcquireLock\<close>, and one that has called \<open>Unlock\<close> belongs to a command that has ended.
\<close>

definition acquiring :: control where
  "acquiring = Doing CAcquireLock (drop 2 failover_steps) [CReleaseLock]"

definition in_lock :: "lock_pc \<Rightarrow> bool" where
  "in_lock pc \<longleftrightarrow> pc \<noteq> Fresh \<and> (\<forall>r. pc \<noteq> Unlocked r)"

definition drives :: "lock_pc \<Rightarrow> control option \<Rightarrow> bool" where
  "drives pc c \<longleftrightarrow> (pc = Fresh \<longrightarrow> c = None) \<and> (in_lock pc \<longrightarrow> c = Some acquiring) \<and>
     (\<forall>r. pc = Unlocked r \<longrightarrow> (\<exists>q. c = Some (Finished q)))"

definition driven :: "'w commands \<Rightarrow> bool" where
  "driven s \<longleftrightarrow> (\<forall>i. drives (lock_pc (lock_client (locks s) i)) (control_of s i))"

lemma acquiring_simps [simp]:
  "current acquiring = Some CAcquireLock"
  "returns acquiring (Ok ()) = Doing CPause (drop 3 failover_steps) [CResume, CReleaseLock]"
  "returns acquiring (Err e) = Undoing CReleaseLock [] (Err e)"
  "returns (next_step failover_steps []) (Ok ()) = acquiring"
  by (simp_all add: acquiring_def drop_failover_steps, simp_all add: failover_steps_def numeral_2_eq_2)

lemma goes_on_sel [simp]:
  "locks (goes_on s i c) = locks s" "control_of (goes_on s i c) j = (if j = i then Some c else control_of s j)"
  by (simp_all add: goes_on_def)

text \<open>Up to the call of \<open>Lock\<close>, and from its return to the call of \<open>Unlock\<close>.\<close>

lemma reach_acquiring:
  assumes "control_of s i = None"
  shows "(command_step kv st p)\<^sup>*\<^sup>* s (goes_on s i acquiring)"
proof -
  have "command_step kv st p s (goes_on s i (next_step failover_steps []))" by (rule command_step.run [OF assms])
  moreover have "command_step kv st p (goes_on s i (next_step failover_steps []))
      (goes_on (goes_on s i (next_step failover_steps [])) i (returns (next_step failover_steps []) (Ok ())))"
    by (rule command_step.acts [where a = CHealthCheck]) (simp_all add: failover_steps_def)
  moreover have "goes_on (goes_on s i c) i d = goes_on s i d" for c d by (simp add: goes_on_def)
  ultimately show ?thesis by (simp add: converse_rtranclp_into_rtranclp)
qed

lemma reach_pause:
  assumes "control_of s i = Some acquiring" and "lock_pc (lock_client (locks s) i) = Returned None b"
  shows "command_step kv st p s (goes_on s i (Doing CPause (drop 3 failover_steps) [CResume, CReleaseLock]))"
  using command_step.locked [OF assms(1) _ assms(2)] by simp

lemma reach_release:
  assumes "control_of s i = Some acquiring" and "lock_pc (lock_client (locks s) i) = Returned r b"
  shows "\<exists>q. (command_step kv st p)\<^sup>*\<^sup>* s (goes_on s i (Undoing CReleaseLock [] q))"
proof (cases r)
  case (Some e)
  then have "command_step kv st p s (goes_on s i (Undoing CReleaseLock [] (Err e)))"
    using command_step.locked [OF assms(1) _ assms(2)] by simp
  then show ?thesis by blast
next
  case None
  let ?e = "Err (Plain ''failed to pause pgbouncers'')"
  have twice: "goes_on (goes_on s i c) i d = goes_on s i d" for c d by (simp add: goes_on_def)
  have "command_step kv st p s (goes_on s i (Doing CPause (drop 3 failover_steps) [CResume, CReleaseLock]))"
    by (rule reach_pause [OF assms(1) assms(2) [unfolded None]])
  moreover have "command_step kv st p (goes_on s i (Doing CPause (drop 3 failover_steps) [CResume, CReleaseLock]))
      (goes_on s i (Undoing CResume [CReleaseLock] ?e))"
    using command_step.acts [of "goes_on s i (Doing CPause (drop 3 failover_steps) [CResume, CReleaseLock])" i _ CPause kv st p ?e]
    by (simp add: twice)
  moreover have "command_step kv st p (goes_on s i (Undoing CResume [CReleaseLock] ?e)) (goes_on s i (Undoing CReleaseLock [] ?e))"
    using command_step.acts [of "goes_on s i (Undoing CResume [CReleaseLock] ?e)" i _ CResume kv st p "Ok ()"]
    by (simp add: twice)
  ultimately show ?thesis by (meson converse_rtranclp_into_rtranclp r_into_rtranclp)
qed

lemma driven_around:
  assumes "driven s" and "lock_step kv st p (locks s) l"
    and "\<And>i. lock_pc (lock_client l i) = lock_pc (lock_client (locks s) i)"
  shows "\<exists>s'. (command_step kv st p)\<^sup>*\<^sup>* s s' \<and> locks s' = l \<and> driven s'"
  using assms by (intro exI [of _ "s\<lparr>locks := l\<rparr>"]) (simp add: driven_def r_into_rtranclp command_step.around)

text \<open>A step of \<open>Lock\<close> by the client \<open>i\<close>.\<close>

lemma driven_locking:
  assumes d: "driven s" and control: "control_of s i = Some acquiring" "\<And>r b. lock_pc (lock_client (locks s) i) \<noteq> Returned r b"
    and step: "lock_step kv st p (locks s) (moves (locks s) i (c, w))" and in_lock: "in_lock (lock_pc c)"
  shows "\<exists>s'. (command_step kv st p)\<^sup>*\<^sup>* s s' \<and> locks s' = moves (locks s) i (c, w) \<and> driven s'"
proof -
  let ?s = "s\<lparr>locks := moves (locks s) i (c, w)\<rparr>"
  have "command_step kv st p s ?s"
    by (rule command_step.locking [OF control(1) _ step control(2)]) (simp_all add: moves_def)
  moreover have "driven ?s"
    using d control(1) in_lock by (auto simp: driven_def drives_def moves_def in_lock_def)
  ultimately show ?thesis by (intro exI [of _ ?s]) simp
qed

lemma lock_calls_in_lock:
  "in_lock (lock_pc (fst (lock_enter kv c w)))"
  "in_lock (lock_pc (fst (wait_get kv c w)))"
  "in_lock (lock_pc (wait_done wrs e c))"
  "in_lock (lock_pc (fst (lock_select kv t werr c w)))"
proof -
  have "lock_pc (lock_answer c resp) \<noteq> Fresh" for c resp by (simp add: lock_answer_def split: outcome.split)
  then show "in_lock (lock_pc (fst (lock_enter kv c w)))"
    using lock_calls_not_Unlocked(2) [of kv c w] by (simp add: in_lock_def) (simp add: lock_enter_def Let_def split: prod.split sum.split)
  show "in_lock (lock_pc (fst (wait_get kv c w)))"
    using lock_calls_not_Unlocked(3) [of kv c w] by (simp add: in_lock_def)
      (simp add: wait_get_def split: prod.split sum.split response.split list.split)
  show "in_lock (lock_pc (wait_done wrs e c))"
    using lock_calls_not_Unlocked(4) [of wrs e c] by (simp add: in_lock_def) (simp add: wait_done_def split: option.split)
  show "in_lock (lock_pc (fst (lock_select kv t werr c w)))"
    using lock_calls_not_Unlocked(5) [of kv t werr c w] by (simp add: in_lock_def) (simp add: lock_select_def split: prod.split)
qed

lemma driven_step:
  assumes d: "driven s" and step: "lock_step kv st p (locks s) l"
  shows "\<exists>s'. (command_step kv st p)\<^sup>*\<^sup>* s s' \<and> locks s' = l \<and> driven s'"
proof -
  have drives: "drives (lock_pc (lock_client (locks s) i)) (control_of s i)" for i using d by (simp add: driven_def)
  have busy: "control_of s i = Some acquiring" if "in_lock (lock_pc (lock_client (locks s) i))" for i
    using drives [of i] that by (simp add: drives_def)
  from step show ?thesis
  proof cases
    case (elapse n)
    then show ?thesis using driven_around [OF d step] by simp
  next
    case (others w)
    then show ?thesis using driven_around [OF d step] by simp
  next
    case (expire w i)
    then show ?thesis using driven_around [OF d step] by (simp add: moves_def)
  next
    case (enter i)
    let ?s = "goes_on s i acquiring"
    have fresh: "control_of s i = None" using drives [of i] enter(2) by (simp add: drives_def)
    obtain c w where e: "lock_enter kv (lock_client (locks s) i) (lock_world (locks s)) = (c, w)" by fastforce
    have "(command_step kv st p) (?s) (?s\<lparr>locks := l\<rparr>)"
      using step enter(1,2) by (intro command_step.locking [where i = i and c = acquiring]) (simp_all add: moves_def)
    moreover have "driven (?s\<lparr>locks := l\<rparr>)"
      using drives lock_calls_in_lock(1) [of kv "lock_client (locks s) i" "lock_world (locks s)"] e
      unfolding enter(1) by (auto simp: driven_def drives_def moves_def in_lock_def)
    ultimately show ?thesis using reach_acquiring [of s i kv st p, OF fresh]
      by (intro exI [of _ "?s\<lparr>locks := l\<rparr>"]) simp
  next
    case (get i)
    obtain c w where e: "wait_get kv (lock_client (locks s) i) (lock_world (locks s)) = (c, w)" by fastforce
    with get step lock_calls_in_lock(2) [of kv "lock_client (locks s) i" "lock_world (locks s)"] busy [of i]
    show ?thesis unfolding get(1) e by (intro driven_locking [OF d]) (simp_all add: in_lock_def)
  next
    case (waited i k h wrs ctx_Err)
    with step lock_calls_in_lock(3) busy [of i] show ?thesis
      unfolding waited(1) by (intro driven_locking [OF d]) (simp_all add: in_lock_def)
  next
    case (select i werr)
    obtain c w where e: "lock_select kv (lock_now (locks s)) werr (lock_client (locks s) i) (lock_world (locks s)) = (c, w)"
      by fastforce
    with select step lock_calls_in_lock(4) [of kv "lock_now (locks s)" werr "lock_client (locks s) i" "lock_world (locks s)"]
      busy [of i]
    show ?thesis unfolding select(1) e by (intro driven_locking [OF d]) (simp_all add: in_lock_def)
  next
    case (unlock i r b ctx)
    obtain c w where u: "client_unlock kv ctx (lock_client (locks s) i) (lock_world (locks s)) = (c, w)" by fastforce
    then obtain r' where pc: "lock_pc c = Unlocked r'" by (auto simp: client_unlock_def split: prod.splits)
    have "control_of s i = Some acquiring" using busy [of i] unlock(2) by (simp add: in_lock_def)
    then obtain q where q: "(command_step kv st p)\<^sup>*\<^sup>* s (goes_on s i (Undoing CReleaseLock [] q))"
      using reach_release unlock(2) by blast
    let ?s = "goes_on s i (Undoing CReleaseLock [] q)"
    let ?t = "goes_on (?s\<lparr>locks := moves (locks ?s) i (c, w)\<rparr>) i (returns (Undoing CReleaseLock [] q) (of_err r'))"
    have "command_step kv st p ?s ?t"
      by (rule command_step.release [where r = r and b = b and ctx = ctx]) (use unlock(2) u pc in simp_all)
    with q have "(command_step kv st p)\<^sup>*\<^sup>* s ?t" by simp
    moreover have "locks ?t = l" by (simp add: unlock(1) u goes_on_def)
    moreover have "driven ?t"
      using drives pc by (auto simp: driven_def drives_def moves_def in_lock_def goes_on_def)
    ultimately show ?thesis by blast
  qed
qed

lemma locks_are_driven:
  assumes "(lock_step kv st p)\<^sup>*\<^sup>* (lock_start key lease ctx t w) l"
  shows "\<exists>s. (command_step kv st p)\<^sup>*\<^sup>* (commands_start key lease ctx t w) s \<and> locks s = l \<and> driven s"
  using assms
proof (induction rule: rtranclp_induct)
  case base
  show ?case
    by (intro exI [of _ "commands_start key lease ctx t w"])
      (simp add: commands_start_def driven_def drives_def lock_start_def in_lock_def)
next
  case (step l l')
  then obtain s where "(command_step kv st p)\<^sup>*\<^sup>* (commands_start key lease ctx t w) s" "locks s = l" "driven s" by blast
  with step(2) driven_step show ?case by (meson rtranclp_trans)
qed

abbreviation example_commands :: "store commands \<Rightarrow> store commands \<Rightarrow> bool" where
  "example_commands \<equiv> command_step memory_kv (\<lambda>s. s) (''/master'' @ ''/'')"

abbreviation example_start :: "store commands" where
  "example_start \<equiv> commands_start ''/master'' int example_ctx 0 \<lparr>revision = 1, kvs = []\<rparr>"

text \<open>A command whose \<open>Lock\<close> has returned without an error goes on to pause the poolers.\<close>

lemma driven_pause:
  assumes "control_of s i = Some acquiring" and "lock_pc (lock_client (locks s) i) = Returned None b"
    and "(command_step kv st p)\<^sup>*\<^sup>* s0 s"
  shows "\<exists>s'. (command_step kv st p)\<^sup>*\<^sup>* s0 s' \<and> locks s' = locks s \<and>
    control_of s' = (control_of s)(i \<mapsto> Doing CPause (drop 3 failover_steps) [CResume, CReleaseLock])"
proof -
  let ?s = "goes_on s i (Doing CPause (drop 3 failover_steps) [CResume, CReleaseLock])"
  have "(command_step kv st p)\<^sup>*\<^sup>* s0 ?s"
    using assms(3) reach_pause [OF assms(1,2)] by (rule rtranclp.rtrancl_into_rtrancl)
  then show ?thesis by (intro exI [of _ ?s]) (simp add: goes_on_def)
qed

lemma driven_acquiring: "driven s \<Longrightarrow> lock_pc (lock_client (locks s) i) = Returned r b \<Longrightarrow> control_of s i = Some acquiring"
  by (simp add: driven_def drives_def in_lock_def)

text \<open>
  C34. Two failovers can run at the same time: with every lease alive, every request to etcd answered and
  nobody killed, the two commands of \<open>late_lock_is_shared\<close> both pause the poolers, each as if it alone
  had the lock.
\<close>

theorem late_failovers_overlap:
  "\<exists>s i j. example_commands\<^sup>*\<^sup>* example_start s \<and> i \<noteq> j \<and>
     leased (lock_client (locks s) i) \<and> control_of s i = Some (Doing CPause [(CMigrate, [CUnmigrate])] [CResume, CReleaseLock]) \<and>
     leased (lock_client (locks s) j) \<and> control_of s j = Some (Doing CPause [(CMigrate, [CUnmigrate])] [CResume, CReleaseLock])"
proof -
  obtain l where l: "(lock_step memory_kv (\<lambda>s. s) (''/master'' @ ''/''))\<^sup>*\<^sup>* example_locks l"
    and one: "lock_pc (lock_client l 1) = Returned None True" "leased (lock_client l 1)"
    and two: "lock_pc (lock_client l 2) = Returned None False" "leased (lock_client l 2)"
    using late_lock_is_shared by blast
  obtain s where s: "example_commands\<^sup>*\<^sup>* example_start s" "locks s = l" "driven s"
    using locks_are_driven [OF l [unfolded example_locks_def]] by blast
  have busy: "control_of s 1 = Some acquiring" "control_of s 2 = Some acquiring"
    using driven_acquiring [OF s(3)] one(1) two(1) s(2) by simp_all
  from driven_pause [OF busy(1) _ s(1)] one(1) s(2) obtain s1
    where s1: "example_commands\<^sup>*\<^sup>* example_start s1" "locks s1 = l"
      "control_of s1 = (control_of s)(1 \<mapsto> Doing CPause (drop 3 failover_steps) [CResume, CReleaseLock])" by auto
  have "control_of s1 2 = Some acquiring" using s1(3) busy(2) by simp
  from driven_pause [OF this _ s1(1)] two(1) s1(2) obtain s2
    where s2: "example_commands\<^sup>*\<^sup>* example_start s2" "locks s2 = l"
      "control_of s2 = (control_of s1)(2 \<mapsto> Doing CPause (drop 3 failover_steps) [CResume, CReleaseLock])" by auto
  have "control_of s2 1 = Some (Doing CPause [(CMigrate, [CUnmigrate])] [CResume, CReleaseLock])"
    and "control_of s2 2 = Some (Doing CPause [(CMigrate, [CUnmigrate])] [CResume, CReleaseLock])"
    unfolding s2(3) s1(3) by (simp_all add: drop_failover_steps)
  moreover have "leased (lock_client (locks s2) 1)" "leased (lock_client (locks s2) 2)" unfolding s2(2) by (rule one(2), rule two(2))
  moreover have "(1 :: nat) \<noteq> 2" by simp
  ultimately show ?thesis using s2(1) by blast
qed

theorem failovers_exclusive_witness:
  "\<exists>s. example_commands\<^sup>*\<^sup>* example_start s \<and>
     control_of s 0 = Some (Doing CPause (drop 3 failover_steps) [CResume, CReleaseLock]) \<and> in_charge s 0 \<and> (\<forall>j. in_charge s j \<longrightarrow> j = 0)"
proof -
  let ?l = "moves example_locks 0 (example_client 0 ''/master/0'' 2 (Returned None False), \<lparr>revision = 2, kvs = [example_entry 0 2]\<rparr>)"
  have run: "example_step\<^sup>*\<^sup>* (lock_start ''/master'' int example_ctx 0 \<lparr>revision = 1, kvs = []\<rparr>) ?l"
    using example_first unfolding example_locks_def by (rule r_into_rtranclp)
  obtain s where s: "example_commands\<^sup>*\<^sup>* example_start s" "locks s = ?l" "driven s" using locks_are_driven [OF run] by blast
  have pc: "lock_pc (lock_client (locks s) 0) = Returned None False" "leased (lock_client (locks s) 0)" by (simp_all add: s(2))
  from driven_pause [OF driven_acquiring [OF s(3) pc(1)] pc(1) s(1)] obtain s'
    where s': "example_commands\<^sup>*\<^sup>* example_start s'" "locks s' = locks s"
      "control_of s' = (control_of s)(0 \<mapsto> Doing CPause (drop 3 failover_steps) [CResume, CReleaseLock])" by blast
  have "inj int" by (simp add: inj_def)
  from failovers_exclusive [OF memory_serves this example_entries_ok s'(1)]
  have "\<And>j. in_charge s' j \<and> in_charge s' 0 \<Longrightarrow> j = 0" by blast
  moreover have "in_charge s' 0" using s'(2,3) pc by (simp add: in_charge_def critical_def)
  ultimately show ?thesis using s' by (intro exI [of _ s']) auto
qed

end
