(* ===== verification/Parallel.thy ===== *)
theory Parallel
  imports Failover
begin

text \<open>
  \<open>EachClient\<close> of \<open>pkg/failover/failover.go\<close> with its goroutines: the loop that spawns one for each client of the
  iteration, the goroutines, which call the action, assign a non-nil error to the shared \<open>result\<close> and count
  down the wait group, and the return once the wait group is at zero, as a step relation in which they
  interleave in any way. It is related to the function \<open>EachClient\<close>, in which the calls take effect one after the
  other.
\<close>

section \<open>The code\<close>

datatype routine =
    Unspawned
  | Running
  | Acted "goerr option"   \<comment> \<open>the action has returned, its error is still to be assigned\<close>
  | Leaving                \<comment> \<open>in the deferred function\<close>
  | Finished

record 'w each_state =
  each_world :: 'w
  routines :: "routine list"
  spawned :: nat
  wg :: int
  result :: "goerr option"
  returned :: "goerr option option"

definition each_start :: "'c list \<Rightarrow> 'w \<Rightarrow> 'w each_state" where
  "each_start cs w =
     \<lparr>each_world = w, routines = replicate (length cs) Unspawned, spawned = 0, wg = 0, result = None, returned = None\<rparr>"

definition set_routine :: "nat \<Rightarrow> routine \<Rightarrow> 'w each_state \<Rightarrow> 'w each_state" where
  "set_routine i r s = s\<lparr>routines := (routines s)[i := r]\<rparr>"

definition act_on :: "(string \<Rightarrow> 'c \<Rightarrow> 'w \<Rightarrow> goerr option \<times> 'w) \<Rightarrow> (string \<times> 'c) \<Rightarrow> 'w \<Rightarrow> goerr option \<times> 'w" where
  "act_on act c w = act (fst c) (snd c) w"

inductive each_step ::
  "(string \<Rightarrow> 'w FailoverClient \<Rightarrow> 'w \<Rightarrow> goerr option \<times> 'w) \<Rightarrow> (string \<times> 'w FailoverClient) list \<Rightarrow>
     'w each_state \<Rightarrow> 'w each_state \<Rightarrow> bool" for act cs where
  spawn: "spawned s < length cs \<Longrightarrow>
     each_step act cs s ((set_routine (spawned s) Running s)\<lparr>spawned := spawned s + 1, wg := wg s + 1\<rparr>)"
| call: "i < length (routines s) \<Longrightarrow> routines s ! i = Running \<Longrightarrow> act_on act (cs ! i) (each_world s) = (r, w) \<Longrightarrow>
     each_step act cs s ((set_routine i (Acted r) s)\<lparr>each_world := w\<rparr>)"
| assign: "i < length (routines s) \<Longrightarrow> routines s ! i = Acted (Some err) \<Longrightarrow>
     each_step act cs s ((set_routine i Leaving s)\<lparr>result := Some err\<rparr>)"
| fine: "i < length (routines s) \<Longrightarrow> routines s ! i = Acted None \<Longrightarrow> each_step act cs s (set_routine i Leaving s)"
| leave: "i < length (routines s) \<Longrightarrow> routines s ! i = Leaving \<Longrightarrow>
     each_step act cs s ((set_routine i Finished s)\<lparr>wg := wg s - 1\<rparr>)"
| return: "spawned s = length cs \<Longrightarrow> wg s = 0 \<Longrightarrow> returned s = None \<Longrightarrow>
     each_step act cs s (s\<lparr>returned := Some (result s)\<rparr>)"

section \<open>The calls of a run, in their order\<close>

lemma each_client_snoc:
  "each_client act (cs @ [c]) res w =
     (case act_on act c (snd (each_client act cs res w)) of
        (None, w') \<Rightarrow> (fst (each_client act cs res w), w')
      | (Some err, w') \<Rightarrow> (Some err, w'))"
proof (induction cs arbitrary: res w)
  case Nil
  then show ?case by (cases c) (simp add: act_on_def split: prod.splits option.splits)
next
  case (Cons d cs)
  then show ?case by (cases d) (simp split: prod.splits option.splits)
qed

fun results :: "(string \<Rightarrow> 'w FailoverClient \<Rightarrow> 'w \<Rightarrow> goerr option \<times> 'w) \<Rightarrow> (string \<times> 'w FailoverClient) list \<Rightarrow> 'w \<Rightarrow> goerr option list" where
  "results act [] w = []"
| "results act (c # cs) w = (case act_on act c w of (r, w') \<Rightarrow> r # results act cs w')"

lemma each_client_any: "snd (each_client act cs res w) = snd (each_client act cs res' w)"
  using each_client_result(1) by metis

lemma results_snoc:
  "results act (cs @ [c]) w = results act cs w @ [fst (act_on act c (snd (each_client act cs None w)))]"
proof (induction cs arbitrary: w)
  case (Cons d cs)
  obtain endpoint client where d: "d = (endpoint, client)" by fastforce
  obtain r w' where a: "act endpoint client w = (r, w')" by fastforce
  have "snd (each_client act (d # cs) None w) = snd (each_client act cs None w')"
    using each_client_any [of act cs r w' None] by (cases r) (simp_all add: d a)
  with Cons.IH [of w'] show ?case by (simp add: act_on_def d a)
qed (simp add: act_on_def split: prod.splits)

lemma length_results [simp]: "length (results act cs w) = length cs"
  by (induction cs arbitrary: w) (auto split: prod.splits)

lemma each_client_error:
  "fst (each_client act cs None w) = None \<longleftrightarrow> (\<forall>r \<in> set (results act cs w). r = None)"
proof (induction cs rule: rev_induct)
  case (snoc c cs)
  then show ?case by (auto simp: each_client_snoc results_snoc split: prod.splits option.splits)
qed simp

section \<open>The invariant\<close>

definition acted :: "routine \<Rightarrow> bool" where
  "acted r \<longleftrightarrow> (case r of Unspawned \<Rightarrow> False | Running \<Rightarrow> False | _ \<Rightarrow> True)"

definition active :: "routine \<Rightarrow> bool" where
  "active r \<longleftrightarrow> r \<noteq> Unspawned \<and> r \<noteq> Finished"

text \<open>
  \<open>order\<close> are the indices of the clients that have been called, in the order of the calls, and \<open>out\<close> is what the calls
  returned: the goroutine still holds it, or it is reflected in \<open>result\<close>.
\<close>

definition called_in :: "(string \<Rightarrow> 'w FailoverClient \<Rightarrow> 'w \<Rightarrow> goerr option \<times> 'w) \<Rightarrow> (string \<times> 'w FailoverClient) list \<Rightarrow> 'w \<Rightarrow>
    'w each_state \<Rightarrow> nat list \<Rightarrow> (nat \<Rightarrow> goerr option) \<Rightarrow> bool" where
  "called_in act cs w0 s order out \<longleftrightarrow> distinct order \<and>
     set order = {i. i < length cs \<and> acted (routines s ! i)} \<and>
     each_world s = snd (each_client act (map (nth cs) order) None w0) \<and>
     results act (map (nth cs) order) w0 = map out order \<and>
     (\<forall>i \<in> set order. case routines s ! i of Acted r \<Rightarrow> out i = r | _ \<Rightarrow> out i \<noteq> None \<longrightarrow> result s \<noteq> None) \<and>
     (\<forall>e. result s = Some e \<longrightarrow> Some e \<in> out ` set order)"

definition each_inv :: "(string \<Rightarrow> 'w FailoverClient \<Rightarrow> 'w \<Rightarrow> goerr option \<times> 'w) \<Rightarrow> (string \<times> 'w FailoverClient) list \<Rightarrow> 'w \<Rightarrow>
    'w each_state \<Rightarrow> bool" where
  "each_inv act cs w0 s \<longleftrightarrow> length (routines s) = length cs \<and> spawned s \<le> length cs \<and>
     (\<forall>i < length cs. routines s ! i = Unspawned \<longleftrightarrow> spawned s \<le> i) \<and>
     wg s = int (length (filter active (routines s))) \<and>
     (\<exists>order out. called_in act cs w0 s order out) \<and>
     (\<forall>r. returned s = Some r \<longrightarrow> r = result s \<and> list_all (\<lambda>x. x = Finished) (routines s))"

lemma each_inv_start: "each_inv act cs w (each_start cs w)"
proof -
  have "called_in act cs w (each_start cs w) [] (\<lambda>i. None)"
    by (auto simp: called_in_def each_start_def acted_def)
  then show ?thesis by (auto simp: each_inv_def each_start_def active_def)
qed

lemma set_routine_sel [simp]:
  "each_world (set_routine i r s) = each_world s" "routines (set_routine i r s) = (routines s)[i := r]"
  "spawned (set_routine i r s) = spawned s" "wg (set_routine i r s) = wg s" "result (set_routine i r s) = result s"
  "returned (set_routine i r s) = returned s"
  by (simp_all add: set_routine_def)

lemma length_filter_update:
  "i < length xs \<Longrightarrow> int (length (filter P (xs[i := y]))) =
     int (length (filter P xs)) - (if P (xs ! i) then 1 else 0) + (if P y then 1 else 0)"
proof (induction xs arbitrary: i)
  case (Cons x xs)
  show ?case
  proof (cases i)
    case (Suc j)
    with Cons.prems Cons.IH [of j] show ?thesis by (auto split: if_splits)
  qed simp
qed simp

lemma called_in_cong:
  assumes "called_in act cs w0 s order out" and "routines s' = routines s" "each_world s' = each_world s" "result s' = result s"
  shows "called_in act cs w0 s' order out"
  using assms(1) unfolding called_in_def assms(2-4) .

text \<open>A routine that moves on without a call keeps the calls.\<close>

lemma called_in_leave:
  assumes inv: "called_in act cs w0 s order out" and i: "i < length (routines s)" "length (routines s) = length cs"
    and moves: "acted (routines s ! i)" "r = Leaving \<or> r = Finished"
    and res: "result s' = (case routines s ! i of Acted (Some e) \<Rightarrow> Some e | _ \<Rightarrow> result s)"
    and upd: "routines s' = (routines s)[i := r]" "each_world s' = each_world s"
  shows "called_in act cs w0 s' order out"
proof -
  have mem: "set order = {i. i < length cs \<and> acted (routines s ! i)}"
    and hold: "\<forall>j \<in> set order. case routines s ! j of Acted r \<Rightarrow> out j = r | _ \<Rightarrow> out j \<noteq> None \<longrightarrow> result s \<noteq> None"
    and err: "\<forall>e. result s = Some e \<longrightarrow> Some e \<in> out ` set order"
    using inv unfolding called_in_def by blast+
  have io: "i \<in> set order" using mem i moves(1) by simp
  have grows: "result s \<noteq> None \<Longrightarrow> result s' \<noteq> None" using res by (auto split: routine.splits option.splits)
  have "acted r" using moves(2) by (auto simp: acted_def)
  then have "set order = {i. i < length cs \<and> acted (routines s' ! i)}"
    using mem i moves(1) upd(1) by (auto simp: nth_list_update)
  moreover have "case routines s' ! j of Acted r \<Rightarrow> out j = r | _ \<Rightarrow> out j \<noteq> None \<longrightarrow> result s' \<noteq> None" if j: "j \<in> set order" for j
  proof (cases "j = i")
    case True
    have "out i \<noteq> None \<longrightarrow> result s' \<noteq> None"
      using hold io res by (auto split: routine.splits option.splits)
    with True upd(1) i(1) moves(2) show ?thesis by auto
  next
    case False
    with upd(1) hold j grows show ?thesis by (auto split: routine.splits)
  qed
  moreover have "Some e \<in> out ` set order" if e: "result s' = Some e" for e
  proof (cases "routines s ! i = Acted (Some e)")
    case True
    with hold io have "out i = Some e" by force
    with io show ?thesis by force
  next
    case False
    with res e have "result s = Some e" by (auto split: routine.splits option.splits)
    with err show ?thesis by blast
  qed
  moreover have "distinct order" "each_world s' = snd (each_client act (map (nth cs) order) None w0)"
    "results act (map (nth cs) order) w0 = map out order"
    using inv upd(2) unfolding called_in_def by auto
  ultimately show ?thesis unfolding called_in_def by blast
qed

lemma called_in_call:
  assumes inv: "called_in act cs w0 s order out" and i: "i < length (routines s)" "length (routines s) = length cs"
    and running: "routines s ! i = Running" and call: "act_on act (cs ! i) (each_world s) = (r, w)"
    and upd: "routines s' = (routines s)[i := Acted r]" "each_world s' = w" "result s' = result s"
  shows "called_in act cs w0 s' (order @ [i]) (out(i := r))"
proof -
  have mem: "set order = {i. i < length cs \<and> acted (routines s ! i)}" and d: "distinct order"
    and world: "each_world s = snd (each_client act (map (nth cs) order) None w0)"
    and res: "results act (map (nth cs) order) w0 = map out order"
    and hold: "\<forall>j \<in> set order. case routines s ! j of Acted r \<Rightarrow> out j = r | _ \<Rightarrow> out j \<noteq> None \<longrightarrow> result s \<noteq> None"
    and err: "\<forall>e. result s = Some e \<longrightarrow> Some e \<in> out ` set order"
    using inv unfolding called_in_def by blast+
  have new: "i \<notin> set order" using mem running by (simp add: acted_def)
  have out: "map (out(i := r)) order = map out order" "(out(i := r)) ` set order = out ` set order"
    using new by (auto intro!: image_cong)
  have "set (order @ [i]) = {i. i < length cs \<and> acted (routines s' ! i)}"
    using mem i upd(1) by (auto simp: nth_list_update acted_def)
  moreover have "each_world s' = snd (each_client act (map (nth cs) (order @ [i])) None w0)"
    using call world upd(2) by (simp add: each_client_snoc split: option.splits)
  moreover have "results act (map (nth cs) (order @ [i])) w0 = map (out(i := r)) (order @ [i])"
    using call world res out(1) by (simp add: results_snoc)
  moreover have "\<forall>j \<in> set (order @ [i]). case routines s' ! j of Acted r' \<Rightarrow> (out(i := r)) j = r'
      | _ \<Rightarrow> (out(i := r)) j \<noteq> None \<longrightarrow> result s' \<noteq> None"
    using hold i upd(1,3) new by (auto simp: nth_list_update split: routine.splits)
  moreover have "\<forall>e. result s' = Some e \<longrightarrow> Some e \<in> (out(i := r)) ` set (order @ [i])"
    using err upd(3) out(2) by auto
  ultimately show ?thesis using d new unfolding called_in_def by simp
qed

section \<open>Every run\<close>

lemma each_inv_step:
  assumes inv: "each_inv act cs w0 s" and step: "each_step act cs s s'"
  shows "each_inv act cs w0 s'"
proof -
  have len: "length (routines s) = length cs" and sp: "spawned s \<le> length cs"
    and un: "\<forall>i < length cs. routines s ! i = Unspawned \<longleftrightarrow> spawned s \<le> i"
    and wg: "wg s = int (length (filter active (routines s)))"
    and ret: "\<forall>r. returned s = Some r \<longrightarrow> r = result s \<and> list_all (\<lambda>x. x = Finished) (routines s)"
    using inv unfolding each_inv_def by blast+
  obtain order out where c: "called_in act cs w0 s order out" using inv unfolding each_inv_def by blast
  have open_run: "returned s = None" if "i < length (routines s)" "routines s ! i \<noteq> Finished" for i
    using ret that by (cases "returned s") (auto simp: list_all_length)
  have update: "length (filter active ((routines s)[i := r])) = length (filter active (routines s))"
    if "i < length (routines s)" "active (routines s ! i)" "active r" for i r
    using length_filter_update [OF that(1), of active r] that(2,3) by simp
  from step show ?thesis
  proof cases
    case spawn
    then have i: "spawned s < length (routines s)" "routines s ! spawned s = Unspawned" using un len by auto
    have "called_in act cs w0 s' order out"
      using c i unfolding spawn(1) called_in_def by (auto simp: nth_list_update acted_def split: routine.splits)
    moreover have "returned s = None" using open_run [OF i(1)] i(2) by simp
    moreover have "wg s' = int (length (filter active (routines s')))"
      using length_filter_update [OF i(1), of active Running] i(2) wg spawn(1) by (simp add: active_def)
    ultimately show ?thesis
      using len un spawn i unfolding each_inv_def by (auto simp: nth_list_update)
  next
    case (call i r w)
    have "called_in act cs w0 s' (order @ [i]) (out(i := r))"
      using called_in_call [OF c call(2) len call(3,4)] by (simp add: call(1))
    moreover have "returned s = None" using open_run [OF call(2)] call(3) by simp
    moreover have "wg s' = int (length (filter active (routines s')))"
      using update [OF call(2), of "Acted r"] call(3) wg call(1) by (simp add: active_def)
    ultimately show ?thesis
      using len un sp call unfolding each_inv_def by (auto simp: nth_list_update)
  next
    case (assign i err)
    have "called_in act cs w0 s' order out"
      using assign by (intro called_in_leave [OF c assign(2) len, where r = Leaving]) (simp_all add: acted_def)
    moreover have "returned s = None" using open_run [OF assign(2)] assign(3) by simp
    moreover have "wg s' = int (length (filter active (routines s')))"
      using update [OF assign(2), of Leaving] assign(3) wg assign(1) by (simp add: active_def)
    ultimately show ?thesis
      using len un sp assign unfolding each_inv_def by (auto simp: nth_list_update)
  next
    case (fine i)
    have "called_in act cs w0 s' order out"
      using fine by (intro called_in_leave [OF c fine(2) len, where r = Leaving]) (simp_all add: acted_def)
    moreover have "returned s = None" using open_run [OF fine(2)] fine(3) by simp
    moreover have "wg s' = int (length (filter active (routines s')))"
      using update [OF fine(2), of Leaving] fine(3) wg fine(1) by (simp add: active_def)
    ultimately show ?thesis
      using len un sp fine unfolding each_inv_def by (auto simp: nth_list_update)
  next
    case (leave i)
    have "called_in act cs w0 s' order out"
      using leave by (intro called_in_leave [OF c leave(2) len, where r = Finished]) (simp_all add: acted_def)
    moreover have "returned s = None" using open_run [OF leave(2)] leave(3) by simp
    moreover have "wg s' = int (length (filter active (routines s')))"
      using length_filter_update [OF leave(2), of active Finished] leave(3) wg leave(1) by (simp add: active_def)
    ultimately show ?thesis
      using len un sp leave unfolding each_inv_def by (auto simp: nth_list_update)
  next
    case return
    have "filter active (routines s) = []" using wg return(3) by simp
    then have "\<not> active (routines s ! i)" if "i < length cs" for i using len that by (simp add: filter_empty_conv)
    then have "list_all (\<lambda>x. x = Finished) (routines s)"
      using un len return(2) by (auto simp: list_all_length active_def)
    moreover have "called_in act cs w0 s' order out" using return(1) by (intro called_in_cong [OF c]) simp_all
    ultimately show ?thesis using len un sp wg unfolding each_inv_def return(1) by auto
  qed
qed

text \<open>What remains to be done: each step does some of it.\<close>

fun work :: "routine \<Rightarrow> nat" where
  "work Unspawned = 4"
| "work Running = 3"
| "work (Acted r) = 2"
| "work Leaving = 1"
| "work Finished = 0"

definition remaining :: "'w each_state \<Rightarrow> nat" where
  "remaining s = sum_list (map work (routines s)) + (if returned s = None then 1 else 0)"

lemma sum_list_update_less:
  "i < length xs \<Longrightarrow> work r < work (xs ! i) \<Longrightarrow> sum_list (map work (xs[i := r])) < sum_list (map work xs)"
proof (induction xs arbitrary: i)
  case (Cons x xs)
  then show ?case by (cases i) auto
qed simp

lemma each_step_remaining:
  assumes "each_inv act cs w0 s" and "each_step act cs s s'"
  shows "remaining s' < remaining s"
  using assms(2)
proof cases
  case spawn
  with assms(1) have "spawned s < length (routines s)" "routines s ! spawned s = Unspawned" by (auto simp: each_inv_def)
  with sum_list_update_less [of "spawned s" "routines s" Running] spawn show ?thesis by (simp add: remaining_def)
next
  case (call i r w)
  with sum_list_update_less [of i "routines s" "Acted r"] show ?thesis by (simp add: remaining_def)
next
  case (assign i err)
  with sum_list_update_less [of i "routines s" Leaving] show ?thesis by (simp add: remaining_def)
next
  case (fine i)
  with sum_list_update_less [of i "routines s" Leaving] show ?thesis by (simp add: remaining_def)
next
  case (leave i)
  with sum_list_update_less [of i "routines s" Finished] show ?thesis by (simp add: remaining_def)
next
  case return
  then show ?thesis by (simp add: remaining_def)
qed

lemma each_progress:
  assumes inv: "each_inv act cs w0 s" and open_run: "returned s = None"
  shows "\<exists>s'. each_step act cs s s'"
proof (cases "\<exists>x \<in> set (routines s). active x")
  case True
  then obtain i where i: "i < length (routines s)" "active (routines s ! i)" by (metis in_set_conv_nth)
  show ?thesis
  proof (cases "routines s ! i")
    case Running
    obtain r w where "act_on act (cs ! i) (each_world s) = (r, w)" by fastforce
    with i(1) Running show ?thesis by (blast intro: each_step.call)
  next
    case (Acted r)
    with i(1) show ?thesis by (cases r) (blast intro: each_step.fine each_step.assign)+
  qed (use i in \<open>auto simp: active_def intro: each_step.leave\<close>)
next
  case False
  with inv have wg: "wg s = 0" by (auto simp: each_inv_def filter_empty_conv)
  show ?thesis
  proof (cases "spawned s < length cs")
    case False
    with inv have "spawned s = length cs" by (auto simp: each_inv_def)
    from each_step.return [OF this wg open_run] show ?thesis by blast
  qed (blast intro: each_step.spawn)
qed

text \<open>
  C9. However the goroutines of \<open>EachClient\<close> interleave, it comes to an end, without a deadlock: while it has not
  returned some step can be taken, and every step leaves less to be done. When it has returned, every goroutine has
  finished, and every client has been called exactly once, in some order; the state of the world and whether
  there is an error are those of the function that calls the clients one after the other in this order, and
  the error is one that a call has returned.
\<close>

theorem EachClient_parallel:
  assumes "(each_step act cs)\<^sup>*\<^sup>* (each_start cs w) s"
  shows "(returned s = None \<longrightarrow> (\<exists>s'. each_step act cs s s')) \<and>
    (\<forall>s'. each_step act cs s s' \<longrightarrow> remaining s' < remaining s) \<and>
    (\<forall>r. returned s = Some r \<longrightarrow> list_all (\<lambda>x. x = Finished) (routines s) \<and>
      (\<exists>order. mset order = mset cs \<and> each_world s = snd (each_client act order None w) \<and>
        (r = None \<longleftrightarrow> fst (each_client act order None w) = None) \<and>
        (\<forall>e. r = Some e \<longrightarrow> Some e \<in> set (results act order w))))"
proof -
  have inv: "each_inv act cs w s"
    using assms by (induction rule: rtranclp_induct) (auto intro: each_inv_start each_inv_step)
  have ends: "list_all (\<lambda>x. x = Finished) (routines s) \<and>
      (\<exists>order. mset order = mset cs \<and> each_world s = snd (each_client act order None w) \<and>
        (r = None \<longleftrightarrow> fst (each_client act order None w) = None) \<and>
        (\<forall>e. r = Some e \<longrightarrow> Some e \<in> set (results act order w)))" (is "?ends r") if r: "returned s = Some r" for r
  proof -
    have fin: "list_all (\<lambda>x. x = Finished) (routines s)" "r = result s" "length (routines s) = length cs"
      using inv r by (auto simp: each_inv_def)
    obtain order out where c: "called_in act cs w s order out" using inv by (auto simp: each_inv_def)
    let ?cs = "map (nth cs) order"
    have set: "set order = {0..<length cs}"
      using c fin(1,3) by (auto simp: called_in_def list_all_length acted_def)
    moreover have "distinct order" using c unfolding called_in_def by blast
    ultimately have "mset order = mset [0..<length cs]"
      using set_eq_iff_mset_eq_distinct [of order "[0..<length cs]"] by (simp del: mset_upt)
    then have m: "mset ?cs = mset cs" by (metis map_nth mset_map)
    have res: "results act ?cs w = map out order" and world: "each_world s = snd (each_client act ?cs None w)"
      and err: "\<forall>e. result s = Some e \<longrightarrow> Some e \<in> out ` set order"
      using c unfolding called_in_def by blast+
    have "\<forall>i \<in> set order. out i \<noteq> None \<longrightarrow> result s \<noteq> None"
      using c fin(1,3) set by (auto simp: called_in_def list_all_length)
    then have "r = None \<longleftrightarrow> fst (each_client act ?cs None w) = None"
      using res err fin(2) by (auto simp: each_client_error)
    moreover have "\<forall>e. r = Some e \<longrightarrow> Some e \<in> set (results act ?cs w)" using res err fin(2) by simp
    ultimately show ?thesis using fin(1) m world by (intro conjI exI [of _ ?cs])
  qed
  have "\<forall>r. returned s = Some r \<longrightarrow> ?ends r" by (intro allI impI) (rule ends)
  moreover have "returned s = None \<longrightarrow> (\<exists>s'. each_step act cs s s')" using each_progress [OF inv] by blast
  moreover have "\<forall>s'. each_step act cs s s' \<longrightarrow> remaining s' < remaining s" using each_step_remaining [OF inv] by blast
  ultimately show ?thesis by (intro conjI)
qed

text \<open>Two clients, the second of which fails; it is called first.\<close>

definition example_act :: "string \<Rightarrow> nat FailoverClient \<Rightarrow> nat \<Rightarrow> goerr option \<times> nat" where
  "example_act endpoint client n = (if endpoint = ''pg02'' then Some (Plain ''refused'') else None, n + 1)"

theorem EachClient_parallel_witness:
  "\<exists>s. (each_step example_act [(''pg01'', counting_client), (''pg02'', counting_client)])\<^sup>*\<^sup>* (each_start [(''pg01'', counting_client), (''pg02'', counting_client)] 0) s \<and>
     returned s = Some (Some (Plain ''refused'')) \<and> each_world s = 2"
proof -
  let ?cs = "[(''pg01'', counting_client), (''pg02'', counting_client)]"
  let ?R = "each_step example_act ?cs"
  let ?s = "\<lambda>w rs n g e. \<lparr>each_world = w, routines = rs, spawned = n, wg = g, result = e, returned = None\<rparr>"
  have "?R (each_start ?cs 0) (?s 0 [Running, Unspawned] 1 1 None)"
    using each_step.spawn [of "each_start ?cs 0" ?cs example_act] by (simp add: each_start_def set_routine_def)
  moreover have "?R (?s 0 [Running, Unspawned] 1 1 None) (?s 0 [Running, Running] 2 2 None)"
    using each_step.spawn [of "?s 0 [Running, Unspawned] 1 1 None" ?cs example_act]
    by (simp add: set_routine_def numeral_2_eq_2)
  moreover have "?R (?s 0 [Running, Running] 2 2 None) (?s 1 [Running, Acted (Some (Plain ''refused''))] 2 2 None)"
    using each_step.call [of 1 "?s 0 [Running, Running] 2 2 None" example_act ?cs "Some (Plain ''refused'')" 1]
    by (simp add: set_routine_def act_on_def example_act_def)
  moreover have "?R (?s 1 [Running, Acted (Some (Plain ''refused''))] 2 2 None) (?s 2 [Acted None, Acted (Some (Plain ''refused''))] 2 2 None)"
    using each_step.call [of 0 "?s 1 [Running, Acted (Some (Plain ''refused''))] 2 2 None" example_act ?cs None 2]
    by (simp add: set_routine_def act_on_def example_act_def)
  moreover have "?R (?s 2 [Acted None, Acted (Some (Plain ''refused''))] 2 2 None) (?s 2 [Acted None, Leaving] 2 2 (Some (Plain ''refused'')))"
    using each_step.assign [of 1 "?s 2 [Acted None, Acted (Some (Plain ''refused''))] 2 2 None" "Plain ''refused''" example_act ?cs]
    by (simp add: set_routine_def)
  moreover have "?R (?s 2 [Acted None, Leaving] 2 2 (Some (Plain ''refused''))) (?s 2 [Leaving, Leaving] 2 2 (Some (Plain ''refused'')))"
    using each_step.fine [of 0 "?s 2 [Acted None, Leaving] 2 2 (Some (Plain ''refused''))" example_act ?cs]
    by (simp add: set_routine_def)
  moreover have "?R (?s 2 [Leaving, Leaving] 2 2 (Some (Plain ''refused''))) (?s 2 [Finished, Leaving] 2 1 (Some (Plain ''refused'')))"
    using each_step.leave [of 0 "?s 2 [Leaving, Leaving] 2 2 (Some (Plain ''refused''))" example_act ?cs]
    by (simp add: set_routine_def)
  moreover have "?R (?s 2 [Finished, Leaving] 2 1 (Some (Plain ''refused''))) (?s 2 [Finished, Finished] 2 0 (Some (Plain ''refused'')))"
    using each_step.leave [of 1 "?s 2 [Finished, Leaving] 2 1 (Some (Plain ''refused''))" example_act ?cs]
    by (simp add: set_routine_def)
  moreover have last: "?R (?s 2 [Finished, Finished] 2 0 (Some (Plain ''refused'')))
      ((?s 2 [Finished, Finished] 2 0 (Some (Plain ''refused'')))\<lparr>returned := Some (Some (Plain ''refused''))\<rparr>)"
    using each_step.return [of "?s 2 [Finished, Finished] 2 0 (Some (Plain ''refused''))" ?cs example_act] by simp
  ultimately have "?R\<^sup>*\<^sup>* (each_start ?cs 0)
      ((?s 2 [Finished, Finished] 2 0 (Some (Plain ''refused'')))\<lparr>returned := Some (Some (Plain ''refused''))\<rparr>)"
    by (meson converse_rtranclp_into_rtranclp r_into_rtranclp)
  moreover from EachClient_parallel [OF this] have "list_all (\<lambda>x. x = Finished)
      (routines ((?s 2 [Finished, Finished] 2 0 (Some (Plain ''refused'')))\<lparr>returned := Some (Some (Plain ''refused''))\<rparr>))" by simp
  ultimately show ?thesis by (intro exI) (auto intro!: conjI)
qed

end
