(* ===== verification/Gomega.thy ===== *)
theory Gomega
  imports Prelude
begin

text \<open>
  The assertions of the tests and of their helpers: \<open>Expect\<close>, and the polling of \<open>Eventually\<close> as
  \<open>vendor/github.com/onsi/gomega/internal/asyncassertion\<close> has it. A failed assertion ends the test through the fail
  handler, which panics. How many polls follow the first one before the timeout is a parameter.
\<close>

definition expect_failed :: "string \<Rightarrow> panic" where
  "expect_failed msg = Explicit msg"

definition and_then :: "'a outcome \<times> 't \<Rightarrow> ('a \<Rightarrow> 't \<Rightarrow> 'b outcome \<times> 't) \<Rightarrow> 'b outcome \<times> 't" where
  "and_then x g =
     (case x of
        (Ok a, t) \<Rightarrow> g a t
      | (Err e, t) \<Rightarrow> (Err e, t)
      | (Panic p, t) \<Rightarrow> (Panic p, t))"

definition expect :: "bool \<Rightarrow> string \<Rightarrow> 't \<Rightarrow> unit outcome \<times> 't" where
  "expect b msg t = ((if b then Ok () else Panic (expect_failed msg)), t)"

text \<open>
  \<open>Eventually(poll).Should(matcher)\<close>: one poll, and then one after every interval until the timeout, of which there are
  \<open>n\<close>. A poll gives \<open>Some a\<close> when the matcher accepts. A future change is always possible: what is polled are functions
  and a channel that is never closed. A panic in a poll is not caught.
\<close>

fun eventually :: "('t \<Rightarrow> 'a option outcome \<times> 't) \<Rightarrow> ('t \<Rightarrow> 't) \<Rightarrow> nat \<Rightarrow> 't \<Rightarrow> 'a outcome \<times> 't" where
  "eventually poll interval 0 t =
     (case poll t of
        (Ok (Some a), t') \<Rightarrow> (Ok a, t')
      | (Panic p, t') \<Rightarrow> (Panic p, t')
      | (_, t') \<Rightarrow> (Panic (expect_failed ''Timed out''), t'))"
| "eventually poll interval (Suc n) t =
     (case poll t of
        (Ok (Some a), t') \<Rightarrow> (Ok a, t')
      | (Panic p, t') \<Rightarrow> (Panic p, t')
      | (_, t') \<Rightarrow> eventually poll interval n (interval t'))"

text \<open>What \<open>Eventually\<close> accepts was accepted at one of the polls, in a state that keeps the invariants of the polling.\<close>

lemma eventually_Ok:
  assumes "eventually poll interval n t = (Ok a, t')" and "I t"
    and "\<And>s r s'. I s \<Longrightarrow> poll s = (r, s') \<Longrightarrow> I s'" and "\<And>s. I s \<Longrightarrow> I (interval s)"
  shows "\<exists>s. I s \<and> poll s = (Ok (Some a), t')"
  using assms(1,2)
proof (induction n arbitrary: t)
  case 0
  then show ?case by (auto split: prod.splits outcome.splits option.splits)
next
  case (Suc n)
  obtain r s where p: "poll t = (r, s)" by fastforce
  have I: "I (interval s)" using assms(3) [OF Suc.prems(2) p] by (rule assms(4))
  show ?case
    using Suc.prems p Suc.IH [OF _ I] by (auto split: outcome.splits option.splits)
qed

lemma and_then_Ok: "and_then x g = (Ok b, t') \<longleftrightarrow> (\<exists>a t. x = (Ok a, t) \<and> g a t = (Ok b, t'))"
  by (cases x; cases "fst x") (auto simp: and_then_def)

lemma and_then_same: "and_then x (\<lambda>y t. (Ok y, t)) = x"
  by (auto simp: and_then_def split: prod.split outcome.split)

lemma expect_Ok [simp]: "expect b msg t = (Ok u, t') \<longleftrightarrow> b \<and> t' = t"
  by (auto simp: expect_def)

end
