(* ===== verification/Acceptance.thy ===== *)
theory Acceptance
  imports Pacemaker Gomega
begin

text \<open>
  The cluster that the acceptance tests drive (\<open>pkg/acceptance/cluster.go\<close>) and the small functions of the test
  itself (\<open>pkg/acceptance/acceptance.go\<close>). \<open>Roles\<close> asks the Pacemaker wrapper, through an executor that runs the
  command in a container, and looks the answer up among the members.

  The docker client is a parameter, and so is \<open>url.Parse\<close>. A failed \<open>Expect\<close> ends the test through the fail
  handler, which panics.
\<close>

section \<open>The cluster\<close>

record Container =
  container_ID :: string
  container_Name :: string
  container_Hostname :: string
  IPAddress :: string
  Ports :: "string \<rightharpoonup> string list"   \<comment> \<open>the host ports of each exposed port\<close>

record ExecInspect =
  exec_Running :: bool
  exec_ExitCode :: int

record 'w docker =
  Endpoint :: string
  CreateExec :: "string \<Rightarrow> string list \<Rightarrow> 'w \<Rightarrow> (goerr + string) \<times> 'w"
  StartExec :: "ctx \<Rightarrow> string \<Rightarrow> 'w \<Rightarrow> (goerr option \<times> string) \<times> 'w"  \<comment> \<open>with what was written to the streams\<close>
  InspectExec :: "string \<Rightarrow> 'w \<Rightarrow> (ExecInspect option \<times> goerr option) \<times> 'w"
  RemoveContainer :: "string \<Rightarrow> 'w \<Rightarrow> goerr option \<times> 'w"
  url_Hostname :: "string \<Rightarrow> goerr + string"  \<comment> \<open>\<open>url.Parse\<close> and then \<open>Hostname\<close>\<close>

record 'w Cluster =
  cluster_ctx :: ctx
  cluster_client :: "'w docker"
  members :: "Container list"

definition Hostname :: "'w Cluster \<Rightarrow> string outcome" where
  "Hostname c =
     (case url_Hostname (cluster_client c) (Endpoint (cluster_client c)) of
        Inl err \<Rightarrow> Panic (expect_failed (''failed to parse etcd client endpoint: '' @ Endpoint (cluster_client c)))
      | Inr hostname \<Rightarrow> Ok (if hostname \<noteq> '''' then hostname else ''127.0.0.1''))"

text \<open>An index into the host ports of a container, where a missing key is an empty list.\<close>

definition first_port :: "Container \<Rightarrow> string \<Rightarrow> string outcome" where
  "first_port c port = (case Ports c port of Some (p # _) \<Rightarrow> Ok p | _ \<Rightarrow> Panic IndexOutOfRange)"

definition etcd_endpoint :: "'w Cluster \<Rightarrow> string outcome" where
  "etcd_endpoint c =
     (case members c of
        [] \<Rightarrow> Panic IndexOutOfRange
      | member # _ \<Rightarrow>
          (case first_port member ''2379/tcp'' of
             Ok hostPort \<Rightarrow>
               (case Hostname c of
                  Ok host \<Rightarrow> Ok (''http://'' @ host @ '':'' @ hostPort)
                | r \<Rightarrow> r)
           | r \<Rightarrow> r))"

fun remove_each :: "'w docker \<Rightarrow> Container list \<Rightarrow> 'w \<Rightarrow> 'w" where
  "remove_each d [] w = w"
| "remove_each d (m # ms) w = remove_each d ms (snd (RemoveContainer d (container_ID m) w))"

definition Shutdown :: "'w Cluster \<Rightarrow> 'w \<Rightarrow> 'w" where
  "Shutdown c w = remove_each (cluster_client c) (members c) w"

text \<open>
  \<open>CombinedOutput\<close> of the docker executor. \<open>InspectExec\<close> returns no status together with an error, but the status is
  read before the error is looked at.
\<close>

definition docker_CombinedOutput ::
  "'w docker \<Rightarrow> Container \<Rightarrow> ctx \<Rightarrow> string \<Rightarrow> string list \<Rightarrow> 'w \<Rightarrow> (string \<times> goerr option) outcome \<times> 'w" where
  "docker_CombinedOutput d container ctx name args w =
     (case CreateExec d (container_ID container) (name # args) w of
        (Inl err, w1) \<Rightarrow> (Ok ('''', Some err), w1)
      | (Inr exec, w1) \<Rightarrow>
          (case StartExec d ctx exec w1 of
             ((Some err, _), w2) \<Rightarrow> (Ok ('''', Some err), w2)
           | ((None, output), w2) \<Rightarrow>
               (case InspectExec d exec w2 of
                  ((None, _), w3) \<Rightarrow> (Panic NilDereference, w3)
                | ((Some execStatus, err), w3) \<Rightarrow>
                    (let err1 = (if exec_Running execStatus then Some (Plain ''exec'ed command has not finished'') else err);
                         err2 = (if err1 = None \<and> exec_ExitCode execStatus \<noteq> 0
                                 then Some (Plain (''command exited with status '' @ itoa (exec_ExitCode execStatus))) else err1) in
                     (Ok (output, err2), w3)))))"

text \<open>The first member, as an executor of the Pacemaker wrapper, for calls that do not panic.\<close>

definition Executor :: "'w Cluster \<Rightarrow> (string \<Rightarrow> goerr + element) \<Rightarrow> 'w pacemaker_executor" where
  "Executor c parse =
     \<lparr>CombinedOutput = (\<lambda>ctx name args w.
        (case docker_CombinedOutput (cluster_client c) (hd (members c)) ctx name args w of
           (Ok (_, Some err), w') \<Rightarrow> (Inl err, w')
         | (Ok (output, None), w') \<Rightarrow> (Inr output, w')
         | (Err err, w') \<Rightarrow> (Inl err, w')
         | (Panic p, w') \<Rightarrow> (Inl (Plain ''panic''), w'))),
      ReadFromBytes = parse\<rparr>"

fun find_member :: "Container list \<Rightarrow> string \<Rightarrow> Container option" where
  "find_member [] nodeName = None"
| "find_member (member # ms) nodeName =
     (if container_Hostname member = nodeName then Some member else find_member ms nodeName)"

definition lookup_member :: "'w Cluster \<Rightarrow> element option \<Rightarrow> Container option" where
  "lookup_member c node =
     (case node of
        None \<Rightarrow> None
      | Some n \<Rightarrow>
          (let nodeName = SelectAttrValue n ''uname'' '''' in
           if nodeName \<noteq> '''' then find_member (members c) nodeName else None))"

text \<open>
  \<open>Roles\<close>. Its query runs one command, \<open>cibadmin\<close>: a panic of the executor there is a panic of \<open>Roles\<close>.
\<close>

definition Roles ::
  "'w Cluster \<Rightarrow> (string \<Rightarrow> goerr + element) \<Rightarrow> 'w \<Rightarrow> (Container option \<times> Container option \<times> Container option) outcome \<times> 'w"
where
  "Roles c parse w =
     (if members c = [] then (Panic IndexOutOfRange, w)
      else
        (case docker_CombinedOutput (cluster_client c) (hd (members c)) (cluster_ctx c) ''cibadmin'' [''--query'', ''--local''] w of
           (Panic p, w') \<Rightarrow> (Panic p, w')
         | _ \<Rightarrow>
             (case Get (Executor c parse) (cluster_ctx c) [MasterXPath, SyncXPath, AsyncXPath] w of
                (Err _, w') \<Rightarrow> (Ok (None, None, None), w')
              | (Panic p, w') \<Rightarrow> (Panic p, w')
              | (Ok nodes, w') \<Rightarrow>
                  (if length nodes < 3 then (Panic IndexOutOfRange, w')
                   else (Ok (lookup_member c (nodes ! 0), lookup_member c (nodes ! 1), lookup_member c (nodes ! 2)), w')))))"

definition Master :: "'w Cluster \<Rightarrow> (string \<Rightarrow> goerr + element) \<Rightarrow> 'w \<Rightarrow> Container option outcome \<times> 'w" where
  "Master c parse w = map_prod (map_outcome fst) id (Roles c parse w)"

section \<open>Starting the members\<close>

record ClusterOptions =
  Workspace :: string
  DockerImage :: string

record CreateContainerOptions =
  create_Binds :: "string list"
  create_Hostname :: string
  create_Image :: string
  create_Entrypoint :: "string list"
  create_Cmd :: "string list"
  create_ExposedPorts :: "string list"

definition create_options :: "ClusterOptions \<Rightarrow> string \<Rightarrow> CreateContainerOptions" where
  "create_options o1 name =
     \<lparr>create_Binds = [Workspace o1 @ '':/pgsql-cluster-manager'', ''/var/run/docker.sock:/var/run/docker.sock''],
      create_Hostname = name, create_Image = DockerImage o1, create_Entrypoint = [''/usr/bin/dumb-init'', ''--''],
      create_Cmd = [''bash'', ''-c'', ''while :; do sleep 1; done''],
      create_ExposedPorts = [''6432/tcp'', ''2379/tcp'']\<rparr>"

definition startMember :: "'w docker \<Rightarrow> ctx \<Rightarrow> string list \<Rightarrow> Container \<Rightarrow> 'w \<Rightarrow> unit outcome \<times> 'w" where
  "startMember d ctx ids node w =
     (case docker_CombinedOutput d node ctx ''/bin/start-cluster'' ids w of
        (Ok (_, None), w') \<Rightarrow> (Ok (), w')
      | (Ok (_, Some err), w') \<Rightarrow> (Panic (expect_failed (err_string err)), w')
      | (Err e, w') \<Rightarrow> (Panic (expect_failed (err_string e)), w')
      | (Panic p, w') \<Rightarrow> (Panic p, w'))"

section \<open>The functions of the test\<close>

text \<open>\<open>strings.SplitN(s, "/", 2)[0]\<close>: everything before the first slash.\<close>

definition before_slash :: "string \<Rightarrow> string" where
  "before_slash s = hd (split_on (CHR ''/'') s)"

definition addrOf :: "Container \<Rightarrow> string" where
  "addrOf container = before_slash (IPAddress container)"

definition pg_connection_string :: "'w Cluster \<Rightarrow> Container \<Rightarrow> string outcome" where
  "pg_connection_string c container =
     (case Hostname c of
        Ok host \<Rightarrow>
          (case first_port container ''6432/tcp'' of
             Ok port \<Rightarrow> Ok (''user=postgres dbname=postgres host='' @ host @ '' port='' @ port @
               '' connect_timeout=1 sslmode=disable'')
           | r \<Rightarrow> r)
      | r \<Rightarrow> r)"

text \<open>
  \<open>strings.Replace\<close> of a non-empty string with a count: that many replacements from the left, and all of them for a
  negative count.
\<close>

lemma str_index_bound: "str_index s sub = Some i \<Longrightarrow> i + length sub \<le> length s"
proof (induction s arbitrary: i)
  case Nil
  then show ?case by (simp add: str_index.simps split: if_splits)
next
  case (Cons c cs)
  then show ?case
    by (auto simp: str_index.simps [of "c # cs"] dest: prefix_length_le split: if_splits)
qed

function replace_count :: "string \<Rightarrow> string \<Rightarrow> string \<Rightarrow> int \<Rightarrow> string" where
  "replace_count s old new n =
     (if old = [] \<or> old = new \<or> n = 0 then s
      else
        (case str_index s old of
           None \<Rightarrow> s
         | Some i \<Rightarrow> take i s @ new @ replace_count (drop (i + length old) s) old new (n - 1)))"
  by pat_completeness auto
termination replace_count
proof (relation "measure (\<lambda>(s, old, new, n). length s)")
  fix s old new :: string and n :: int and i
  assume "\<not> (old = [] \<or> old = new \<or> n = 0)" and "str_index s old = Some i"
  moreover from this have "0 < length old" by simp
  ultimately have "length (drop (i + length old) s) < length s"
    using str_index_bound [of s old i] unfolding length_drop by linarith
  then show "((drop (i + length old) s, old, new, n - 1), s, old, new, n) \<in> measure (\<lambda>(s, old, new, n). length s)" by simp
qed simp

declare replace_count.simps [simp del]

definition newline :: string where
  "newline = [CHR 0x0A]"

text \<open>What \<open>printOutput\<close> prints: the count is zero.\<close>

definition printOutput :: "string \<Rightarrow> string \<Rightarrow> string" where
  "printOutput source output = replace_count (newline @ output) newline (newline @ source @ '' >'') 0 @ newline"

definition failover_args :: "string list \<Rightarrow> string list" where
  "failover_args args = [''failover'', ''--config-file'', ''/etc/pgsql-cluster-manager/config.toml''] @ args"

definition etcdGetValue :: "(string \<Rightarrow> 'w \<Rightarrow> (goerr + KeyValue list) \<times> 'w) \<Rightarrow> string \<Rightarrow> 'w \<Rightarrow> string outcome \<times> 'w" where
  "etcdGetValue get key w =
     (case get key w of
        (Inl err, w') \<Rightarrow> (Panic (expect_failed (err_string err)), w')
      | (Inr [], w') \<Rightarrow> (Ok '''', w')
      | (Inr (kv # _), w') \<Rightarrow> (Ok (Value kv), w'))"

lemma printOutput_unchanged: "printOutput source output = newline @ output @ newline"
  by (simp add: printOutput_def replace_count.simps)

section \<open>Roles\<close>

lemma find_member_Some: "find_member ms n = Some k \<Longrightarrow> k \<in> set ms \<and> container_Hostname k = n"
  by (induction ms) (auto split: if_splits)

lemma lookup_member_Some:
  assumes "lookup_member c n = Some k"
  shows "k \<in> set (members c) \<and> (\<exists>e. n = Some e \<and> SelectAttrValue e ''uname'' '''' = container_Hostname k) \<and>
    container_Hostname k \<noteq> ''''"
  using assms by (auto simp: lookup_member_def Let_def split: option.splits if_splits dest: find_member_Some)

definition member_with_role :: "'w Cluster \<Rightarrow> element \<Rightarrow> string \<Rightarrow> Container option \<Rightarrow> bool" where
  "member_with_role c doc v x \<longleftrightarrow>
     (\<forall>k. x = Some k \<longrightarrow> k \<in> set (members c) \<and> container_Hostname k \<noteq> '''' \<and>
        (\<exists>p e. has_role v doc p \<and> elem_at doc p = Some e \<and> SelectAttrValue e ''uname'' '''' = container_Hostname k))"

lemma member_with_role_lookup: "selects v doc n \<Longrightarrow> member_with_role c doc v (lookup_member c n)"
  using lookup_member_Some [of c n] by (fastforce simp: member_with_role_def selects_def)

lemma find_all_roles:
  "\<exists>m s a. find_all doc [MasterXPath, SyncXPath, AsyncXPath] = Ok [m, s, a] \<and>
     selects ''LATEST'' doc m \<and> selects ''STREAMING|SYNC'' doc s \<and> selects ''STREAMING|POTENTIAL'' doc a"
proof -
  have "\<exists>n. FindElement doc MasterXPath = Ok n \<and> selects ''LATEST'' doc n" "\<exists>n. FindElement doc SyncXPath = Ok n \<and> selects ''STREAMING|SYNC'' doc n"
    "\<exists>n. FindElement doc AsyncXPath = Ok n \<and> selects ''STREAMING|POTENTIAL'' doc n"
    by (rule FindElement_selects, simp add: role_paths_def)+
  then show ?thesis by auto
qed

text \<open>
  The three containers that \<open>Roles\<close> gives are members of the cluster whose host names are the names of nodes
  that the cluster information base, printed by the first member with quorum, records as master, as synchronous
  and as potential standby; when the query fails all three are \<open>nil\<close>.
\<close>

theorem Roles_members:
  assumes "Roles c parse w = (Ok (m, s, a), w')"
  shows "m = None \<and> s = None \<and> a = None \<or>
    (\<exists>out doc. docker_CombinedOutput (cluster_client c) (hd (members c)) (cluster_ctx c) ''cibadmin'' [''--query'', ''--local''] w =
        (Ok (out, None), w') \<and> parse out = Inr doc \<and> has_quorum doc \<and>
      member_with_role c doc ''LATEST'' m \<and> member_with_role c doc ''STREAMING|SYNC'' s \<and>
      member_with_role c doc ''STREAMING|POTENTIAL'' a)"
proof -
  let ?out = "docker_CombinedOutput (cluster_client c) (hd (members c)) (cluster_ctx c) ''cibadmin'' [''--query'', ''--local''] w"
  obtain r v where g: "Get (Executor c parse) (cluster_ctx c) [MasterXPath, SyncXPath, AsyncXPath] w = (r, v)" by fastforce
  from assms have run: "(case r of Err e \<Rightarrow> (Ok (None, None, None), v) | Panic p \<Rightarrow> (Panic p, v)
      | Ok nodes \<Rightarrow> if length nodes < 3 then (Panic IndexOutOfRange, v)
          else (Ok (lookup_member c (nodes ! 0), lookup_member c (nodes ! 1), lookup_member c (nodes ! 2)), v)) = (Ok (m, s, a), w')"
    and no_panic: "\<not> is_panic (fst ?out)"
    by (auto simp: Roles_def g split: if_splits prod.splits outcome.splits)
  show ?thesis
  proof (cases r)
    case (Ok nodes)
    obtain x out doc where x: "CombinedOutput (Executor c parse) (cluster_ctx c) ''cibadmin'' [''--query'', ''--local''] w = (Inr out, v)"
      "parse out = Inr doc" "has_quorum doc" "find_all doc [MasterXPath, SyncXPath, AsyncXPath] = Ok nodes"
      using g Ok by (auto simp: Get_eq Executor_def split: prod.splits sum.splits if_splits)
    from x(1) have out: "?out = (Ok (out, None), v)"
      by (auto simp: Executor_def split: prod.splits outcome.splits option.splits)
    obtain n0 n1 n2 where n: "nodes = [n0, n1, n2]" "selects ''LATEST'' doc n0" "selects ''STREAMING|SYNC'' doc n1"
      "selects ''STREAMING|POTENTIAL'' doc n2"
      using find_all_roles [of doc] x(4) by auto
    with run Ok have "m = lookup_member c n0" "s = lookup_member c n1" "a = lookup_member c n2" "v = w'" by simp_all
    with n out x(2,3) show ?thesis by (auto intro: member_with_role_lookup)
  qed (use run in auto)
qed

text \<open>
  The docker executor reports success only for a command that was created and started, that is no longer
  running and whose exit status is zero, and then returns its output; every other answer of docker is an error,
  except for a failed inspection: the missing status is dereferenced and the call panics.
\<close>

theorem docker_CombinedOutput_result:
  assumes "docker_CombinedOutput d k ctx name args w = (r, w')"
  shows "(\<forall>out. r = Ok (out, None) \<longrightarrow> (\<exists>exec w1 w2 status. CreateExec d (container_ID k) (name # args) w = (Inr exec, w1) \<and>
        StartExec d ctx exec w1 = ((None, out), w2) \<and> InspectExec d exec w2 = ((Some status, None), w') \<and>
        \<not> exec_Running status \<and> exec_ExitCode status = 0)) \<and>
    ((\<exists>p. r = Panic p) \<longleftrightarrow> (\<exists>exec w1 out w2 err. CreateExec d (container_ID k) (name # args) w = (Inr exec, w1) \<and>
        StartExec d ctx exec w1 = ((None, out), w2) \<and> InspectExec d exec w2 = ((None, err), w')))"
  using assms
  by (auto simp: docker_CombinedOutput_def Let_def split: prod.splits sum.splits option.splits if_splits)

text \<open>Two members; the docker client prints the example, or fails to inspect.\<close>

definition example_docker :: "bool \<Rightarrow> unit docker" where
  "example_docker inspects =
     \<lparr>Endpoint = ''tcp://10.0.0.9:2375'', CreateExec = (\<lambda>k cmd w. (Inr ''exec'', w)), StartExec = (\<lambda>ctx e w. ((None, ''cib''), w)),
      InspectExec = (\<lambda>e w. (if inspects then (Some \<lparr>exec_Running = False, exec_ExitCode = 0\<rparr>, None) else (None, Some (Plain ''gone'')), w)),
      RemoveContainer = (\<lambda>k w. (None, w)), url_Hostname = (\<lambda>u. Inr ''10.0.0.9'')\<rparr>"

definition example_member :: "string \<Rightarrow> Container" where
  "example_member n = \<lparr>container_ID = n, container_Name = n, container_Hostname = n, IPAddress = ''172.17.0.3/16'', Ports = Map.empty\<rparr>"

definition example_cluster :: "unit Cluster" where
  "example_cluster =
     \<lparr>cluster_ctx = Background, cluster_client = example_docker True, members = [example_member ''pg01'', example_member ''pg02'']\<rparr>"

theorem docker_CombinedOutput_result_witness:
  "\<exists>p. fst (docker_CombinedOutput (example_docker False) (example_member ''pg01'') Background ''crm'' [] ()) = Panic p"
proof -
  obtain r w' where r: "docker_CombinedOutput (example_docker False) (example_member ''pg01'') Background ''crm'' [] () = (r, w')" using prod.exhaust by blast
  from docker_CombinedOutput_result [OF r] have "\<exists>p. r = Panic p" by (simp add: example_docker_def)
  with r show ?thesis by simp
qed

theorem Roles_members_witness:
  "\<exists>m s a. fst (Roles example_cluster (\<lambda>out. Inr (example_cib ''1'')) ()) = Ok (m, s, a) \<and>
     (m = None \<and> s = None \<and> a = None \<or> member_with_role example_cluster (example_cib ''1'') ''LATEST'' m)"
proof -
  let ?c = "example_cluster" and ?parse = "\<lambda>out. Inr (example_cib ''1'')"
  have run: "docker_CombinedOutput (cluster_client ?c) (hd (members ?c)) (cluster_ctx ?c) ''cibadmin'' [''--query'', ''--local''] () = (Ok (''cib'', None), ())"
    by (simp add: example_cluster_def docker_CombinedOutput_def example_docker_def)
  obtain n0 n1 n2 where "find_all (example_cib ''1'') [MasterXPath, SyncXPath, AsyncXPath] = Ok [n0, n1, n2]"
    using find_all_roles by blast
  then have "Get (Executor ?c ?parse) (cluster_ctx ?c) [MasterXPath, SyncXPath, AsyncXPath] () = (Ok [n0, n1, n2], ())"
    using run example_quorum by (simp add: Get_eq Executor_def)
  moreover have "members ?c \<noteq> []" by (simp add: example_cluster_def)
  ultimately have r: "Roles ?c ?parse () = (Ok (lookup_member ?c n0, lookup_member ?c n1, lookup_member ?c n2), ())"
    unfolding Roles_def run by simp
  from Roles_members [OF r] r show ?thesis by auto
qed

end
