(* ===== verification/AcceptanceRun.thy ===== *)
theory AcceptanceRun
  imports Acceptance
begin

text \<open>
  The acceptance test: \<open>StartCluster\<close> (\<open>pkg/acceptance/cluster.go\<close>), the script \<open>RunAcceptance\<close>
  (\<open>pkg/acceptance/acceptance.go\<close>) and its program (\<open>cmd/pgcm-acceptance\<close>). The theorem says what a passing
  test has seen.

  Parameters are docker, the drivers of PostgreSQL and etcd, how often \<open>Eventually\<close> polls before its timeout, and when
  the goroutine of a failover gets to run.
\<close>

section \<open>Starting the cluster\<close>

text \<open>
  Creating containers. A container without network settings is one with an empty address: the test fails on both in
  the same place.
\<close>

record 'w docker_api =
  NewClientFromEnv :: "goerr option"   \<comment> \<open>its error; the client is \<open>api_client\<close>\<close>
  api_client :: "'w docker"
  CreateContainer :: "CreateContainerOptions \<Rightarrow> 'w \<Rightarrow> (goerr + string) \<times> 'w"
  StartContainer :: "string \<Rightarrow> 'w \<Rightarrow> goerr option \<times> 'w"
  InspectContainer :: "string \<Rightarrow> 'w \<Rightarrow> (goerr + Container) \<times> 'w"
  interval :: "'w \<Rightarrow> 'w"              \<comment> \<open>the wait between two polls\<close>
  polls :: "'w \<Rightarrow> nat"                 \<comment> \<open>how many polls follow the first one before the timeout\<close>
  start_order :: "'w \<Rightarrow> Container list \<Rightarrow> Container list"  \<comment> \<open>the order in which the goroutines take effect\<close>
  started_in_time :: "'w \<Rightarrow> bool"

definition inspect_poll :: "'w docker_api \<Rightarrow> string \<Rightarrow> 'w \<Rightarrow> Container option outcome \<times> 'w" where
  "inspect_poll d i w =
     (case InspectContainer d i w of
        (Inl err, w') \<Rightarrow> (Ok None, w')
      | (Inr c, w') \<Rightarrow> (Ok (Some c), w'))"

definition createMember :: "'w docker_api \<Rightarrow> ClusterOptions \<Rightarrow> string \<Rightarrow> 'w \<Rightarrow> Container outcome \<times> 'w" where
  "createMember d o1 name w =
     (case CreateContainer d (create_options o1 name) w of
        (Inl err, w1) \<Rightarrow> (Panic (expect_failed (err_string err)), w1)
      | (Inr i, w1) \<Rightarrow>
          (case StartContainer d i w1 of
             (Some err, w2) \<Rightarrow> (Panic (expect_failed (err_string err)), w2)
           | (None, w2) \<Rightarrow>
               and_then (eventually (inspect_poll d i) (interval d) (polls d w2) w2)
                 (\<lambda>c w3. and_then (expect (IPAddress c \<noteq> '''') ''IPAddress'' w3) (\<lambda>_ w4. (Ok c, w4)))))"

text \<open>A failed check in a goroutine panics there, which ends the whole process.\<close>

fun start_each :: "'w docker_api \<Rightarrow> ctx \<Rightarrow> string list \<Rightarrow> Container list \<Rightarrow> 'w \<Rightarrow> unit outcome \<times> 'w" where
  "start_each d ctx ids [] w = (Ok (), w)"
| "start_each d ctx ids (m # ms) w =
     and_then (startMember (api_client d) ctx ids m w) (\<lambda>_ w'. start_each d ctx ids ms w')"

definition StartCluster :: "'w docker_api \<Rightarrow> ctx \<Rightarrow> ClusterOptions \<Rightarrow> 'w \<Rightarrow> 'w Cluster outcome \<times> 'w" where
  "StartCluster d ctx o1 w =
     and_then (expect (NewClientFromEnv d = None) ''NewClientFromEnv'' w) (\<lambda>_ w0.
     and_then (createMember d o1 ''pg01'' w0) (\<lambda>pg01 w1.
     and_then (createMember d o1 ''pg02'' w1) (\<lambda>pg02 w2.
     and_then (createMember d o1 ''pg03'' w2) (\<lambda>pg03 w3.
       (let ids = [container_ID pg01, container_ID pg02, container_ID pg03] in
        and_then (start_each d ctx ids (start_order d w3 [pg01, pg02, pg03]) w3) (\<lambda>_ w4.
        and_then (expect (started_in_time d w4) ''timed out waiting for cluster to start'' w4) (\<lambda>_ w5.
          (Ok \<lparr>cluster_ctx = ctx, cluster_client = api_client d, members = [pg01, pg02, pg03]\<rparr>, w5))))))))"

section \<open>The script\<close>

text \<open>A connection of the driver is a number. A row of the answer is an address, empty for NULL, or the error of \<open>Scan\<close>.\<close>

record 'w test_env =
  docker_of :: "'w docker_api"
  cib_parse :: "string \<Rightarrow> goerr + element"
  ParseConnectionString :: "string \<Rightarrow> goerr option"
  pgx_Connect :: "string \<Rightarrow> 'w \<Rightarrow> (goerr + nat) \<times> 'w"
  inet_server_addr :: "nat \<Rightarrow> 'w \<Rightarrow> (goerr + (goerr + string) list) \<times> 'w"
  pgx_Begin :: "nat \<Rightarrow> 'w \<Rightarrow> goerr option \<times> 'w"
  pgx_Rollback :: "nat \<Rightarrow> 'w \<Rightarrow> goerr option \<times> 'w"
  etcd_New :: "string \<Rightarrow> 'w \<Rightarrow> goerr option \<times> 'w"
  etcd_Get :: "string \<Rightarrow> string \<Rightarrow> 'w \<Rightarrow> (goerr + KeyValue list) \<times> 'w"   \<comment> \<open>by endpoint and key\<close>
  goroutine_runs :: "'w \<Rightarrow> bool"

text \<open>
  The state of the script: the world, the arguments of the failover that has been started with \<open>go\<close> and is still
  running, and the error with which such a goroutine waits for a receiver on the channel \<open>failoverResults\<close>.
\<close>

record 'w test =
  test_world :: 'w
  failing_over :: "string list option"
  sending :: "goerr option option"

definition in_world :: "('w \<Rightarrow> 'a outcome \<times> 'w) \<Rightarrow> 'w test \<Rightarrow> 'a outcome \<times> 'w test" where
  "in_world a t = (case a (test_world t) of (r, w) \<Rightarrow> (r, t\<lparr>test_world := w\<rparr>))"

text \<open>The goroutine of a failover: the command in the container of the first member, and the attempt to send its error.\<close>

definition goroutine :: "'w test_env \<Rightarrow> 'w Cluster \<Rightarrow> 'w test \<Rightarrow> unit outcome \<times> 'w test" where
  "goroutine env c t =
     (case failing_over t of
        None \<Rightarrow> (Ok (), t)
      | Some args \<Rightarrow>
          (if \<not> goroutine_runs env (test_world t) then (Ok (), t)
           else
             and_then (in_world (docker_CombinedOutput (cluster_client c) (hd (members c)) Background ''pgcm'' (failover_args args)) t)
               (\<lambda>(_, err) t'. (Ok (), t'\<lparr>failing_over := None, sending := Some err\<rparr>))))"

definition go_failover :: "string list \<Rightarrow> 'w test \<Rightarrow> 'w test" where
  "go_failover args t = t\<lparr>failing_over := Some args\<rparr>"

text \<open>\<open>Eventually\<close> in the script: before every poll the goroutine may run.\<close>

definition await :: "'w test_env \<Rightarrow> 'w Cluster \<Rightarrow> ('w test \<Rightarrow> 'a option outcome \<times> 'w test) \<Rightarrow> 'w test \<Rightarrow> 'a outcome \<times> 'w test" where
  "await env c poll t =
     eventually (\<lambda>t. and_then (goroutine env c t) (\<lambda>_ t'. poll t'))
       (\<lambda>t. t\<lparr>test_world := interval (docker_of env) (test_world t)\<rparr>) (polls (docker_of env) (test_world t)) t"

text \<open>\<open>Receive(matcher)\<close>, which takes what it receives off the channel also when the matcher refuses it.\<close>

definition receive_poll :: "(goerr option \<Rightarrow> bool) \<Rightarrow> 'w test \<Rightarrow> goerr option option outcome \<times> 'w test" where
  "receive_poll P t =
     (case sending t of
        None \<Rightarrow> (Ok None, t)
      | Some err \<Rightarrow> (Ok (if P err then Some err else None), t\<lparr>sending := None\<rparr>))"

definition pgTryConnect :: "'w test_env \<Rightarrow> 'w Cluster \<Rightarrow> Container \<Rightarrow> 'w \<Rightarrow> nat option outcome \<times> 'w" where
  "pgTryConnect env c container w =
     and_then (pg_connection_string c container, w) (\<lambda>dsn w1.
       (case ParseConnectionString env dsn of
          Some err \<Rightarrow> (Panic (expect_failed (err_string err)), w1)
        | None \<Rightarrow>
            (case pgx_Connect env dsn w1 of
               (Inl err, w2) \<Rightarrow> (Ok None, w2)
             | (Inr conn, w2) \<Rightarrow> (Ok (Some conn), w2))))"

definition pgConnect :: "'w test_env \<Rightarrow> 'w Cluster \<Rightarrow> Container \<Rightarrow> 'w test \<Rightarrow> nat outcome \<times> 'w test" where
  "pgConnect env c container t = await env c (in_world (pgTryConnect env c container)) t"

definition inetServerAddr :: "'w test_env \<Rightarrow> nat \<Rightarrow> 'w \<Rightarrow> string outcome \<times> 'w" where
  "inetServerAddr env conn w =
     (case inet_server_addr env conn w of
        (Inl err, w') \<Rightarrow> (Panic (expect_failed (err_string err)), w')
      | (Inr [], w') \<Rightarrow> (Panic (expect_failed ''rows.Next''), w')
      | (Inr (Inl err # _), w') \<Rightarrow> (Panic (expect_failed (err_string err)), w')
      | (Inr (Inr addr # _), w') \<Rightarrow> (Ok (before_slash addr), w'))"

definition etcd_value :: "'w test_env \<Rightarrow> 'w Cluster \<Rightarrow> string \<Rightarrow> 'w \<Rightarrow> string outcome \<times> 'w" where
  "etcd_value env c key w =
     and_then (etcd_endpoint c, w) (\<lambda>endpoint w1.
       (case etcd_New env endpoint w1 of
          (Some err, w2) \<Rightarrow> (Panic (expect_failed (err_string err)), w2)
        | (None, w2) \<Rightarrow> etcdGetValue (etcd_Get env endpoint) key w2))"

text \<open>\<open>Eventually(f).Should(Equal(x))\<close>.\<close>

definition equal_poll :: "('w \<Rightarrow> 'a outcome \<times> 'w) \<Rightarrow> 'a \<Rightarrow> 'w test \<Rightarrow> unit option outcome \<times> 'w test" where
  "equal_poll a x t = and_then (in_world a t) (\<lambda>y t'. (Ok (if y = x then Some () else None), t'))"

definition check_err :: "('w \<Rightarrow> goerr option \<times> 'w) \<Rightarrow> 'w \<Rightarrow> unit outcome \<times> 'w" where
  "check_err a w =
     (case a w of
        (None, w') \<Rightarrow> (Ok (), w')
      | (Some err, w') \<Rightarrow> (Panic (expect_failed (err_string err)), w'))"

fun check_members :: "'w test_env \<Rightarrow> 'w Cluster \<Rightarrow> string \<Rightarrow> Container list \<Rightarrow> 'w test \<Rightarrow> unit outcome \<times> 'w test" where
  "check_members env c masterAddr [] t = (Ok (), t)"
| "check_members env c masterAddr (member # ms) t =
     and_then (pgConnect env c member t) (\<lambda>conn t1.
     and_then (in_world (inetServerAddr env conn) t1) (\<lambda>connectedAddr t2.
     and_then (expect (connectedAddr = masterAddr) ''Equal'' t2) (\<lambda>_ t3.
       check_members env c masterAddr ms t3)))"

text \<open>The first half: the roles, the published key, the poolers, and a failover that must fail.\<close>

definition failing_failover :: "'w test_env \<Rightarrow> 'w Cluster \<Rightarrow> nat \<Rightarrow> 'w test \<Rightarrow> unit outcome \<times> 'w test" where
  "failing_failover env c conn t =
     and_then (in_world (check_err (pgx_Begin env conn)) t) (\<lambda>_ t1.
     and_then (await env c (receive_poll (\<lambda>err. err \<noteq> None))
         (go_failover [''--pause-timeout'', ''1s'', ''--pause-expiry'', ''1s''] t1)) (\<lambda>_ t2.
       in_world (check_err (pgx_Rollback env conn)) t2))"

text \<open>
  The second half: a failover that must succeed. The last check is an \<open>Expect\<close>, one receive that does not wait.
\<close>

definition passing_failover :: "'w test_env \<Rightarrow> 'w Cluster \<Rightarrow> nat \<Rightarrow> Container \<Rightarrow> 'w test \<Rightarrow> unit outcome \<times> 'w test" where
  "passing_failover env c conn sync t =
     and_then (await env c (equal_poll (Master c (cib_parse env)) (Some sync)) (go_failover [] t)) (\<lambda>_ t1.
     and_then (await env c (equal_poll (inetServerAddr env conn) (addrOf sync)) t1) (\<lambda>_ t2.
     and_then (goroutine env c t2) (\<lambda>_ t3.
     and_then (receive_poll (\<lambda>err. err = None) t3) (\<lambda>received t4.
       expect (received \<noteq> None) ''Receive'' t4))))"

definition acceptance_script :: "'w test_env \<Rightarrow> 'w Cluster \<Rightarrow> 'w test \<Rightarrow> unit outcome \<times> 'w test" where
  "acceptance_script env c t =
     and_then (in_world (Roles c (cib_parse env)) t) (\<lambda>(master, sync, async) t1.
       (case (master, sync, async) of
          (Some master, Some sync, Some async) \<Rightarrow>
            and_then (await env c (equal_poll (etcd_value env c ''/postgres/master'') (addrOf master)) t1) (\<lambda>_ t2.
            and_then (check_members env c (addrOf master) (members c) t2) (\<lambda>_ t3.
            and_then (pgConnect env c async t3) (\<lambda>conn t4.
            and_then (failing_failover env c conn t4) (\<lambda>_ t5.
              passing_failover env c conn sync t5))))
        | _ \<Rightarrow> (Panic NilDereference, t1)))"

text \<open>The deferred \<open>Shutdown\<close> runs in every case.\<close>

definition RunAcceptance :: "'w test_env \<Rightarrow> ClusterOptions \<Rightarrow> 'w \<Rightarrow> unit outcome \<times> 'w" where
  "RunAcceptance env o1 w =
     and_then (StartCluster (docker_of env) Background o1 w) (\<lambda>c w1.
       (case acceptance_script env c \<lparr>test_world = w1, failing_over = None, sending = None\<rparr> of
          (r, t) \<Rightarrow> (r, Shutdown c (test_world t))))"

section \<open>The program of the test\<close>

record 'w acceptance_main_env =
  parse_args :: "string list \<Rightarrow> goerr + string \<times> string"   \<comment> \<open>workspace and image\<close>
  filepath_Abs :: "string \<Rightarrow> goerr + string"
  filepath_Join :: "string \<Rightarrow> string \<Rightarrow> string"
  elf_Open :: "string \<Rightarrow> goerr option"

text \<open>What \<open>kingpin.Fatalf\<close> reports before it exits, or the result of the one spec.\<close>

definition acceptance_main :: "'w acceptance_main_env \<Rightarrow> 'w test_env \<Rightarrow> string list \<Rightarrow> 'w \<Rightarrow> string + unit outcome \<times> 'w" where
  "acceptance_main me env args w =
     (case parse_args me args of
        Inl err \<Rightarrow> Inl (err_string err @ '', try --help'')
      | Inr (workspace, dockerImage) \<Rightarrow>
          (case filepath_Abs me workspace of
             Inl err \<Rightarrow> Inl (err_string err @ '': failed to resolve --workspace, try --help'')
           | Inr absWorkspace \<Rightarrow>
               (let binary = filepath_Join me absWorkspace ''bin/pgcm.linux_amd64'' in
                case elf_Open me binary of
                  Some err \<Rightarrow> Inl (binary @ '' is not a valid linux binary: '' @ err_string err @ '', try --help'')
                | None \<Rightarrow> Inr (RunAcceptance env \<lparr>Workspace = absWorkspace, DockerImage = dockerImage\<rparr> w))))"

section \<open>What a passing test has seen\<close>

text \<open>A failover that was run with these arguments, and the error that the container reported.\<close>

definition failover_reported :: "'w Cluster \<Rightarrow> string list \<Rightarrow> goerr option \<Rightarrow> bool" where
  "failover_reported c args err \<longleftrightarrow> (\<exists>w out w'.
     docker_CombinedOutput (cluster_client c) (hd (members c)) Background ''pgcm'' (failover_args args) w = (Ok (out, err), w'))"

text \<open>At most one goroutine, which runs with the given arguments or has, and then reports its error.\<close>

definition one_failover :: "'w Cluster \<Rightarrow> string list \<Rightarrow> 'w test \<Rightarrow> bool" where
  "one_failover c args t \<longleftrightarrow>
     (failing_over t = None \<or> failing_over t = Some args \<and> sending t = None) \<and>
     (\<forall>err. sending t = Some err \<longrightarrow> failover_reported c args err)"

lemma in_world_Ok: "in_world a t = (Ok x, t') \<Longrightarrow> \<exists>w w'. a w = (Ok x, w')"
  by (auto simp: in_world_def split: prod.splits)

lemma in_world_keeps: "one_failover c args t \<Longrightarrow> in_world a t = (r, t') \<Longrightarrow> one_failover c args t'"
  by (auto simp: in_world_def one_failover_def split: prod.splits)

lemma and_then_keeps:
  assumes "and_then x g = (r, t')" and "I (snd x)" and "\<And>a t. x = (Ok a, t) \<Longrightarrow> I (snd (g a t))"
  shows "I t'"
  using assms by (cases x; cases "fst x") (auto simp: and_then_def)

lemma goroutine_keeps:
  assumes "one_failover c args t" and "goroutine env c t = (r, t')"
  shows "one_failover c args t'"
proof (cases "failing_over t = Some args \<and> goroutine_runs env (test_world t)")
  case True
  obtain q w where q: "docker_CombinedOutput (cluster_client c) (hd (members c)) Background ''pgcm'' (failover_args args) (test_world t) = (q, w)"
    by fastforce
  show ?thesis
  proof (cases q)
    case (Ok x)
    obtain out err where x: "x = (out, err)" by fastforce
    have "t' = t\<lparr>test_world := w, failing_over := None, sending := Some err\<rparr>"
      using assms(2) True q by (simp add: goroutine_def in_world_def and_then_def Ok x)
    moreover have "failover_reported c args err" using q unfolding failover_reported_def Ok x by blast
    ultimately show ?thesis by (simp add: one_failover_def)
  qed (use assms True q in \<open>auto simp: goroutine_def in_world_def and_then_def one_failover_def\<close>)
next
  case False
  with assms have "t' = t" by (auto simp: goroutine_def one_failover_def split: option.splits if_splits)
  with assms(1) show ?thesis by simp
qed

text \<open>An \<open>Eventually\<close> of the script, whose poll changes only the world or receives.\<close>

definition calm_poll :: "'w Cluster \<Rightarrow> string list \<Rightarrow> ('w test \<Rightarrow> 'a option outcome \<times> 'w test) \<Rightarrow> bool" where
  "calm_poll c args poll \<longleftrightarrow> (\<forall>t r t'. one_failover c args t \<longrightarrow> poll t = (r, t') \<longrightarrow> one_failover c args t')"

lemma await_Ok:
  assumes "await env c poll t = (Ok a, t')" and one: "one_failover c args t" and calm: "calm_poll c args poll"
  shows "\<exists>s. one_failover c args s \<and> poll s = (Ok (Some a), t')"
proof -
  let ?poll = "\<lambda>t. and_then (goroutine env c t) (\<lambda>_ t'. poll t')"
  have "\<exists>s. one_failover c args s \<and> ?poll s = (Ok (Some a), t')"
  proof (rule eventually_Ok [where I = "one_failover c args", OF assms(1) [unfolded await_def] one])
    fix s r s' assume s: "one_failover c args s" "?poll s = (r, s')"
    show "one_failover c args s'"
    proof (rule and_then_keeps [OF s(2)])
      show "one_failover c args (snd (goroutine env c s))" using goroutine_keeps [OF s(1)] by (metis prod.collapse)
      then show "one_failover c args (snd (poll u))" if "goroutine env c s = (Ok b, u)" for b u
        using that calm unfolding calm_poll_def by (metis prod.collapse snd_conv)
    qed
  qed (auto simp: one_failover_def)
  then obtain s u where "one_failover c args s" "goroutine env c s = (Ok (), u)" "poll u = (Ok (Some a), t')"
    by (auto simp: and_then_Ok)
  with goroutine_keeps show ?thesis by metis
qed

lemma calm_in_world: "calm_poll c args (in_world a)"
  by (auto simp: calm_poll_def intro: in_world_keeps)

lemma calm_equal: "calm_poll c args (equal_poll a x)"
  unfolding calm_poll_def equal_poll_def
proof (intro allI impI)
  fix t r t'
  assume t: "one_failover c args t" and p: "and_then (in_world a t) (\<lambda>y t'. (Ok (if y = x then Some () else None), t')) = (r, t')"
  have "one_failover c args (snd (in_world a t))" using in_world_keeps [OF t] by (metis prod.collapse)
  then show "one_failover c args t'" by (rule and_then_keeps [OF p]) (simp add: in_world_keeps [OF t])
qed

lemma calm_receive: "calm_poll c args (receive_poll P)"
  by (auto simp: calm_poll_def receive_poll_def one_failover_def split: option.splits if_splits)

text \<open>With no failover running, as at the beginning and between the two.\<close>

definition idle :: "'w test \<Rightarrow> bool" where
  "idle t \<longleftrightarrow> failing_over t = None \<and> sending t = None"

lemma idle_one: "idle t \<Longrightarrow> one_failover c args t"
  by (simp add: idle_def one_failover_def)

lemma idle_go: "idle t \<Longrightarrow> one_failover c args (go_failover args t)"
  by (simp add: idle_def one_failover_def go_failover_def)

lemma idle_in_world: "idle t \<Longrightarrow> in_world a t = (r, t') \<Longrightarrow> idle t'"
  by (auto simp: in_world_def idle_def split: prod.splits)

lemma idle_await:
  assumes "await env c (\<lambda>t. and_then (in_world a t) (\<lambda>y t'. (Ok (g y), t'))) t = (Ok x, t')" and "idle t"
  shows "idle t' \<and> (\<exists>w w' y. a w = (Ok y, w') \<and> g y = Some x)"
proof -
  let ?poll = "\<lambda>t. and_then (in_world a t) (\<lambda>y t'. (Ok (g y), t'))"
  let ?step = "\<lambda>t. and_then (goroutine env c t) (\<lambda>_ t'. ?poll t')"
  have go: "goroutine env c s = (Ok (), s)" if "idle s" for s using that by (simp add: goroutine_def idle_def)
  have "\<exists>s. idle s \<and> ?step s = (Ok (Some x), t')"
  proof (rule eventually_Ok [where I = idle, OF assms(1) [unfolded await_def] assms(2)])
    fix s r s' assume s: "idle s" and p: "?step s = (r, s')"
    then have "?poll s = (r, s')" by (simp add: go and_then_def [of "(Ok (), s)"])
    then show "idle s'"
      by (rule and_then_keeps) (use idle_in_world [OF s] in \<open>auto intro: idle_in_world [OF s] simp: prod_eq_iff\<close>)
  qed (simp add: idle_def)
  then obtain s where s: "idle s" "?poll s = (Ok (Some x), t')" by (auto simp: go and_then_Ok)
  then obtain y where "in_world a s = (Ok y, t')" "g y = Some x" by (auto simp: and_then_Ok)
  with s(1) idle_in_world in_world_Ok show ?thesis by metis
qed

lemma equal_Ok:
  assumes "await env c (equal_poll a x) t = (Ok u, t')" and "idle t"
  shows "idle t'" and "\<exists>w w'. a w = (Ok x, w')"
  using idle_await [where g = "\<lambda>y. if y = x then Some () else None", OF assms(1) [unfolded equal_poll_def [abs_def]] assms(2)]
  by (auto split: if_splits)

lemma pgConnect_Ok:
  assumes "pgConnect env c k t = (Ok conn, t')" and "idle t"
  shows "idle t'" and "\<exists>w w'. pgTryConnect env c k w = (Ok (Some conn), w')"
proof -
  have "await env c (\<lambda>t. and_then (in_world (pgTryConnect env c k) t) (\<lambda>y t'. (Ok y, t'))) t = (Ok conn, t')"
    using assms(1) by (simp add: pgConnect_def and_then_same)
  from idle_await [where g = "\<lambda>y. y", OF this assms(2)]
  show "idle t'" and "\<exists>w w'. pgTryConnect env c k w = (Ok (Some conn), w')" by auto
qed

text \<open>The pooler of a member has connected to the server with this address.\<close>

definition proxied :: "'w test_env \<Rightarrow> 'w Cluster \<Rightarrow> string \<Rightarrow> Container \<Rightarrow> bool" where
  "proxied env c addr k \<longleftrightarrow> (\<exists>conn w w' v v'.
     pgTryConnect env c k w = (Ok (Some conn), w') \<and> inetServerAddr env conn v = (Ok addr, v'))"

lemma check_members_Ok:
  "check_members env c addr ms t = (Ok u, t') \<Longrightarrow> idle t \<Longrightarrow> idle t' \<and> (\<forall>k \<in> set ms. proxied env c addr k)"
proof (induction ms arbitrary: t)
  case (Cons k ms)
  then obtain conn t1 t2 where c: "pgConnect env c k t = (Ok conn, t1)" "in_world (inetServerAddr env conn) t1 = (Ok addr, t2)"
    and rest: "check_members env c addr ms t2 = (Ok u, t')" by (auto simp: and_then_Ok)
  note conn = pgConnect_Ok [OF c(1) Cons.prems(2)]
  have "proxied env c addr k" using conn(2) in_world_Ok [OF c(2)] unfolding proxied_def by blast
  with Cons.IH [OF rest idle_in_world [OF conn(1) c(2)]] show ?case by simp
qed simp

lemma failing_failover_Ok:
  assumes "failing_failover env c conn t = (Ok u, t')" and "idle t"
  shows "idle t' \<and> (\<exists>err. failover_reported c [''--pause-timeout'', ''1s'', ''--pause-expiry'', ''1s''] (Some err))"
proof -
  let ?args = "[''--pause-timeout'', ''1s'', ''--pause-expiry'', ''1s'']"
  obtain t1 t2 err where r: "in_world (check_err (pgx_Begin env conn)) t = (Ok (), t1)"
    "await env c (receive_poll (\<lambda>err. err \<noteq> None)) (go_failover ?args t1) = (Ok err, t2)"
    "in_world (check_err (pgx_Rollback env conn)) t2 = (Ok u, t')"
    using assms(1) by (auto simp: failing_failover_def and_then_Ok)
  from await_Ok [OF r(2) idle_go [OF idle_in_world [OF assms(2) r(1)]] calm_receive]
  obtain s where s: "one_failover c ?args s" "receive_poll (\<lambda>err. err \<noteq> None) s = (Ok (Some err), t2)" by blast
  then have "sending s = Some err" "err \<noteq> None" "t2 = s\<lparr>sending := None\<rparr>"
    by (auto simp: receive_poll_def split: option.splits if_splits)
  with s(1) have "idle t2" "\<exists>e. failover_reported c ?args (Some e)" by (auto simp: idle_def one_failover_def)
  with idle_in_world [OF _ r(3)] show ?thesis by blast
qed

lemma passing_failover_Ok:
  assumes "passing_failover env c conn sync t = (Ok u, t')" and "idle t"
  shows "(\<exists>w w'. Master c (cib_parse env) w = (Ok (Some sync), w')) \<and>
    (\<exists>w w'. inetServerAddr env conn w = (Ok (addrOf sync), w')) \<and> failover_reported c [] None"
proof -
  obtain t1 t2 t3 t4 err where r: "await env c (equal_poll (Master c (cib_parse env)) (Some sync)) (go_failover [] t) = (Ok (), t1)"
    "await env c (equal_poll (inetServerAddr env conn) (addrOf sync)) t1 = (Ok (), t2)"
    "goroutine env c t2 = (Ok (), t3)" "receive_poll (\<lambda>err. err = None) t3 = (Ok (Some err), t4)"
    using assms(1) by (auto simp: passing_failover_def and_then_Ok)
  have seen: "\<exists>w w'. a w = (Ok x, w')" if "equal_poll a x s = (Ok (Some ()), s')" for a :: "'a \<Rightarrow> 'c outcome \<times> 'a" and x s s'
    using that in_world_Ok by (fastforce simp: equal_poll_def and_then_Ok split: if_splits)
  from await_Ok [OF r(1) idle_go [OF assms(2)] calm_equal] obtain s1
    where s1: "one_failover c [] s1" "equal_poll (Master c (cib_parse env)) (Some sync) s1 = (Ok (Some ()), t1)" by blast
  then have t1: "one_failover c [] t1"
    using calm_equal [of c "[]" "Master c (cib_parse env)" "Some sync"] unfolding calm_poll_def by blast
  from await_Ok [OF r(2) t1 calm_equal] obtain s2
    where s2: "one_failover c [] s2" "equal_poll (inetServerAddr env conn) (addrOf sync) s2 = (Ok (Some ()), t2)" by blast
  then have "one_failover c [] t2"
    using calm_equal [of c "[]" "inetServerAddr env conn" "addrOf sync"] unfolding calm_poll_def by blast
  then have "one_failover c [] t3" by (rule goroutine_keeps [OF _ r(3)])
  moreover have "sending t3 = Some None" using r(4) by (auto simp: receive_poll_def split: option.splits if_splits)
  ultimately have "failover_reported c [] None" by (simp add: one_failover_def)
  with seen [OF s1(2)] seen [OF s2(2)] show ?thesis by blast
qed


section \<open>A test that passes\<close>

text \<open>The state of the world says whether the node \<open>pg02\<close> has become the master.\<close>

definition role_node :: "string \<Rightarrow> string \<Rightarrow> token" where
  "role_node name role =
     TElement (Element '''' ''node'' [\<lparr>attr_space = '''', attr_key = ''uname'', attr_value = name\<rparr>]
       [TElement (Element '''' ''instance_attributes'' []
          [TElement (Element '''' ''nvpair'' [\<lparr>attr_space = '''', attr_key = ''value'', attr_value = role\<rparr>] [])])])"

definition roles_cib :: "string \<Rightarrow> string \<Rightarrow> string \<Rightarrow> element" where
  "roles_cib master sync async =
     Element '''' '''' []
       [TElement (Element '''' ''cib'' [\<lparr>attr_space = '''', attr_key = ''have-quorum'', attr_value = ''1''\<rparr>]
         [role_node master ''LATEST'', role_node sync ''STREAMING|SYNC'', role_node async ''STREAMING|POTENTIAL''])]"

definition test_member :: "string \<Rightarrow> Container" where
  "test_member n = \<lparr>container_ID = n, container_Name = n, container_Hostname = n, IPAddress = n @ ''/16'',
     Ports = [''6432/tcp'' \<mapsto> [''32768''], ''2379/tcp'' \<mapsto> [''32769'']]\<rparr>"

definition test_docker :: "bool docker" where
  "test_docker =
     \<lparr>Endpoint = ''tcp://10.0.0.9:2375'',
      CreateExec = (\<lambda>k cmd w. (Inr (if hd cmd = ''cibadmin'' then ''cib'' else if cmd = ''pgcm'' # failover_args [] then ''failover''
         else if hd cmd = ''pgcm'' then ''fails'' else ''start''), w)),
      StartExec = (\<lambda>ctx e w. ((None, if e = ''cib'' \<and> w then ''after'' else ''before''), e = ''failover'' \<or> w)),
      InspectExec = (\<lambda>e w. ((Some \<lparr>exec_Running = False, exec_ExitCode = (if e = ''fails'' then 1 else 0)\<rparr>, None), w)),
      RemoveContainer = (\<lambda>k w. (None, w)), url_Hostname = (\<lambda>u. Inr ''10.0.0.9'')\<rparr>"

definition test_api :: "bool docker_api" where
  "test_api =
     \<lparr>NewClientFromEnv = None, api_client = test_docker, CreateContainer = (\<lambda>o1 w. (Inr (create_Hostname o1), w)), StartContainer = (\<lambda>i w. (None, w)),
      InspectContainer = (\<lambda>i w. (Inr (test_member i), w)), interval = (\<lambda>w. w), polls = (\<lambda>w. 0),
      start_order = (\<lambda>w ms. ms), started_in_time = (\<lambda>w. True)\<rparr>"

definition test_environment :: "bool test_env" where
  "test_environment =
     \<lparr>docker_of = test_api,
      cib_parse = (\<lambda>out. Inr (if out = ''after'' then roles_cib ''pg02'' ''pg03'' ''pg01'' else roles_cib ''pg01'' ''pg02'' ''pg03'')),
      ParseConnectionString = (\<lambda>dsn. None), pgx_Connect = (\<lambda>dsn w. (Inr 0, w)),
      inet_server_addr = (\<lambda>conn w. (Inr [Inr (if w then ''pg02/32'' else ''pg01/32'')], w)),
      pgx_Begin = (\<lambda>conn w. (None, w)), pgx_Rollback = (\<lambda>conn w. (None, w)),
      etcd_New = (\<lambda>e w. (None, w)), etcd_Get = (\<lambda>e key w. (Inr [makeKv key (if w then ''pg02'' else ''pg01'') 1], w)),
      goroutine_runs = (\<lambda>w. True)\<rparr>"

definition test_cluster :: "bool Cluster" where
  "test_cluster = \<lparr>cluster_ctx = Background, cluster_client = test_docker,
     members = [test_member ''pg01'', test_member ''pg02'', test_member ''pg03'']\<rparr>"

definition test_options :: ClusterOptions where
  "test_options = \<lparr>Workspace = ''/work'', DockerImage = ''postgres-member''\<rparr>"

lemma test_started: "StartCluster test_api Background test_options False = (Ok test_cluster, False)"
  by (simp add: StartCluster_def createMember_def test_api_def inspect_poll_def and_then_def expect_def startMember_def
      docker_CombinedOutput_def test_docker_def create_options_def test_cluster_def Let_def) (simp add: test_member_def)

lemma roles_cib_find:
  "\<exists>e. FindElement (roles_cib m s a) MasterXPath = Ok (Some e) \<and> SelectAttrValue e ''uname'' '''' = m"
  "\<exists>e. FindElement (roles_cib m s a) SyncXPath = Ok (Some e) \<and> SelectAttrValue e ''uname'' '''' = s"
  "\<exists>e. FindElement (roles_cib m s a) AsyncXPath = Ok (Some e) \<and> SelectAttrValue e ''uname'' '''' = a"
  by (simp_all add: path_eval compile_MasterXPath compile_SyncXPath compile_AsyncXPath role_segments_def roles_cib_def
      role_node_def SelectAttrValue_def spaceDecompose_def str_index.simps)

lemma roles_cib_quorum: "has_quorum (roles_cib m s a)"
proof -
  have "FindElement (roles_cib m s a) quorum_path \<noteq> Ok None"
    by (simp add: path_eval compile_quorum_path roles_cib_def)
  then show ?thesis using FindElement_quorum [of "roles_cib m s a"] by auto
qed

lemma roles_cib_get: "\<exists>n0 n1 n2. find_all (roles_cib m s a) [MasterXPath, SyncXPath, AsyncXPath] = Ok [Some n0, Some n1, Some n2] \<and>
    SelectAttrValue n0 ''uname'' '''' = m \<and> SelectAttrValue n1 ''uname'' '''' = s \<and> SelectAttrValue n2 ''uname'' '''' = a"
  using roles_cib_find [of m s a] by auto

lemma test_Roles:
  "Roles test_cluster (cib_parse test_environment) w =
     (Ok (if w then (Some (test_member ''pg02''), Some (test_member ''pg03''), Some (test_member ''pg01''))
          else (Some (test_member ''pg01''), Some (test_member ''pg02''), Some (test_member ''pg03''))), w)"
proof -
  let ?c = test_cluster and ?parse = "cib_parse test_environment"
  have run: "docker_CombinedOutput (cluster_client ?c) (hd (members ?c)) (cluster_ctx ?c) ''cibadmin'' [''--query'', ''--local''] w =
      (Ok (if w then ''after'' else ''before'', None), w)"
    by (simp add: test_cluster_def docker_CombinedOutput_def test_docker_def)
  let ?m = "if w then ''pg02'' else ''pg01''" and ?s = "if w then ''pg03'' else ''pg02''" and ?a = "if w then ''pg01'' else ''pg03''"
  have parse: "?parse (if w then ''after'' else ''before'') = Inr (roles_cib ?m ?s ?a)" by (simp add: test_environment_def)
  obtain n0 n1 n2 where n: "find_all (roles_cib ?m ?s ?a) [MasterXPath, SyncXPath, AsyncXPath] = Ok [Some n0, Some n1, Some n2]"
    "SelectAttrValue n0 ''uname'' '''' = ?m" "SelectAttrValue n1 ''uname'' '''' = ?s" "SelectAttrValue n2 ''uname'' '''' = ?a"
    using roles_cib_get by blast
  have "Get (Executor ?c ?parse) (cluster_ctx ?c) [MasterXPath, SyncXPath, AsyncXPath] w = (Ok [Some n0, Some n1, Some n2], w)"
    using run parse roles_cib_quorum n(1) by (simp add: Get_eq Executor_def)
  moreover have "lookup_member ?c (Some k) = Some (test_member (SelectAttrValue k ''uname'' ''''))"
    if "SelectAttrValue k ''uname'' '''' \<in> {''pg01'', ''pg02'', ''pg03''}" for k
    using that by (auto simp: lookup_member_def Let_def test_cluster_def test_member_def)
  moreover have "members ?c \<noteq> []" by (simp add: test_cluster_def)
  ultimately show ?thesis unfolding Roles_def run using n by simp
qed


lemma test_await:
  "await test_environment test_cluster poll t =
     (case and_then (goroutine test_environment test_cluster t) (\<lambda>_ t'. poll t') of
        (Ok (Some a), t') \<Rightarrow> (Ok a, t')
      | (Panic p, t') \<Rightarrow> (Panic p, t')
      | (_, t') \<Rightarrow> (Panic (expect_failed ''Timed out''), t'))"
  by (simp add: await_def test_environment_def test_api_def)

lemma test_goroutine:
  "goroutine test_environment test_cluster \<lparr>test_world = w, failing_over = fo, sending = s\<rparr> =
     (Ok (),
      (case fo of
         None \<Rightarrow> \<lparr>test_world = w, failing_over = None, sending = s\<rparr>
       | Some args \<Rightarrow> \<lparr>test_world = args = [] \<or> w, failing_over = None,
           sending = Some (if args = [] then None else Some (Plain (''command exited with status '' @ itoa 1)))\<rparr>))"
  by (auto simp: goroutine_def in_world_def and_then_def docker_CombinedOutput_def failover_args_def Let_def
      test_environment_def test_docker_def test_cluster_def split: option.split)

lemma test_values:
  "etcd_value test_environment test_cluster key w = (Ok (if w then ''pg02'' else ''pg01''), w)"
  "inetServerAddr test_environment conn w = (Ok (if w then ''pg02'' else ''pg01''), w)"
  "k \<in> set (members test_cluster) \<Longrightarrow> pgTryConnect test_environment test_cluster k w = (Ok (Some 0), w)"
  "addrOf (test_member ''pg01'') = ''pg01''" "addrOf (test_member ''pg02'') = ''pg02''"
  "check_err (pgx_Begin test_environment conn) w = (Ok (), w)" "check_err (pgx_Rollback test_environment conn) w = (Ok (), w)"
  by (auto simp: etcd_value_def etcdGetValue_def inetServerAddr_def pgTryConnect_def pg_connection_string_def etcd_endpoint_def
      first_port_def Hostname_def and_then_def addrOf_def before_slash_def check_err_def makeKv_def
      test_environment_def test_docker_def test_cluster_def test_member_def)

lemmas test_steps = test_await test_goroutine test_values and_then_def in_world_def equal_poll_def receive_poll_def expect_def

lemma test_script:
  "acceptance_script test_environment test_cluster \<lparr>test_world = False, failing_over = None, sending = None\<rparr> =
     (Ok (), \<lparr>test_world = True, failing_over = None, sending = None\<rparr>)"
proof -
  let ?t = "\<lparr>test_world = False, failing_over = None, sending = None\<rparr>"
  have conn: "pgConnect test_environment test_cluster k ?t = (Ok 0, ?t)" if "k \<in> set (members test_cluster)" for k
    using that by (simp add: pgConnect_def test_steps)
  have "check_members test_environment test_cluster ''pg01'' ms ?t = (Ok (), ?t)" if "set ms \<subseteq> set (members test_cluster)" for ms
    using that by (induction ms) (simp_all add: conn test_steps)
  moreover have "failing_failover test_environment test_cluster 0 ?t = (Ok (), ?t)"
    by (simp add: failing_failover_def go_failover_def test_steps)
  moreover have "passing_failover test_environment test_cluster 0 (test_member ''pg02'') ?t =
      (Ok (), \<lparr>test_world = True, failing_over = None, sending = None\<rparr>)"
    by (simp add: passing_failover_def go_failover_def Master_def test_Roles test_steps)
  moreover have "test_member ''pg03'' \<in> set (members test_cluster)" by (simp add: test_cluster_def)
  ultimately show ?thesis
    by (simp add: acceptance_script_def test_Roles conn test_steps)
qed


end
