(* ===== verification/Integration.thy ===== *)
theory Integration
  imports Bouncer Gomega
begin

text \<open>
  The helpers of the integration tests: an etcd (\<open>pkg/etcd/integration/etcd.go\<close>) and a PgBouncer
  (\<open>pkg/pgbouncer/integration/pgbouncer.go\<close>) of their own for each run. The theorem is on the files that the second one
  writes, which the model of \<open>Bouncer\<close> reads.

  The file system, the starting of processes, the random source and the drivers are parameters. \<open>filepath.Join\<close> is
  written out for the directories of \<open>ioutil.TempDir\<close>, which do not end in a slash.
\<close>

section \<open>The code\<close>

record 'w shell =
  TempDir :: "string \<Rightarrow> 'w \<Rightarrow> (goerr + string) \<times> 'w"
  Listen :: "'w \<Rightarrow> (goerr + string) \<times> 'w"         \<comment> \<open>the address of a free port, which is closed again\<close>
  LookPath :: "string \<Rightarrow> 'w \<Rightarrow> goerr + string"
  StartProc :: "string \<Rightarrow> string list \<Rightarrow> string \<Rightarrow> 'w \<Rightarrow> (goerr + nat) \<times> 'w"  \<comment> \<open>program, arguments, directory\<close>
  Kill :: "nat \<Rightarrow> 'w \<Rightarrow> 'w"
  RemoveAll :: "string \<Rightarrow> 'w \<Rightarrow> 'w"
  clientv3_New :: "string \<Rightarrow> 'w \<Rightarrow> (goerr + nat) \<times> 'w"
  shell_os :: "'w os"
  shell_pgx :: "'w pgx"
  Intn :: "nat \<Rightarrow> 'w \<Rightarrow> nat \<times> 'w"
  shell_interval :: "'w \<Rightarrow> 'w"
  shell_polls :: "'w \<Rightarrow> nat"

definition charset :: string where
  "charset = ''abcdefghijklmnopqrstuvwxyzABCDEFGHIJKLMNOPQRSTUVWXYZ''"

fun random_bytes :: "'w shell \<Rightarrow> nat \<Rightarrow> 'w \<Rightarrow> string \<times> 'w" where
  "random_bytes sh 0 w = ([], w)"
| "random_bytes sh (Suc n) w =
     (case Intn sh (length charset) w of (i, w1) \<Rightarrow>
      case random_bytes sh n w1 of (bs, w2) \<Rightarrow> (charset ! i # bs, w2))"

definition RandomKey :: "'w shell \<Rightarrow> 'w \<Rightarrow> string \<times> 'w" where
  "RandomKey sh w = (case random_bytes sh 20 w of (bs, w') \<Rightarrow> (''/'' @ bs, w'))"

definition nextAvailableAddress :: "'w shell \<Rightarrow> 'w \<Rightarrow> (goerr + string) \<times> 'w" where
  "nextAvailableAddress sh w =
     (case Listen sh w of
        (Inl err, w') \<Rightarrow> (Inl (Wrapped err ''failed to find available port''), w')
      | (Inr addr, w') \<Rightarrow> (Inr (''http://'' @ addr), w'))"

text \<open>
  What \<open>cleanup\<close> has captured: the variables \<open>proc\<close> and \<open>workspace\<close>, with the values they have in the end.
\<close>

definition helper_cleanup :: "'w shell \<Rightarrow> nat option \<times> string \<Rightarrow> 'w \<Rightarrow> 'w" where
  "helper_cleanup sh cl w =
     (case cl of (proc, workspace) \<Rightarrow>
        RemoveAll sh workspace (case proc of None \<Rightarrow> w | Some p \<Rightarrow> Kill sh p w))"

definition must :: "(goerr + 'a) \<times> 'w \<Rightarrow> string \<Rightarrow> 'a outcome \<times> 'w" where
  "must x msg = (case x of (Inl err, w) \<Rightarrow> (Panic (expect_failed msg), w) | (Inr a, w) \<Rightarrow> (Ok a, w))"

definition must_err :: "goerr option \<times> 'w \<Rightarrow> string \<Rightarrow> unit outcome \<times> 'w" where
  "must_err x msg = (case x of (Some err, w) \<Rightarrow> (Panic (expect_failed msg), w) | (None, w) \<Rightarrow> (Ok (), w))"

definition etcd_args :: "string \<Rightarrow> string \<Rightarrow> string \<Rightarrow> string list" where
  "etcd_args workspace endpointAddress peerAddress =
     [''--data-dir'', workspace,
      ''--listen-peer-urls'', peerAddress,
      ''--initial-advertise-peer-urls'', peerAddress,
      ''--initial-cluster'', ''default='' @ peerAddress,
      ''--listen-client-urls'', endpointAddress,
      ''--advertise-client-urls'', endpointAddress]"

text \<open>The process is kept in a variable of its own: \<open>proc\<close> stays \<open>nil\<close>.\<close>

definition StartEtcd :: "'w shell \<Rightarrow> 'w \<Rightarrow> (nat \<times> nat option \<times> string) outcome \<times> 'w" where
  "StartEtcd sh w =
     and_then (must (TempDir sh ''etcd'' w) ''could not create etcd workspace'') (\<lambda>workspace w1.
     and_then (must (nextAvailableAddress sh w1) ''could not get available port'') (\<lambda>endpointAddress w2.
     and_then (must (nextAvailableAddress sh w2) ''could not get available port'') (\<lambda>peerAddress w3.
     and_then (must (StartProc sh ''etcd'' (etcd_args workspace endpointAddress peerAddress) workspace w3) ''could not start etcd'')
       (\<lambda>etcd w4.
     and_then (eventually (\<lambda>w. case clientv3_New sh endpointAddress w of (Inl err, w') \<Rightarrow> (Ok None, w') | (Inr client, w') \<Rightarrow> (Ok (Some client), w'))
         (shell_interval sh) (shell_polls sh w4) w4) (\<lambda>client w5.
       (Ok (client, None, workspace), w5))))))"

definition in_dir :: "string \<Rightarrow> string \<Rightarrow> string" where
  "in_dir dir name = dir @ ''/'' @ name"

definition dquote :: string where
  "dquote = [CHR 0x22]"

definition auth_file :: "string \<Rightarrow> string \<Rightarrow> string" where
  "auth_file user password =
     (let q = (\<lambda>s. dquote @ s @ dquote) in
      q ''postgres'' @ '' '' @ q ''trusted'' @ [CHR 0x0A] @ q ''pgbouncer'' @ '' '' @ q ''trusted'' @ [CHR 0x0A] @
      q user @ '' '' @ q password @ [CHR 0x0A])"

text \<open>The lines of the template; there is no line break behind the last one.\<close>

definition config_template_lines :: "string \<Rightarrow> string \<Rightarrow> string \<Rightarrow> string list" where
  "config_template_lines database port workspace =
     [''[databases]'',
      database @ '' = host={{.Host}} port='' @ port @ '' pool_size=6'',
      '''',
      ''[pgbouncer]'',
      ''logfile = '' @ workspace @ ''/pgbouncer.log'',
      ''listen_port = 6432'',
      ''unix_socket_dir = '' @ workspace,
      ''auth_type = trust'',
      ''auth_file = '' @ workspace @ ''/users.txt'',
      ''admin_users = postgres,pgbouncer'',
      ''pool_mode = session'',
      ''ignore_startup_parameters = extra_float_digits'']"

definition config_template :: "string \<Rightarrow> string \<Rightarrow> string \<Rightarrow> string" where
  "config_template database port workspace = join [CHR 0x0A] (config_template_lines database port workspace)"

fun write_each :: "'w shell \<Rightarrow> string \<Rightarrow> string list \<Rightarrow> 'w \<Rightarrow> unit outcome \<times> 'w" where
  "write_each sh contents [] w = (Ok (), w)"
| "write_each sh contents (name # names) w =
     and_then (must_err (WriteFile (shell_os sh) name contents w) ''failed to write config file'')
       (\<lambda>_ w'. write_each sh contents names w')"

definition helper_executor :: "string \<Rightarrow> AuthorizedExecutor" where
  "helper_executor workspace =
     \<lparr>User = ''pgbouncer'', Password = '''', Database = ''pgbouncer'', SocketDir = workspace, Port = ''6432''\<rparr>"

text \<open>The result has the two file names and the executor of the bouncer.\<close>

definition StartPgBouncer ::
  "'w shell \<Rightarrow> string \<Rightarrow> string \<Rightarrow> string \<Rightarrow> string \<Rightarrow> 'w \<Rightarrow>
     ((string \<times> string \<times> AuthorizedExecutor) \<times> nat option \<times> string) outcome \<times> 'w" where
  "StartPgBouncer sh database user password port w =
     and_then (must (TempDir sh ''pgbouncer'' w) ''could not create PgBouncer workspace'') (\<lambda>workspace w1.
     and_then (must (LookPath sh ''pgbouncer'' w1, w1) ''could not find pgbouncer binary'') (\<lambda>binary w2.
       (let configFile = in_dir workspace ''pgbouncer.ini''; configFileTemplate = in_dir workspace ''pgbouncer.ini.template'' in
        and_then (must_err (WriteFile (shell_os sh) (in_dir workspace ''users.txt'') (auth_file user password) w2)
            ''failed to write PgBouncer auth file'') (\<lambda>_ w3.
        and_then (write_each sh (config_template database port workspace) [configFile, configFileTemplate] w3) (\<lambda>_ w4.
        and_then (must (StartProc sh binary [in_dir workspace ''pgbouncer.ini''] workspace w4) ''failed to start PgBouncer'') (\<lambda>proc w5.
        and_then (eventually (\<lambda>w. case auth_Execute (helper_executor workspace) (shell_pgx sh) Background ''SHOW VERSION;'' w of
              (Some err, w') \<Rightarrow> (Ok None, w') | (None, w') \<Rightarrow> (Ok (Some ()), w'))
            (shell_interval sh) (shell_polls sh w5) w5) (\<lambda>_ w6.
          (Ok ((configFile, configFileTemplate, helper_executor workspace), Some proc, workspace), w6))))))))"

section \<open>Reading back what is written\<close>

lemma config_match_plain:
  assumes k: "k \<noteq> []" "list_all (\<lambda>x. \<not> re_space x) k" and v: "v \<noteq> []" "list_all (\<lambda>x. \<not> re_space x) v"
  shows "config_match (k @ '' = '' @ v) = Some (k, v)"
proof -
  let ?line = "k @ '' = '' @ v"
  have space: "re_space (CHR '' '')" by (simp add: re_space_def)
  have "setting ?line k v"
    using k v unfolding setting_def by (intro conjI exI [of _ "'' ''"]) (simp_all add: space)
  moreover have "length k' \<le> length k" if "setting ?line k' v'" for k' v'
  proof (rule ccontr)
    from that obtain r where r: "?line = k' @ r" "list_all (\<lambda>x. \<not> re_space x) k'" unfolding setting_def by blast
    assume "\<not> length k' \<le> length k"
    then have "length k < length k'" by simp
    then have "k' ! length k = ?line ! length k" unfolding r(1) by (simp add: nth_append)
    also have "\<dots> = CHR '' ''" by simp
    finally have "k' ! length k = CHR '' ''" .
    then show False using r(2) \<open>length k < length k'\<close> space by (auto simp: list_all_length)
  qed
  ultimately show ?thesis using config_match_setting by blast
qed

lemma scan_pieces_plain:
  "ls \<noteq> [] \<Longrightarrow> last ls \<noteq> [] \<Longrightarrow> (\<And>l. l \<in> set ls \<Longrightarrow> length l < 65536 \<and> CHR 0x0D \<notin> set l) \<Longrightarrow> scan_pieces ls = ls"
proof (induction ls rule: scan_pieces.induct)
  case (2 p)
  then show ?case by (auto simp: dropCR_def dest: last_in_set)
next
  case (3 p q ps)
  then have p: "length p < 65536" "CHR 0x0D \<notin> set p" by (meson list.set_intros(1))+
  then have "dropCR p = p" by (auto simp: dropCR_def dest: last_in_set)
  moreover have short: "\<not> 65536 \<le> length p" using p(1) by simp
  moreover have "scan_pieces (q # ps) = q # ps" by (rule "3.IH" [OF short]) (use "3.prems" in auto)
  ultimately show ?case by (simp only: scan_pieces.simps if_False)
qed simp

text \<open>A text for the name of a database, a port or a directory.\<close>

definition plain :: "string \<Rightarrow> bool" where
  "plain s \<longleftrightarrow> s \<noteq> [] \<and> length s < 30000 \<and> list_all (\<lambda>x. \<not> re_space x) s"

lemma plain_breaks: "plain s \<Longrightarrow> CHR 0x0A \<notin> set s \<and> CHR 0x0D \<notin> set s"
  by (auto simp: plain_def list_all_iff re_space_def)

lemma config_template_scanned:
  assumes "plain database" "plain port" "plain workspace"
  shows "scan_lines (config_template database port workspace) = config_template_lines database port workspace"
proof -
  let ?ls = "config_template_lines database port workspace"
  have "split_on (CHR 0x0A) (config_template database port workspace) = ?ls"
    unfolding config_template_def
    by (rule split_on_join) (use assms [THEN plain_breaks] in \<open>auto simp: config_template_lines_def\<close>)
  moreover have "scan_pieces ?ls = ?ls"
  proof (rule scan_pieces_plain)
    fix l assume "l \<in> set ?ls"
    then show "length l < 65536 \<and> CHR 0x0D \<notin> set l"
      using assms assms [THEN plain_breaks] by (auto simp: config_template_lines_def plain_def)
  qed (simp_all add: config_template_lines_def)
  ultimately show ?thesis by (simp add: scan_lines_def)
qed

text \<open>
  The template that \<open>StartPgBouncer\<close> writes is read back by the program as it was meant: the settings that
  \<open>Config\<close> finds name the socket directory and the port to which the executor of this bouncer connects, and the
  file with the users; and the template passes the check for \<open>extra_float_digits\<close>, without which no configuration is
  ever written.
\<close>

theorem helper_config_reads:
  assumes "plain database" "plain port" "plain workspace"
    and "ReadFile os (ConfigTemplateFile b) w = Inr (config_template database port workspace)"
  shows "(\<exists>m. Config b os w = Inr m \<and> m ''unix_socket_dir'' = Some (SocketDir (helper_executor workspace)) \<and>
        m ''listen_port'' = Some (Port (helper_executor workspace)) \<and> m ''auth_file'' = Some (in_dir workspace ''users.txt'')) \<and>
    createTemplate b os tm w =
      (case Parse tm (config_template database port workspace) of Inl err \<Rightarrow> Panic (Explicit (err_string err)) | Inr t \<Rightarrow> Ok t)"
proof -
  have w: "workspace \<noteq> []" "list_all (\<lambda>x. \<not> re_space x) workspace" using assms(3) by (simp_all add: plain_def)
  have match: "config_match (k @ '' = '' @ v) = Some (k, v)"
    if "k \<noteq> []" "v \<noteq> []" "list_all (\<lambda>x. \<not> re_space x) k" "list_all (\<lambda>x. \<not> re_space x) v" for k v
    using config_match_plain that by blast
  have lines: "config_match (''listen_port = 6432'') = Some (''listen_port'', ''6432'')"
    "config_match (''unix_socket_dir = '' @ workspace) = Some (''unix_socket_dir'', workspace)"
    "config_match (''auth_type = trust'') = Some (''auth_type'', ''trust'')"
    "config_match (''auth_file = '' @ workspace @ ''/users.txt'') = Some (''auth_file'', workspace @ ''/users.txt'')"
    "config_match (''admin_users = postgres,pgbouncer'') = Some (''admin_users'', ''postgres,pgbouncer'')"
    "config_match (''pool_mode = session'') = Some (''pool_mode'', ''session'')"
    "config_match (''ignore_startup_parameters = extra_float_digits'') = Some (''ignore_startup_parameters'', ''extra_float_digits'')"
    using match [of "''listen_port''" "''6432''"] match [of "''unix_socket_dir''" workspace] match [of "''auth_type''" "''trust''"]
      match [of "''auth_file''" "workspace @ ''/users.txt''"] match [of "''admin_users''" "''postgres,pgbouncer''"]
      match [of "''pool_mode''" "''session''"] match [of "''ignore_startup_parameters''" "''extra_float_digits''"] w
    by (simp_all add: re_space_def)
  have "\<exists>m. Config b os w = Inr m \<and> m ''unix_socket_dir'' = Some workspace \<and> m ''listen_port'' = Some ''6432'' \<and>
      m ''auth_file'' = Some (workspace @ ''/users.txt'')"
    unfolding Config_def assms(4) sum.case config_template_scanned [OF assms(1-3)]
    by (simp add: config_template_lines_def lines [unfolded append_Cons append_Nil])
  moreover have "match_float_digits (config_template database port workspace)"
  proof -
    have "config_template database port workspace =
        join [CHR 0x0A] (butlast (config_template_lines database port workspace)) @ [CHR 0x0A] @
        ''ignore_startup_parameters'' @ '' '' @ CHR ''='' # '' '' @ ''extra_float_digits'' @ []"
      by (simp add: config_template_def config_template_lines_def)
    moreover have "list_all re_space '' ''" by (simp add: re_space_def)
    ultimately show ?thesis
      unfolding match_float_digits_iff names_float_digits_def
      by (intro exI [of _ "join [CHR 0x0A] (butlast (config_template_lines database port workspace)) @ [CHR 0x0A]"] exI [of _ "'' ''"] exI [of _ "[]"]) simp
  qed
  ultimately show ?thesis
    using assms(4) by (simp add: createTemplate_def helper_executor_def in_dir_def)
qed

text \<open>A file system with the template in place.\<close>

theorem helper_config_reads_witness:
  "\<exists>m. Config example_bouncer \<lparr>ReadFile = (\<lambda>name w. Inr (config_template ''postgres'' ''5432'' ''/tmp/pgbouncer1'')), WriteFile = (\<lambda>name s w. (None, w))\<rparr>
      False = Inr m \<and> m ''unix_socket_dir'' = Some ''/tmp/pgbouncer1'' \<and> m ''listen_port'' = Some ''6432''"
  using helper_config_reads [of "''postgres''" "''5432''" "''/tmp/pgbouncer1''"
      "\<lparr>ReadFile = (\<lambda>name w. Inr (config_template ''postgres'' ''5432'' ''/tmp/pgbouncer1'')), WriteFile = (\<lambda>name s w. (None, w))\<rparr>" example_bouncer False]
  by (auto simp: plain_def re_space_def helper_executor_def)

section \<open>What the helpers leave behind\<close>

lemma must_Ok [simp]: "must x msg = (Ok a, w) \<longleftrightarrow> x = (Inr a, w)"
  by (cases x; cases "fst x") (auto simp: must_def)

lemma must_err_Ok [simp]: "must_err x msg = (Ok a, w) \<longleftrightarrow> x = (None, w)"
  by (cases x; cases "fst x") (auto simp: must_err_def)

text \<open>
  The clean-up of \<open>StartEtcd\<close> removes a directory and kills nothing, so that the etcd it has started goes on running,
  while the one of \<open>StartPgBouncer\<close> first kills the process that it has started.
\<close>

lemma etcd_outlives_cleanup: "StartEtcd sh w = (Ok (client, cl), w') \<Longrightarrow> \<exists>dir. \<forall>v. helper_cleanup sh cl v = RemoveAll sh dir v"
  by (auto simp: StartEtcd_def and_then_Ok helper_cleanup_def)

lemma bouncer_is_cleaned:
  assumes "StartPgBouncer sh database user password port w = (Ok ((c, t, e), cl), w')"
  shows "\<exists>dir binary p v v'. StartProc sh binary [in_dir dir ''pgbouncer.ini''] dir v = (Inr p, v') \<and>
    (\<forall>w. helper_cleanup sh cl w = RemoveAll sh dir (Kill sh p w)) \<and> e = helper_executor dir \<and> t = in_dir dir ''pgbouncer.ini.template''"
  using assms
  by (auto simp: StartPgBouncer_def and_then_Ok helper_cleanup_def Let_def) blast

text \<open>A random key is a slash and twenty letters, if the random numbers are in range, as \<open>rand.Intn\<close> promises.\<close>

lemma random_bytes_letters:
  assumes "\<And>n w. 0 < n \<Longrightarrow> fst (Intn sh n w) < n"
  shows "length (fst (random_bytes sh n w)) = n \<and> set (fst (random_bytes sh n w)) \<subseteq> set charset"
proof (induction n arbitrary: w)
  case (Suc n)
  obtain i w1 where i: "Intn sh (length charset) w = (i, w1)" by fastforce
  obtain bs w2 where b: "random_bytes sh n w1 = (bs, w2)" by fastforce
  have "i < length charset" using assms [of "length charset" w] i by (simp add: charset_def)
  then have "charset ! i \<in> set charset" by simp
  with Suc [of w1] show ?case by (simp add: i b)
qed simp

lemma RandomKey_letters:
  assumes "\<And>n w. 0 < n \<Longrightarrow> fst (Intn sh n w) < n"
  shows "\<exists>bs. fst (RandomKey sh w) = ''/'' @ bs \<and> length bs = 20 \<and> set bs \<subseteq> set charset"
  using random_bytes_letters [OF assms, of 20 w] by (auto simp: RandomKey_def split: prod.split)

end

