(* ===== verification/Fakes.thy ===== *)
theory Fakes
  imports Interfaces
begin

text \<open>
  The test doubles of the server (\<open>pkg/failover/fakes.go\<close>), over the mocks of
  \<open>vendor/github.com/stretchr/testify/mock\<close>: the expected calls of a mock with their answers, how a call
  finds the first one that fits, and how its answer is read back. The lemmas say when a double answers, how often, and
  that any other call panics.

  The expected calls are shared by all copies of a mock, which is why the doubles may have value receivers; the
  record of past calls, which is not shared, is left out. So are delays, \<open>Run\<close> and \<open>MatchedBy\<close>.
\<close>

section \<open>Mocks\<close>

datatype mock_value =
    MNil
  | MString string
  | MStrings "string list"
  | MContext ctx
  | MTime time
  | MDuration duration
  | MError goerr
  | MElements "element option list"

text \<open>\<open>mock.Anything\<close> is a string. A context with a moment at which it is done has a timer.\<close>

datatype mock_arg = MArg mock_value | AnythingOfType string

definition Anything :: mock_value where
  "Anything = MString ''mock.Anything''"

definition Missing :: mock_value where
  "Missing = MString ''(Missing)''"

fun type_name :: "mock_value \<Rightarrow> string" where
  "type_name MNil = ''''"
| "type_name (MString s) = ''string''"
| "type_name (MStrings ss) = ''[]string''"
| "type_name (MContext c) = (if done_at c = None then ''*context.emptyCtx'' else ''*context.timerCtx'')"
| "type_name (MTime t) = ''time.Time''"
| "type_name (MDuration d) = ''time.Duration''"
| "type_name (MError e) = ''error''"
| "type_name (MElements es) = ''[]*etree.Element''"

record mock_call =
  Method :: string
  Arguments :: "mock_arg list"
  ReturnArguments :: "mock_value list"
  Repeatability :: int

type_synonym mock = "mock_call list"   \<comment> \<open>\<open>ExpectedCalls\<close>\<close>

definition On :: "string \<Rightarrow> mock_arg list \<Rightarrow> mock_value list \<Rightarrow> int \<Rightarrow> mock \<Rightarrow> mock" where
  "On method args rets n m =
     m @ [\<lparr>Method = method, Arguments = args, ReturnArguments = rets, Repeatability = n\<rparr>]"

fun arg_fits :: "mock_arg \<Rightarrow> mock_value \<Rightarrow> bool" where
  "arg_fits (AnythingOfType t) actual \<longleftrightarrow> type_name actual = t"
| "arg_fits (MArg expected) actual \<longleftrightarrow> expected = Anything \<or> actual = Anything \<or> actual = expected"

text \<open>The number of differences; a missing argument counts as a text of its own.\<close>

fun Diff :: "mock_arg list \<Rightarrow> mock_value list \<Rightarrow> nat" where
  "Diff [] [] = 0"
| "Diff (e # es) [] = (if arg_fits e Missing then 0 else 1) + Diff es []"
| "Diff [] (a # args) = (if arg_fits (MArg Missing) a then 0 else 1) + Diff [] args"
| "Diff (e # es) (a # args) = (if arg_fits e a then 0 else 1) + Diff es args"

definition fits :: "string \<Rightarrow> mock_value list \<Rightarrow> mock_call \<Rightarrow> bool" where
  "fits method args c \<longleftrightarrow> Method c = method \<and> - 1 < Repeatability c \<and> Diff (Arguments c) args = 0"

fun findExpectedCall :: "string \<Rightarrow> mock_value list \<Rightarrow> mock \<Rightarrow> nat option" where
  "findExpectedCall method args [] = None"
| "findExpectedCall method args (c # m) =
     (if fits method args c then Some 0 else map_option Suc (findExpectedCall method args m))"

definition used :: "mock_call \<Rightarrow> mock_call" where
  "used c = c\<lparr>Repeatability := (if Repeatability c = 1 then - 1 else if 1 < Repeatability c then Repeatability c - 1 else Repeatability c)\<rparr>"

definition MethodCalled :: "string \<Rightarrow> mock_value list \<Rightarrow> mock \<Rightarrow> mock_value list outcome \<times> mock" where
  "MethodCalled method args m =
     (case findExpectedCall method args m of
        None \<Rightarrow> (Panic (Explicit (''mock: I do not know what to return because the method call was unexpected: '' @ method)), m)
      | Some i \<Rightarrow> (Ok (ReturnArguments (m ! i)), m[i := used (m ! i)]))"

text \<open>The readers of the returned values, which panic on a missing value and on one of another type.\<close>

definition args_Get :: "mock_value list \<Rightarrow> nat \<Rightarrow> mock_value outcome" where
  "args_Get args i = (if length args < i + 1 then Panic (Explicit ''assert: arguments: Cannot call Get'') else Ok (args ! i))"

definition args_read :: "(mock_value \<Rightarrow> 'a option) \<Rightarrow> mock_value list \<Rightarrow> nat \<Rightarrow> 'a outcome" where
  "args_read f args i =
     (case args_Get args i of
        Ok v \<Rightarrow> (case f v of Some a \<Rightarrow> Ok a | None \<Rightarrow> Panic (Explicit ''object was not of the correct type''))
      | Err e \<Rightarrow> Err e
      | Panic p \<Rightarrow> Panic p)"

definition args_Error :: "mock_value list \<Rightarrow> nat \<Rightarrow> goerr option outcome" where
  "args_Error = args_read (\<lambda>v. case v of MNil \<Rightarrow> Some None | MError e \<Rightarrow> Some (Some e) | _ \<Rightarrow> None)"

definition args_String :: "mock_value list \<Rightarrow> nat \<Rightarrow> string outcome" where
  "args_String = args_read (\<lambda>v. case v of MString s \<Rightarrow> Some s | _ \<Rightarrow> None)"

section \<open>The doubles\<close>

definition returns_error :: "mock_value list outcome \<times> mock \<Rightarrow> goerr option outcome \<times> mock" where
  "returns_error x =
     (case x of
        (Ok rets, m) \<Rightarrow> (args_Error rets 0, m)
      | (Err e, m) \<Rightarrow> (Err e, m)
      | (Panic p, m) \<Rightarrow> (Panic p, m))"

text \<open>A first value and an error, read from left to right.\<close>

definition returns_both :: "(mock_value list \<Rightarrow> nat \<Rightarrow> 'a outcome) \<Rightarrow> mock_value list outcome \<times> mock \<Rightarrow> ('a \<times> goerr option) outcome \<times> mock" where
  "returns_both f x =
     (case x of
        (Ok rets, m) \<Rightarrow>
          ((case f rets 0 of
              Ok a \<Rightarrow> (case args_Error rets 1 of Ok e \<Rightarrow> Ok (a, e) | Err e \<Rightarrow> Err e | Panic p \<Rightarrow> Panic p)
            | Err e \<Rightarrow> Err e
            | Panic p \<Rightarrow> Panic p), m)
      | (Err e, m) \<Rightarrow> (Err e, m)
      | (Panic p, m) \<Rightarrow> (Panic p, m))"

definition fakePauser_Pause :: "ctx \<Rightarrow> mock \<Rightarrow> goerr option outcome \<times> mock" where
  "fakePauser_Pause ctx m = returns_error (MethodCalled ''Pause'' [MContext ctx] m)"

definition fakePauser_Resume :: "ctx \<Rightarrow> mock \<Rightarrow> goerr option outcome \<times> mock" where
  "fakePauser_Resume ctx m = returns_error (MethodCalled ''Resume'' [MContext ctx] m)"

definition fakeClock_Now :: "mock \<Rightarrow> time outcome \<times> mock" where
  "fakeClock_Now m =
     (case MethodCalled ''Now'' [] m of
        (Ok rets, m') \<Rightarrow> (args_read (\<lambda>v. case v of MTime t \<Rightarrow> Some t | _ \<Rightarrow> None) rets 0, m')
      | (Err e, m') \<Rightarrow> (Err e, m')
      | (Panic p, m') \<Rightarrow> (Panic p, m'))"

definition fakeClock_Until :: "time \<Rightarrow> mock \<Rightarrow> duration outcome \<times> mock" where
  "fakeClock_Until t m =
     (case MethodCalled ''Until'' [MTime t] m of
        (Ok rets, m') \<Rightarrow> (args_read (\<lambda>v. case v of MDuration d \<Rightarrow> Some d | _ \<Rightarrow> None) rets 0, m')
      | (Err e, m') \<Rightarrow> (Err e, m')
      | (Panic p, m') \<Rightarrow> (Panic p, m'))"

definition fakeCrm_Get :: "ctx \<Rightarrow> string list \<Rightarrow> mock \<Rightarrow> (element option list \<times> goerr option) outcome \<times> mock" where
  "fakeCrm_Get ctx xpaths m =
     returns_both (args_read (\<lambda>v. case v of MElements es \<Rightarrow> Some es | _ \<Rightarrow> None))
       (MethodCalled ''Get'' [MContext ctx, MStrings xpaths] m)"

definition fakeCrm_ResolveAddress :: "ctx \<Rightarrow> string \<Rightarrow> mock \<Rightarrow> (string \<times> goerr option) outcome \<times> mock" where
  "fakeCrm_ResolveAddress ctx nodeID m =
     returns_both args_String (MethodCalled ''ResolveAddress'' [MContext ctx, MString nodeID] m)"

definition fakeCrm_Migrate :: "ctx \<Rightarrow> string \<Rightarrow> mock \<Rightarrow> goerr option outcome \<times> mock" where
  "fakeCrm_Migrate ctx to m = returns_error (MethodCalled ''Migrate'' [MContext ctx, MString to] m)"

definition fakeCrm_Unmigrate :: "ctx \<Rightarrow> mock \<Rightarrow> goerr option outcome \<times> mock" where
  "fakeCrm_Unmigrate ctx m = returns_error (MethodCalled ''Unmigrate'' [MContext ctx] m)"

section \<open>What a mock answers\<close>

lemma findExpectedCall_Some:
  "findExpectedCall method args m = Some i \<longleftrightarrow>
     i < length m \<and> fits method args (m ! i) \<and> (\<forall>j < i. \<not> fits method args (m ! j))"
proof (induction m arbitrary: i)
  case Nil
  then show ?case by simp
next
  case (Cons c m)
  show ?case by (cases i) (auto simp: Cons.IH less_Suc_eq_0_disj)
qed

lemma findExpectedCall_None: "findExpectedCall method args m = None \<longleftrightarrow> (\<forall>c \<in> set m. \<not> fits method args c)"
  by (induction m) auto

text \<open>The calls that are left to an expected call: any number for zero.\<close>

definition exhausted_after :: "mock_call \<Rightarrow> nat \<Rightarrow> bool" where
  "exhausted_after c n \<longleftrightarrow> 0 < Repeatability c \<and> Repeatability c \<le> int n"

lemma used_fits:
  assumes "fits method args c"
  shows "fits method args (used c) \<longleftrightarrow> Repeatability c \<noteq> 1"
  using assms by (auto simp: fits_def used_def)

text \<open>
  The calls of one method with the same fitting arguments against a mock that expects one such call: they are answered
  alike, as often as \<open>Times\<close> has said, and the next one panics.
\<close>

fun call_times :: "nat \<Rightarrow> string \<Rightarrow> mock_value list \<Rightarrow> mock \<Rightarrow> mock_value list outcome list" where
  "call_times 0 method args m = []"
| "call_times (Suc n) method args m =
     (case MethodCalled method args m of (r, m') \<Rightarrow> r # call_times n method args m')"

lemma unfit_panics:
  assumes "\<forall>c \<in> set m. \<not> fits method args c"
  shows "MethodCalled method args m =
    (Panic (Explicit (''mock: I do not know what to return because the method call was unexpected: '' @ method)), m)"
  using assms by (simp add: MethodCalled_def findExpectedCall_None [symmetric])

lemma mock_answers:
  assumes "fits method args c" and "k < n"
  shows "(call_times n method args [c] ! k = Ok (ReturnArguments c)) \<longleftrightarrow> \<not> exhausted_after c k"
    and "is_panic (call_times n method args [c] ! k) \<longleftrightarrow> exhausted_after c k"
proof -
  have unfit: "is_panic (call_times n method args [c] ! k)" if "\<not> fits method args c" "k < n" for c n k
    using that by (induction n arbitrary: k) (auto simp: unfit_panics nth_Cons split: nat.split)
  have "call_times n method args [c] ! k = Ok (ReturnArguments c) \<and> \<not> exhausted_after c k \<or>
      is_panic (call_times n method args [c] ! k) \<and> exhausted_after c k"
    using assms
  proof (induction n arbitrary: c k)
    case (Suc n)
    have "MethodCalled method args [c] = (Ok (ReturnArguments c), [used c])"
      using Suc.prems(1) by (simp add: MethodCalled_def)
    then have calls: "call_times (Suc n) method args [c] = Ok (ReturnArguments c) # call_times n method args [used c]" by simp
    show ?case
    proof (cases k)
      case 0
      then show ?thesis using calls by (simp add: exhausted_after_def)
    next
      case (Suc j)
      show ?thesis
      proof (cases "fits method args (used c)")
        case True
        have "exhausted_after (used c) j \<longleftrightarrow> exhausted_after c k" "ReturnArguments (used c) = ReturnArguments c"
          using used_fits [OF Suc.prems(1)] True Suc.prems(1) Suc by (auto simp: exhausted_after_def used_def fits_def)
        with Suc.IH [OF True, of j] Suc.prems(2) Suc calls show ?thesis by simp
      next
        case False
        then have "exhausted_after c k" using used_fits [OF Suc.prems(1)] Suc by (simp add: exhausted_after_def)
        with unfit [OF False, of j n] Suc.prems(2) Suc calls show ?thesis by simp
      qed
    qed
  qed simp
  then show "(call_times n method args [c] ! k = Ok (ReturnArguments c)) \<longleftrightarrow> \<not> exhausted_after c k"
    and "is_panic (call_times n method args [c] ! k) \<longleftrightarrow> exhausted_after c k" by auto
qed

end
