(* ===== verification/Wire.thy ===== *)
theory Wire
  imports Messages
begin

text \<open>
  The encoding of the messages: protobuf, as \<open>vendor/github.com/golang/protobuf/proto\<close> writes
  (\<open>table_marshal.go\<close>) and reads (\<open>table_unmarshal.go\<close>) it, for the fields that the messages of the failover
  service declare in their struct tags (\<open>failover.pb.go\<close>). It gives the codec that the parameter \<open>codec\<close> of
  \<open>Messages\<close> stands for: every message reads back, also when a newer version has added fields behind it.

  A \<open>Timestamp\<close> keeps the fields it does not know in \<open>XXX_unrecognized\<close>, which the program never reads: they are
  dropped here, as in the messages of the service.
\<close>

section \<open>Writing\<close>

definition WireVarint :: uint64 where "WireVarint = 0"
definition WireFixed64 :: uint64 where "WireFixed64 = 1"
definition WireBytes :: uint64 where "WireBytes = 2"
definition WireStartGroup :: uint64 where "WireStartGroup = 3"
definition WireEndGroup :: uint64 where "WireEndGroup = 4"
definition WireFixed32 :: uint64 where "WireFixed32 = 5"

lemmas wire_types = WireVarint_def WireFixed64_def WireBytes_def WireStartGroup_def WireEndGroup_def WireFixed32_def

definition wiretag :: "uint64 \<Rightarrow> uint64 \<Rightarrow> uint64" where
  "wiretag tag wt = push_bit 3 tag OR wt"

definition tagsize :: "uint64 \<Rightarrow> nat" where
  "tagsize tag = SizeVarint (push_bit 3 tag)"

definition errInvalidUTF8 :: goerr where
  "errInvalidUTF8 = Plain ''proto: invalid UTF-8 string''"

definition appendVarintS32ValueNoZero :: "string \<Rightarrow> int32 \<Rightarrow> uint64 \<Rightarrow> string" where
  "appendVarintS32ValueNoZero b v wt = (if v = 0 then b else appendVarint (appendVarint b wt) (scast v))"

definition sizeVarintS32ValueNoZero :: "int32 \<Rightarrow> nat \<Rightarrow> nat" where
  "sizeVarintS32ValueNoZero v ts = (if v = 0 then 0 else SizeVarint (scast v) + ts)"

definition appendVarintS64ValueNoZero :: "string \<Rightarrow> int64 \<Rightarrow> uint64 \<Rightarrow> string" where
  "appendVarintS64ValueNoZero b v wt = (if v = 0 then b else appendVarint (appendVarint b wt) v)"

definition sizeVarintS64ValueNoZero :: "int64 \<Rightarrow> nat \<Rightarrow> nat" where
  "sizeVarintS64ValueNoZero v ts = (if v = 0 then 0 else SizeVarint v + ts)"

definition appendStringValueNoZero :: "string \<Rightarrow> string \<Rightarrow> uint64 \<Rightarrow> goerr + string" where
  "appendStringValueNoZero b v wt =
     (if v = '''' then Inr b
      else if \<not> ValidString v then Inl errInvalidUTF8
      else Inr (appendVarint (appendVarint b wt) (of_nat (length v)) @ v))"

definition marshal_Timestamp :: "string \<Rightarrow> Timestamp \<Rightarrow> string" where
  "marshal_Timestamp b ts =
     appendVarintS32ValueNoZero (appendVarintS64ValueNoZero b (Seconds ts) (wiretag 1 WireVarint)) (Nanos ts) (wiretag 2 WireVarint)"

definition size_Timestamp :: "Timestamp \<Rightarrow> nat" where
  "size_Timestamp ts = sizeVarintS64ValueNoZero (Seconds ts) (tagsize 1) + sizeVarintS32ValueNoZero (Nanos ts) (tagsize 2)"

definition append_Timestamp :: "string \<Rightarrow> Timestamp option \<Rightarrow> uint64 \<Rightarrow> string" where
  "append_Timestamp b p wt =
     (case p of
        None \<Rightarrow> b
      | Some ts \<Rightarrow> marshal_Timestamp (appendVarint (appendVarint b wt) (of_nat (size_Timestamp ts))) ts)"

fun wire_marshal :: "message \<Rightarrow> goerr + string" where
  "wire_marshal MEmpty = Inr []"
| "wire_marshal (MHealthCheckResponse r) = Inr (appendVarintS32ValueNoZero [] (status r) (wiretag 1 WireVarint))"
| "wire_marshal (MPauseRequest r) =
     Inr (appendVarintS32ValueNoZero (appendVarintS32ValueNoZero [] (Timeout r) (wiretag 1 WireVarint))
       (Expiry r) (wiretag 2 WireVarint))"
| "wire_marshal (MPauseResponse r) =
     Inr (append_Timestamp (append_Timestamp [] (PauseCreatedAt r) (wiretag 1 WireBytes)) (PauseExpiresAt r) (wiretag 2 WireBytes))"
| "wire_marshal (MResumeResponse r) = Inr (append_Timestamp [] (ResumeCreatedAt r) (wiretag 1 WireBytes))"
| "wire_marshal (MMigrateResponse r) =
     (case appendStringValueNoZero [] (MigratingTo r) (wiretag 1 WireBytes) of
        Inl err \<Rightarrow> Inl err
      | Inr b \<Rightarrow>
          (case appendStringValueNoZero b (Address r) (wiretag 2 WireBytes) of
             Inl err \<Rightarrow> Inl err
           | Inr b' \<Rightarrow> Inr (append_Timestamp b' (MigrateCreatedAt r) (wiretag 3 WireBytes))))"
| "wire_marshal (MUnmigrateResponse r) = Inr (append_Timestamp [] (UnmigrateCreatedAt r) (wiretag 1 WireBytes))"

section \<open>Reading\<close>

definition ErrUnexpectedEOF :: goerr where
  "ErrUnexpectedEOF = Plain ''unexpected EOF''"

text \<open>The reader of a field: its kind, and how the value is stored in the message.\<close>

datatype 'm unmarshaler =
    Int64Value "int64 \<Rightarrow> 'm \<Rightarrow> 'm"
  | Int32Value "int32 \<Rightarrow> 'm \<Rightarrow> 'm"
  | StringValue "string \<Rightarrow> 'm \<Rightarrow> 'm"
  | MessagePtr "string \<Rightarrow> 'm \<Rightarrow> goerr + 'm"

datatype 'm read =
    BadWireType
  | ReadErr goerr
  | Read string 'm   \<comment> \<open>the bytes behind the field, and the message\<close>

fun unmarshal_field :: "'m unmarshaler \<Rightarrow> string \<Rightarrow> 'm \<Rightarrow> uint64 \<Rightarrow> 'm read" where
  "unmarshal_field (Int64Value store) b m wire =
     (if wire \<noteq> WireVarint then BadWireType
      else case decodeVarint b of (x, n) \<Rightarrow>
        if n = 0 then ReadErr ErrUnexpectedEOF else Read (drop n b) (store x m))"
| "unmarshal_field (Int32Value store) b m wire =
     (if wire \<noteq> WireVarint then BadWireType
      else case decodeVarint b of (x, n) \<Rightarrow>
        if n = 0 then ReadErr ErrUnexpectedEOF else Read (drop n b) (store (ucast x) m))"
| "unmarshal_field (StringValue store) b m wire =
     (if wire \<noteq> WireBytes then BadWireType
      else case decodeVarint b of (x, n) \<Rightarrow>
        if n = 0 then ReadErr ErrUnexpectedEOF
        else if length (drop n b) < unat x then ReadErr ErrUnexpectedEOF
        else
          (let v = take (unat x) (drop n b) in
           if \<not> ValidString v then ReadErr errInvalidUTF8 else Read (drop (unat x) (drop n b)) (store v m)))"
| "unmarshal_field (MessagePtr sub) b m wire =
     (if wire \<noteq> WireBytes then BadWireType
      else case decodeVarint b of (x, n) \<Rightarrow>
        if n = 0 then ReadErr ErrUnexpectedEOF
        else if length (drop n b) < unat x then ReadErr ErrUnexpectedEOF
        else
          (case sub (take (unat x) (drop n b)) m of
             Inl err \<Rightarrow> ReadErr err
           | Inr m' \<Rightarrow> Read (drop (unat x) (drop n b)) m'))"

text \<open>The bytes behind the next unpaired end of a group.\<close>

function findEndGroup :: "nat \<Rightarrow> string \<Rightarrow> string option" where
  "findEndGroup depth b =
     (case decodeVarint b of (x, n) \<Rightarrow>
        if n = 0 then None
        else
          (let b1 = drop n b; w = x AND 7 in
           if w = WireVarint then
             (case decodeVarint b1 of (_, k) \<Rightarrow> if k = 0 then None else findEndGroup depth (drop k b1))
           else if w = WireFixed32 then (if length b1 < 4 then None else findEndGroup depth (drop 4 b1))
           else if w = WireFixed64 then (if length b1 < 8 then None else findEndGroup depth (drop 8 b1))
           else if w = WireBytes then
             (case decodeVarint b1 of (m, k) \<Rightarrow>
                if k = 0 then None
                else if length (drop k b1) < unat m then None
                else findEndGroup depth (drop (unat m) (drop k b1)))
           else if w = WireStartGroup then findEndGroup (depth + 1) b1
           else if w = WireEndGroup then (if depth - 1 = 0 then Some b1 else findEndGroup (depth - 1) b1)
           else None))"
  by pat_completeness auto
termination findEndGroup
  by (relation "measure (length \<circ> snd)") (auto dest!: sym [of "(_, _)"] decodeVarint_bound)

declare findEndGroup.simps [simp del]

definition skipField :: "string \<Rightarrow> uint64 \<Rightarrow> goerr + string" where
  "skipField b wire =
     (if wire = WireVarint then
        (case decodeVarint b of (_, k) \<Rightarrow> if k = 0 then Inl ErrUnexpectedEOF else Inr (drop k b))
      else if wire = WireFixed32 then (if length b < 4 then Inl ErrUnexpectedEOF else Inr (drop 4 b))
      else if wire = WireFixed64 then (if length b < 8 then Inl ErrUnexpectedEOF else Inr (drop 8 b))
      else if wire = WireBytes then
        (case decodeVarint b of (m, k) \<Rightarrow>
           if k = 0 \<or> length b - k < unat m then Inl ErrUnexpectedEOF else Inr (drop (k + unat m) b))
      else if wire = WireStartGroup then
        (case findEndGroup 1 b of None \<Rightarrow> Inl ErrUnexpectedEOF | Some b' \<Rightarrow> Inr b')
      else Inl (Plain (''proto: can't skip unknown wire type '' @ itoa (uint wire))))"


text \<open>The tag and the wire type of the next field; varints of one and two bytes are read without a call.\<close>

definition read_tag :: "string \<Rightarrow> uint64 \<times> nat" where
  "read_tag b =
     (if byte_value (b ! 0) < 128 then (byte_value (b ! 0), 1)
      else if 2 \<le> length b \<and> byte_value (b ! 1) < 128
      then ((byte_value (b ! 0) AND 0x7f) + push_bit 7 (byte_value (b ! 1)), 2)
      else decodeVarint b)"

definition unmarshal_step :: "(uint64 \<Rightarrow> 'm unmarshaler option) \<Rightarrow> string \<Rightarrow> 'm \<Rightarrow> goerr + string \<times> 'm" where
  "unmarshal_step fs b m =
     (case read_tag b of (x, n) \<Rightarrow>
        if n = 0 then Inl ErrUnexpectedEOF
        else
          (let b1 = drop n b; tag = drop_bit 3 x; wire = x AND 7;
               skipped = (case skipField b1 wire of Inl err \<Rightarrow> Inl err | Inr b2 \<Rightarrow> Inr (b2, m)) in
           case fs tag of
             Some fn \<Rightarrow>
               (case unmarshal_field fn b1 m wire of
                  Read b2 m' \<Rightarrow> Inr (b2, m')
                | ReadErr err \<Rightarrow> Inl err
                | BadWireType \<Rightarrow> skipped)
           | None \<Rightarrow> skipped))"

lemma findEndGroup_shorter: "findEndGroup depth b = Some b' \<Longrightarrow> length b' < length b"
proof (induction "length b" arbitrary: depth b rule: less_induct)
  case less
  obtain x n where x: "decodeVarint b = (x, n)" by fastforce
  from less.prems x have n: "n \<noteq> 0" by (subst (asm) findEndGroup.simps) (simp split: if_splits)
  with decodeVarint_bound [OF x] have shorter: "length (drop n b) < length b" by simp
  have IH: "length b' < length b" if "findEndGroup d (drop (j + n) b) = Some b'" for d j
    using less.hyps [OF _ that] shorter by simp linarith
  obtain m k where m: "decodeVarint (drop n b) = (m, k)" by fastforce
  from less.prems n have "
      (if x AND 7 = WireVarint then (if k = 0 then None else findEndGroup depth (drop k (drop n b)))
       else if x AND 7 = WireFixed32 then (if length (drop n b) < 4 then None else findEndGroup depth (drop 4 (drop n b)))
       else if x AND 7 = WireFixed64 then (if length (drop n b) < 8 then None else findEndGroup depth (drop 8 (drop n b)))
       else if x AND 7 = WireBytes then
         (if k = 0 then None
          else if length (drop k (drop n b)) < unat m then None
          else findEndGroup depth (drop (unat m) (drop k (drop n b))))
       else if x AND 7 = WireStartGroup then findEndGroup (depth + 1) (drop n b)
       else if x AND 7 = WireEndGroup then (if depth - 1 = 0 then Some (drop n b) else findEndGroup (depth - 1) (drop n b))
       else None) = Some b'"
    by (subst (asm) findEndGroup.simps) (simp only: x m Let_def prod.case if_False)
  then show ?case
    using shorter IH [of _ 0] by (simp only: split: if_splits) (auto intro: IH IH [of _ "unat m + k", unfolded add.assoc])
qed

lemma skipField_le: "skipField b wire = Inr b' \<Longrightarrow> length b' \<le> length b"
  using findEndGroup_shorter [of 1 b b']
  by (auto simp: skipField_def split: if_splits prod.splits option.splits)

lemma unmarshal_field_le: "unmarshal_field fn b m wire = Read b' m' \<Longrightarrow> length b' \<le> length b"
  by (cases fn) (auto simp: Let_def split: if_splits prod.splits sum.splits)

lemma read_tag_bound:
  assumes "b \<noteq> []" and "read_tag b = (x, n)" and "n \<noteq> 0"
  shows "n \<le> length b"
  using assms decodeVarint_bound [of b x n] by (auto simp: read_tag_def Suc_le_eq split: if_splits)

lemma unmarshal_step_shorter:
  assumes "b \<noteq> []" and "unmarshal_step fs b m = Inr (b', m')"
  shows "length b' < length b"
proof -
  obtain x n where x: "read_tag b = (x, n)" by fastforce
  have n: "n \<noteq> 0" using assms(2) by (intro notI) (simp add: unmarshal_step_def x)
  with read_tag_bound [OF assms(1) x] assms(1) have "length (drop n b) < length b" by simp
  moreover have "length b' \<le> length (drop n b)"
    using assms(2) x n skipField_le [of "drop n b" "x AND 7"] unmarshal_field_le
    by (auto simp: unmarshal_step_def Let_def split: option.splits read.splits sum.splits dest!: unmarshal_field_le skipField_le)
  ultimately show ?thesis by simp
qed

function unmarshal :: "(uint64 \<Rightarrow> 'm unmarshaler option) \<Rightarrow> string \<Rightarrow> 'm \<Rightarrow> goerr + 'm" where
  "unmarshal fs b m =
     (if b = [] then Inr m
      else
        (case unmarshal_step fs b m of
           Inl err \<Rightarrow> Inl err
         | Inr (b', m') \<Rightarrow> unmarshal fs b' m'))"
  by pat_completeness auto
termination unmarshal
  by (relation "measure (length \<circ> fst \<circ> snd)") (auto dest!: sym [of "Inr _"] unmarshal_step_shorter)

declare unmarshal.simps [simp del]

section \<open>The fields of the messages\<close>

definition Timestamp_fields :: "uint64 \<Rightarrow> Timestamp unmarshaler option" where
  "Timestamp_fields tag =
     (if tag = 1 then Some (Int64Value (\<lambda>v m. m\<lparr>Seconds := v\<rparr>))
      else if tag = 2 then Some (Int32Value (\<lambda>v m. m\<lparr>Nanos := v\<rparr>))
      else None)"

text \<open>A message that is there already is merged with what is read.\<close>

definition timestamp_ptr :: "('m \<Rightarrow> Timestamp option) \<Rightarrow> (Timestamp option \<Rightarrow> 'm \<Rightarrow> 'm) \<Rightarrow> 'm unmarshaler" where
  "timestamp_ptr getp storep = MessagePtr (\<lambda>b m.
     (case unmarshal Timestamp_fields b (case getp m of Some ts \<Rightarrow> ts | None \<Rightarrow> \<lparr>Seconds = 0, Nanos = 0\<rparr>) of
        Inl err \<Rightarrow> Inl err
      | Inr ts \<Rightarrow> Inr (storep (Some ts) m)))"

definition Empty_fields :: "uint64 \<Rightarrow> unit unmarshaler option" where
  "Empty_fields tag = None"

definition HealthCheckResponse_fields :: "uint64 \<Rightarrow> HealthCheckResponse unmarshaler option" where
  "HealthCheckResponse_fields tag = (if tag = 1 then Some (Int32Value (\<lambda>v m. m\<lparr>status := v\<rparr>)) else None)"

definition PauseRequest_fields :: "uint64 \<Rightarrow> PauseRequest unmarshaler option" where
  "PauseRequest_fields tag =
     (if tag = 1 then Some (Int32Value (\<lambda>v m. m\<lparr>Timeout := v\<rparr>))
      else if tag = 2 then Some (Int32Value (\<lambda>v m. m\<lparr>Expiry := v\<rparr>))
      else None)"

definition PauseResponse_fields :: "uint64 \<Rightarrow> PauseResponse unmarshaler option" where
  "PauseResponse_fields tag =
     (if tag = 1 then Some (timestamp_ptr PauseCreatedAt (\<lambda>p m. m\<lparr>PauseCreatedAt := p\<rparr>))
      else if tag = 2 then Some (timestamp_ptr PauseExpiresAt (\<lambda>p m. m\<lparr>PauseExpiresAt := p\<rparr>))
      else None)"

definition ResumeResponse_fields :: "uint64 \<Rightarrow> ResumeResponse unmarshaler option" where
  "ResumeResponse_fields tag =
     (if tag = 1 then Some (timestamp_ptr ResumeCreatedAt (\<lambda>p m. m\<lparr>ResumeCreatedAt := p\<rparr>)) else None)"

definition MigrateResponse_fields :: "uint64 \<Rightarrow> MigrateResponse unmarshaler option" where
  "MigrateResponse_fields tag =
     (if tag = 1 then Some (StringValue (\<lambda>v m. m\<lparr>MigratingTo := v\<rparr>))
      else if tag = 2 then Some (StringValue (\<lambda>v m. m\<lparr>Address := v\<rparr>))
      else if tag = 3 then Some (timestamp_ptr MigrateCreatedAt (\<lambda>p m. m\<lparr>MigrateCreatedAt := p\<rparr>))
      else None)"

definition UnmigrateResponse_fields :: "uint64 \<Rightarrow> UnmigrateResponse unmarshaler option" where
  "UnmigrateResponse_fields tag =
     (if tag = 1 then Some (timestamp_ptr UnmigrateCreatedAt (\<lambda>p m. m\<lparr>UnmigrateCreatedAt := p\<rparr>)) else None)"

text \<open>Reading starts from the message that \<open>Reset\<close> leaves.\<close>

definition wire_codec :: "string codec" where
  "wire_codec =
     \<lparr>marshal = wire_marshal, wire_len = length,
      dec_Empty = (\<lambda>b. unmarshal Empty_fields b ()),
      dec_HealthCheckResponse = (\<lambda>b. unmarshal HealthCheckResponse_fields b \<lparr>status = 0\<rparr>),
      dec_PauseRequest = (\<lambda>b. unmarshal PauseRequest_fields b \<lparr>Timeout = 0, Expiry = 0\<rparr>),
      dec_PauseResponse = (\<lambda>b. unmarshal PauseResponse_fields b \<lparr>PauseCreatedAt = None, PauseExpiresAt = None\<rparr>),
      dec_ResumeResponse = (\<lambda>b. unmarshal ResumeResponse_fields b \<lparr>ResumeCreatedAt = None\<rparr>),
      dec_MigrateResponse = (\<lambda>b. unmarshal MigrateResponse_fields b
        \<lparr>MigratingTo = '''', Address = '''', MigrateCreatedAt = None\<rparr>),
      dec_UnmigrateResponse = (\<lambda>b. unmarshal UnmigrateResponse_fields b \<lparr>UnmigrateCreatedAt = None\<rparr>)\<rparr>"


section \<open>One field\<close>

lemma unat_byte_value: "unat (byte_value c) < 256"
  using nat_of_char_less_256 [of c] by (simp add: byte_value_def unat_of_nat del: nat_of_char_less_256)

lemma read_tag_decode: "b \<noteq> [] \<Longrightarrow> read_tag b = decodeVarint b"
proof -
  assume "b \<noteq> []"
  then obtain c cs where b: "b = c # cs" by (cases b) auto
  let ?y = "byte_value c"
  have "(?y AND 0x7f) = ?y - 0x80" if "\<not> ?y < 0x80"
  proof -
    have "128 \<le> unat ?y" using that by (simp add: word_less_nat_alt)
    moreover from this have "unat (?y - 0x80) = unat ?y - 128" by (subst unat_sub) (simp_all add: word_le_nat_alt)
    moreover have "unat ?y mod 128 = unat ?y - 128"
      using calculation(1) unat_byte_value [of c] by (simp add: le_mod_geq)
    ultimately show ?thesis by (intro word_unat_eq_iff [THEN iffD2]) (simp add: unat_mask_7)
  qed
  then show ?thesis by (cases cs) (auto simp: b read_tag_def decodeVarint_def Let_def)
qed

lemma encodeVarint_nonempty [simp]: "encodeVarint x \<noteq> []"
  by (subst encodeVarint.simps) simp

lemma tag_read: "read_tag (encodeVarint x @ rest) = (x, length (encodeVarint x))"
  by (simp add: read_tag_decode decode_encode)

lemma unmarshal_Nil [simp]: "unmarshal fs [] m = Inr m"
  by (simp add: unmarshal.simps)

lemma unmarshal_known:
  assumes "fs (drop_bit 3 wt) = Some fn" and "unmarshal_field fn (p @ rest) m (wt AND 7) = Read rest m'"
  shows "unmarshal fs (encodeVarint wt @ p @ rest) m = unmarshal fs rest m'"
  using assms by (subst unmarshal.simps) (simp add: unmarshal_step_def tag_read Let_def)

lemma unmarshal_unknown:
  assumes "fs (drop_bit 3 wt) = None" and "skipField (p @ rest) (wt AND 7) = Inr rest"
  shows "unmarshal fs (encodeVarint wt @ p @ rest) m = unmarshal fs rest m"
  using assms by (subst unmarshal.simps) (simp add: unmarshal_step_def tag_read Let_def)

lemma append_shift:
  "appendVarintS32ValueNoZero b v wt = b @ appendVarintS32ValueNoZero [] v wt"
  "appendVarintS64ValueNoZero b x wt = b @ appendVarintS64ValueNoZero [] x wt"
  by (simp_all add: appendVarintS32ValueNoZero_def appendVarintS64ValueNoZero_def appendVarint_loop)

lemma Timestamp_shift: "marshal_Timestamp b ts = b @ marshal_Timestamp [] ts"
  unfolding marshal_Timestamp_def by (metis append_shift append.assoc)

lemma append_Timestamp_shift: "append_Timestamp b p wt = b @ append_Timestamp [] p wt"
  by (cases p) (simp_all add: append_Timestamp_def appendVarint_loop Timestamp_shift [of "_ @ _"] Timestamp_shift [of "encodeVarint _"])

lemma ucast_scast_32: "ucast (scast (v :: int32) :: uint64) = v"
  by (rule bit_word_eqI) (simp add: bit_simps)

lemma unmarshal_S32:
  assumes "fs (drop_bit 3 wt) = Some (Int32Value store)" and "wt AND 7 = WireVarint"
  shows "unmarshal fs (appendVarintS32ValueNoZero [] v wt @ rest) m = unmarshal fs rest (if v = 0 then m else store v m)"
  using unmarshal_known [where fs = fs and wt = wt, OF assms(1), of "encodeVarint (scast v)" rest m "store v m"] assms(2)
  by (simp add: appendVarintS32ValueNoZero_def appendVarint_loop decode_encode ucast_scast_32)

lemma unmarshal_S64:
  assumes "fs (drop_bit 3 wt) = Some (Int64Value store)" and "wt AND 7 = WireVarint"
  shows "unmarshal fs (appendVarintS64ValueNoZero [] v wt @ rest) m = unmarshal fs rest (if v = 0 then m else store v m)"
  using unmarshal_known [where fs = fs and wt = wt, OF assms(1), of "encodeVarint v" rest m "store v m"] assms(2)
  by (simp add: appendVarintS64ValueNoZero_def appendVarint_loop decode_encode)

lemma unat_length: "n < 2 ^ 64 \<Longrightarrow> unat (of_nat n :: uint64) = n"
  by (simp add: unat_of_nat)

lemma unmarshal_string:
  assumes "fs (drop_bit 3 wt) = Some (StringValue store)" and "wt AND 7 = WireBytes"
    and "length v < 2 ^ 64" and "appendStringValueNoZero [] v wt = Inr b"
  shows "unmarshal fs (b @ rest) m = unmarshal fs rest (if v = '''' then m else store v m)"
  using unmarshal_known [where fs = fs and wt = wt, OF assms(1), of "encodeVarint (of_nat (length v)) @ v" rest m "store v m"] assms(2-4)
  by (auto simp: appendStringValueNoZero_def appendVarint_loop decode_encode unat_length Let_def split: if_splits)

lemma wiretags [simp]:
  "drop_bit 3 (wiretag 1 WireVarint) = 1" "drop_bit 3 (wiretag 2 WireVarint) = 2"
  "drop_bit 3 (wiretag 1 WireBytes) = 1" "drop_bit 3 (wiretag 2 WireBytes) = 2" "drop_bit 3 (wiretag 3 WireBytes) = 3"
  "wiretag 1 WireVarint AND 7 = WireVarint" "wiretag 2 WireVarint AND 7 = WireVarint"
  "wiretag 1 WireBytes AND 7 = WireBytes" "wiretag 2 WireBytes AND 7 = WireBytes" "wiretag 3 WireBytes AND 7 = WireBytes"
  by (simp_all add: wiretag_def WireVarint_def WireBytes_def)

lemma unmarshal_Timestamp:
  "unmarshal Timestamp_fields (marshal_Timestamp [] ts @ rest) \<lparr>Seconds = 0, Nanos = 0\<rparr> = unmarshal Timestamp_fields rest ts"
proof -
  have b: "marshal_Timestamp [] ts @ rest = appendVarintS64ValueNoZero [] (Seconds ts) (wiretag 1 WireVarint) @
      appendVarintS32ValueNoZero [] (Nanos ts) (wiretag 2 WireVarint) @ rest"
    unfolding marshal_Timestamp_def by (subst append_shift(1)) simp
  have "unmarshal Timestamp_fields (appendVarintS64ValueNoZero [] v (wiretag 1 WireVarint) @ r) m =
      unmarshal Timestamp_fields r (m\<lparr>Seconds := v\<rparr>)" if "Seconds m = 0" for v r m
    using unmarshal_S64 [of Timestamp_fields "wiretag 1 WireVarint" "\<lambda>v m. m\<lparr>Seconds := v\<rparr>" v r m] that
    by (cases m; cases "v = 0") (simp_all add: Timestamp_fields_def)
  moreover have "unmarshal Timestamp_fields (appendVarintS32ValueNoZero [] v (wiretag 2 WireVarint) @ r) m =
      unmarshal Timestamp_fields r (m\<lparr>Nanos := v\<rparr>)" if "Nanos m = 0" for v r m
    using unmarshal_S32 [of Timestamp_fields "wiretag 2 WireVarint" "\<lambda>v m. m\<lparr>Nanos := v\<rparr>" v r m] that
    by (cases m; cases "v = 0") (simp_all add: Timestamp_fields_def)
  ultimately show ?thesis unfolding b by (cases ts) simp
qed


section \<open>Sizes\<close>

lemma SizeVarint_le: "SizeVarint x \<le> 10"
  by (simp add: SizeVarint_def)

lemma length_encodeVarint: "length (encodeVarint x) \<le> 10"
  using SizeVarint_le [of x] by (simp add: SizeVarint_length)

text \<open>The size that is written ahead of a timestamp is the number of its bytes.\<close>

lemma tagsizes: "tagsize 1 = length (encodeVarint (wiretag 1 WireVarint))" "tagsize 2 = length (encodeVarint (wiretag 2 WireVarint))"
  by (simp_all add: tagsize_def SizeVarint_length [symmetric] wiretag_def WireVarint_def)

lemma size_Timestamp: "size_Timestamp ts = length (marshal_Timestamp [] ts)"
  by (simp add: size_Timestamp_def marshal_Timestamp_def append_shift(1) [of "appendVarintS64ValueNoZero _ _ _"]
      sizeVarintS64ValueNoZero_def sizeVarintS32ValueNoZero_def appendVarintS64ValueNoZero_def appendVarintS32ValueNoZero_def
      appendVarint_loop SizeVarint_length tagsizes)

lemma length_S32: "length (appendVarintS32ValueNoZero [] v wt) \<le> 20"
  using length_encodeVarint [of wt] length_encodeVarint [of "scast v"]
  by (simp add: appendVarintS32ValueNoZero_def appendVarint_loop)

lemma length_Timestamp: "size_Timestamp ts \<le> 40"
  using SizeVarint_le [of "Seconds ts"] SizeVarint_le [of "scast (Nanos ts)"] SizeVarint_le [of "push_bit 3 1"]
    SizeVarint_le [of "push_bit 3 2"]
  by (simp add: size_Timestamp_def sizeVarintS64ValueNoZero_def sizeVarintS32ValueNoZero_def tagsize_def)

lemma length_append_Timestamp: "length (append_Timestamp [] p wt) \<le> 60"
proof (cases p)
  case (Some ts)
  then have "append_Timestamp [] p wt = encodeVarint wt @ encodeVarint (of_nat (size_Timestamp ts)) @ marshal_Timestamp [] ts"
    by (simp add: append_Timestamp_def appendVarint_loop Timestamp_shift [of "_ @ _"])
  then show ?thesis
    using length_encodeVarint [of wt] length_encodeVarint [of "of_nat (size_Timestamp ts)"] length_Timestamp [of ts]
    by (simp add: size_Timestamp)
qed (simp add: append_Timestamp_def)

lemma unmarshal_timestamp_ptr:
  assumes "fs (drop_bit 3 wt) = Some (timestamp_ptr getp storep)" and "wt AND 7 = WireBytes" and "getp m = None"
  shows "unmarshal fs (append_Timestamp [] p wt @ rest) m = unmarshal fs rest (case p of None \<Rightarrow> m | Some ts \<Rightarrow> storep (Some ts) m)"
proof (cases p)
  case None
  then show ?thesis by (simp add: append_Timestamp_def)
next
  case (Some ts)
  let ?s = "marshal_Timestamp [] ts"
  have size: "unat (of_nat (size_Timestamp ts) :: uint64) = length ?s"
    using length_Timestamp [of ts] by (subst unat_length) (simp_all add: size_Timestamp)
  have "append_Timestamp [] p wt @ rest = encodeVarint wt @ (encodeVarint (of_nat (size_Timestamp ts)) @ ?s) @ rest"
    using Some by (simp add: append_Timestamp_def appendVarint_loop Timestamp_shift [of "_ @ _"])
  moreover have f: "unmarshal_field (timestamp_ptr getp storep) ((encodeVarint (of_nat (size_Timestamp ts)) @ ?s) @ rest) m (wt AND 7) =
      Read rest (storep (Some ts) m)"
    using assms(2,3) unmarshal_Timestamp [of ts "[]"]
    by (simp add: timestamp_ptr_def decode_encode size)
  ultimately show ?thesis using unmarshal_known [where fs = fs and wt = wt, OF assms(1) f] Some by (simp only: option.case)
qed

section \<open>Fields of a newer version\<close>

text \<open>Any number of well-formed fields with other numbers.\<close>

inductive unknown_fields :: "string \<Rightarrow> bool" where
  none: "unknown_fields []"
| varint: "3 < drop_bit 3 wt \<Longrightarrow> wt AND 7 = WireVarint \<Longrightarrow> unknown_fields u \<Longrightarrow>
     unknown_fields (encodeVarint wt @ encodeVarint x @ u)"
| bytes: "3 < drop_bit 3 wt \<Longrightarrow> wt AND 7 = WireBytes \<Longrightarrow> length v < 2 ^ 64 \<Longrightarrow> unknown_fields u \<Longrightarrow>
     unknown_fields (encodeVarint wt @ (encodeVarint (of_nat (length v)) @ v) @ u)"
| fixed32: "3 < drop_bit 3 wt \<Longrightarrow> wt AND 7 = WireFixed32 \<Longrightarrow> length v = 4 \<Longrightarrow> unknown_fields u \<Longrightarrow>
     unknown_fields (encodeVarint wt @ v @ u)"
| fixed64: "3 < drop_bit 3 wt \<Longrightarrow> wt AND 7 = WireFixed64 \<Longrightarrow> length v = 8 \<Longrightarrow> unknown_fields u \<Longrightarrow>
     unknown_fields (encodeVarint wt @ v @ u)"

lemma unmarshal_unknown_fields:
  assumes "unknown_fields u" and "\<And>tag. 3 < tag \<Longrightarrow> fs tag = None"
  shows "unmarshal fs u m = Inr m"
  using assms(1)
proof induction
  case (varint wt u x)
  with unmarshal_unknown [of fs wt "encodeVarint x" u m] assms(2) show ?case
    by (simp add: skipField_def decode_encode WireVarint_def)
next
  case (bytes wt v u)
  with unmarshal_unknown [of fs wt "encodeVarint (of_nat (length v)) @ v" u m] assms(2) show ?case
    by (simp add: skipField_def decode_encode unat_length wire_types)
next
  case (fixed32 wt v u)
  with unmarshal_unknown [of fs wt v u m] assms(2) show ?case by (simp add: skipField_def wire_types)
next
  case (fixed64 wt v u)
  with unmarshal_unknown [of fs wt v u m] assms(2) show ?case by (simp add: skipField_def wire_types)
qed simp

lemma not_known:
  "3 < tag \<Longrightarrow> Empty_fields tag = None" "3 < tag \<Longrightarrow> HealthCheckResponse_fields tag = None"
  "3 < tag \<Longrightarrow> PauseRequest_fields tag = None" "3 < tag \<Longrightarrow> PauseResponse_fields tag = None"
  "3 < tag \<Longrightarrow> ResumeResponse_fields tag = None" "3 < tag \<Longrightarrow> MigrateResponse_fields tag = None"
  "3 < tag \<Longrightarrow> UnmigrateResponse_fields tag = None"
  by (auto simp: Empty_fields_def HealthCheckResponse_fields_def PauseRequest_fields_def PauseResponse_fields_def
      ResumeResponse_fields_def MigrateResponse_fields_def UnmigrateResponse_fields_def)


section \<open>Messages read back\<close>

lemma string_shift:
  "appendStringValueNoZero b v wt =
     (case appendStringValueNoZero [] v wt of Inl e \<Rightarrow> Inl e | Inr s \<Rightarrow> Inr (b @ s))"
  by (simp add: appendStringValueNoZero_def appendVarint_loop)

lemma appendString_Inr:
  "appendStringValueNoZero [] v wt = Inr s \<Longrightarrow> length v \<le> length s \<and> length s \<le> length v + 20 \<and> ValidString v"
  using length_encodeVarint [of wt] length_encodeVarint [of "of_nat (length v)"]
  by (auto simp: appendStringValueNoZero_def appendVarint_loop split: if_splits)

lemma appendString_Inl: "appendStringValueNoZero [] v wt = Inl e \<Longrightarrow> \<not> ValidString v"
  by (auto simp: appendStringValueNoZero_def split: if_splits)

lemma wire_Migrate:
  assumes "wire_marshal (MMigrateResponse r) = Inr b"
  obtains s1 s2 where "appendStringValueNoZero [] (MigratingTo r) (wiretag 1 WireBytes) = Inr s1"
    "appendStringValueNoZero [] (Address r) (wiretag 2 WireBytes) = Inr s2"
    "b = s1 @ s2 @ append_Timestamp [] (MigrateCreatedAt r) (wiretag 3 WireBytes)"
proof -
  from assms obtain s1 where s1: "appendStringValueNoZero [] (MigratingTo r) (wiretag 1 WireBytes) = Inr s1"
    by (auto split: sum.splits)
  moreover from this assms obtain s2 where "appendStringValueNoZero [] (Address r) (wiretag 2 WireBytes) = Inr s2"
    using string_shift [of s1 "Address r"] by (auto split: sum.splits)
  ultimately show thesis
    using that assms string_shift [of s1 "Address r"] append_Timestamp_shift [of "s1 @ _"] by auto
qed

lemma wire_sendable:
  assumes "sendable m"
  shows "\<exists>b. wire_marshal m = Inr b \<and> length b \<le> 4294967295"
proof -
  note lengths = length_append_Timestamp length_S32
  show ?thesis
  proof (cases m)
    case (MPauseRequest r)
    then show ?thesis
      using lengths(2) [of "Timeout r" "wiretag 1 WireVarint"] lengths(2) [of "Expiry r" "wiretag 2 WireVarint"]
        append_shift(1) [of "appendVarintS32ValueNoZero [] (Timeout r) (wiretag 1 WireVarint)"] by simp
  next
    case (MPauseResponse r)
    then show ?thesis
      using lengths(1) [of "PauseCreatedAt r" "wiretag 1 WireBytes"] lengths(1) [of "PauseExpiresAt r" "wiretag 2 WireBytes"]
        append_Timestamp_shift [of "append_Timestamp [] (PauseCreatedAt r) (wiretag 1 WireBytes)"] by simp
  next
    case (MMigrateResponse r)
    with assms have v: "ValidString (MigratingTo r)" "ValidString (Address r)" "length (MigratingTo r) + length (Address r) < 2 ^ 31"
      by (simp_all add: sendable_def)
    then have "\<exists>b. wire_marshal m = Inr b"
      using MMigrateResponse by (auto simp: appendStringValueNoZero_def)
    then obtain b where b: "wire_marshal (MMigrateResponse r) = Inr b" using MMigrateResponse by blast
    from b obtain s1 s2 where s: "appendStringValueNoZero [] (MigratingTo r) (wiretag 1 WireBytes) = Inr s1"
      "appendStringValueNoZero [] (Address r) (wiretag 2 WireBytes) = Inr s2"
      "b = s1 @ s2 @ append_Timestamp [] (MigrateCreatedAt r) (wiretag 3 WireBytes)"
      by (blast elim: wire_Migrate)
    have "length b \<le> 4294967295"
      using appendString_Inr [OF s(1)] appendString_Inr [OF s(2)] v(3) lengths(1) [of "MigrateCreatedAt r" "wiretag 3 WireBytes"]
      unfolding s(3) by simp
    with b MMigrateResponse show ?thesis by blast
  next
    case (MHealthCheckResponse r)
    then show ?thesis using lengths(2) [of "status r" "wiretag 1 WireVarint"] by simp
  next
    case (MResumeResponse r)
    then show ?thesis using lengths(1) [of "ResumeCreatedAt r" "wiretag 1 WireBytes"] by simp
  next
    case (MUnmigrateResponse r)
    then show ?thesis using lengths(1) [of "UnmigrateCreatedAt r" "wiretag 1 WireBytes"] by simp
  qed simp
qed

lemma wire_reads:
  assumes "wire_marshal m = Inr b" and "length b < 2 ^ 64" and "unknown_fields u"
  shows "decodes wire_codec m (b @ u)"
proof (cases m)
  case MEmpty
  then show ?thesis using assms by (simp add: decodes_def wire_codec_def unmarshal_unknown_fields not_known)
next
  case (MHealthCheckResponse r)
  then show ?thesis
    using assms(1) unmarshal_unknown_fields [OF assms(3), of HealthCheckResponse_fields] not_known(2)
      unmarshal_S32 [of HealthCheckResponse_fields "wiretag 1 WireVarint" "\<lambda>v m. m\<lparr>status := v\<rparr>" "status r" u "\<lparr>status = 0\<rparr>"]
    by (cases r) (auto simp: decodes_def wire_codec_def HealthCheckResponse_fields_def)
next
  case (MPauseRequest r)
  let ?f = "appendVarintS32ValueNoZero [] (Expiry r) (wiretag 2 WireVarint)"
  have "unmarshal PauseRequest_fields (?f @ u) m0 = Inr (if Expiry r = 0 then m0 else m0\<lparr>Expiry := Expiry r\<rparr>)" for m0
    using unmarshal_S32 [of PauseRequest_fields "wiretag 2 WireVarint" "\<lambda>v m. m\<lparr>Expiry := v\<rparr>" "Expiry r" u m0]
      unmarshal_unknown_fields [OF assms(3), of PauseRequest_fields] not_known(3) by (simp add: PauseRequest_fields_def)
  moreover have "b @ u = appendVarintS32ValueNoZero [] (Timeout r) (wiretag 1 WireVarint) @ ?f @ u"
    using assms(1) MPauseRequest append_shift(1) [of "appendVarintS32ValueNoZero [] (Timeout r) (wiretag 1 WireVarint)"] by simp
  ultimately show ?thesis
    using MPauseRequest unmarshal_S32 [of PauseRequest_fields "wiretag 1 WireVarint" "\<lambda>v m. m\<lparr>Timeout := v\<rparr>" "Timeout r" "?f @ u"
        "\<lparr>Timeout = 0, Expiry = 0\<rparr>"]
    by (cases r) (auto simp: decodes_def wire_codec_def PauseRequest_fields_def)
next
  case (MPauseResponse r)
  let ?f = "append_Timestamp [] (PauseExpiresAt r) (wiretag 2 WireBytes)"
  have "unmarshal PauseResponse_fields (?f @ u) m0 =
      Inr (case PauseExpiresAt r of None \<Rightarrow> m0 | Some ts \<Rightarrow> m0\<lparr>PauseExpiresAt := Some ts\<rparr>)" if "PauseExpiresAt m0 = None" for m0
    using unmarshal_timestamp_ptr [of PauseResponse_fields "wiretag 2 WireBytes" PauseExpiresAt "\<lambda>p m. m\<lparr>PauseExpiresAt := p\<rparr>" m0
        "PauseExpiresAt r" u] that
      unmarshal_unknown_fields [OF assms(3), of PauseResponse_fields] not_known(4) by (simp add: PauseResponse_fields_def)
  moreover have "b @ u = append_Timestamp [] (PauseCreatedAt r) (wiretag 1 WireBytes) @ ?f @ u"
    using assms(1) MPauseResponse append_Timestamp_shift [of "append_Timestamp [] (PauseCreatedAt r) (wiretag 1 WireBytes)"] by simp
  ultimately show ?thesis
    using MPauseResponse unmarshal_timestamp_ptr [of PauseResponse_fields "wiretag 1 WireBytes" PauseCreatedAt
        "\<lambda>p m. m\<lparr>PauseCreatedAt := p\<rparr>" "\<lparr>PauseCreatedAt = None, PauseExpiresAt = None\<rparr>" "PauseCreatedAt r" "?f @ u"]
    by (cases r) (auto simp: decodes_def wire_codec_def PauseResponse_fields_def split: option.splits)
next
  case (MResumeResponse r)
  then show ?thesis
    using assms(1) unmarshal_unknown_fields [OF assms(3), of ResumeResponse_fields] not_known(5)
      unmarshal_timestamp_ptr [of ResumeResponse_fields "wiretag 1 WireBytes" ResumeCreatedAt "\<lambda>p m. m\<lparr>ResumeCreatedAt := p\<rparr>"
        "\<lparr>ResumeCreatedAt = None\<rparr>" "ResumeCreatedAt r" u]
    by (cases r) (auto simp: decodes_def wire_codec_def ResumeResponse_fields_def split: option.splits)
next
  case (MMigrateResponse r)
  with assms(1) obtain s1 s2 where s: "appendStringValueNoZero [] (MigratingTo r) (wiretag 1 WireBytes) = Inr s1"
    "appendStringValueNoZero [] (Address r) (wiretag 2 WireBytes) = Inr s2"
    and b: "b = s1 @ s2 @ append_Timestamp [] (MigrateCreatedAt r) (wiretag 3 WireBytes)"
    by (blast elim: wire_Migrate)
  let ?f = "append_Timestamp [] (MigrateCreatedAt r) (wiretag 3 WireBytes)"
  have l: "length (MigratingTo r) < 2 ^ 64" "length (Address r) < 2 ^ 64"
    using appendString_Inr [OF s(1)] appendString_Inr [OF s(2)] assms(2) b by simp_all
  have 3: "unmarshal MigrateResponse_fields (?f @ u) m0 =
      Inr (case MigrateCreatedAt r of None \<Rightarrow> m0 | Some ts \<Rightarrow> m0\<lparr>MigrateCreatedAt := Some ts\<rparr>)" if "MigrateCreatedAt m0 = None" for m0
    using unmarshal_timestamp_ptr [of MigrateResponse_fields "wiretag 3 WireBytes" MigrateCreatedAt "\<lambda>p m. m\<lparr>MigrateCreatedAt := p\<rparr>" m0
        "MigrateCreatedAt r" u] that
      unmarshal_unknown_fields [OF assms(3), of MigrateResponse_fields] not_known(6) by (simp add: MigrateResponse_fields_def)
  have 2: "unmarshal MigrateResponse_fields (s2 @ ?f @ u) m0 =
      unmarshal MigrateResponse_fields (?f @ u) (if Address r = '''' then m0 else m0\<lparr>Address := Address r\<rparr>)" for m0
    using unmarshal_string [of MigrateResponse_fields "wiretag 2 WireBytes" "\<lambda>v m. m\<lparr>Address := v\<rparr>" "Address r" s2 "?f @ u" m0]
      l(2) s(2) by (simp add: MigrateResponse_fields_def)
  show ?thesis
    using MMigrateResponse 2 3 l(1) s(1) b
      unmarshal_string [of MigrateResponse_fields "wiretag 1 WireBytes" "\<lambda>v m. m\<lparr>MigratingTo := v\<rparr>" "MigratingTo r" s1
        "s2 @ ?f @ u" "\<lparr>MigratingTo = '''', Address = '''', MigrateCreatedAt = None\<rparr>"]
    by (cases r) (auto simp: decodes_def wire_codec_def MigrateResponse_fields_def split: option.splits)
next
  case (MUnmigrateResponse r)
  then show ?thesis
    using assms(1) unmarshal_unknown_fields [OF assms(3), of UnmigrateResponse_fields] not_known(7)
      unmarshal_timestamp_ptr [of UnmigrateResponse_fields "wiretag 1 WireBytes" UnmigrateCreatedAt "\<lambda>p m. m\<lparr>UnmigrateCreatedAt := p\<rparr>"
        "\<lparr>UnmigrateCreatedAt = None\<rparr>" "UnmigrateCreatedAt r" u]
    by (cases r) (auto simp: decodes_def wire_codec_def UnmigrateResponse_fields_def split: option.splits)
qed


text \<open>So the codec is one with which the stubs and the handlers of \<open>Messages\<close> work.\<close>

lemma wire_encode: "grpc_encode wire_codec m = Inr b \<longleftrightarrow> wire_marshal m = Inr b \<and> length b \<le> 4294967295"
  by (auto simp: grpc_encode_def wire_codec_def split: sum.splits)

lemma wire_codec_ok: "codec_ok wire_codec"
  using wire_reads [OF _ _ unknown_fields.none] wire_sendable by (fastforce simp: codec_ok_def wire_encode)

text \<open>
  C25. A message goes over the wire unchanged: what the protobuf encoder has written is read back as the same
  message, field by field (the sign of a negative number, the merging of embedded timestamps and the
  zero values that are left out included), also when fields of a newer version follow that the reader
  does not know. Every message is encoded whose strings are UTF-8 and shorter than two gigabytes.
\<close>

theorem wire_roundtrip:
  assumes "unknown_fields u"
  shows "(\<forall>b. grpc_encode wire_codec m = Inr b \<longrightarrow> decodes wire_codec m (b @ u)) \<and>
    (sendable m \<longrightarrow> (\<exists>b. grpc_encode wire_codec m = Inr b))"
  using wire_reads [OF _ _ assms, of m] wire_codec_ok by (auto simp: wire_encode codec_ok_def)

lemma wire_example:
  "wire_marshal (MPauseRequest \<lparr>Timeout = 300, Expiry = -1\<rparr>) =
     Inr [CHR 0x08, CHR 0xAC, CHR 0x02, CHR 0x10, CHR 0xFF, CHR 0xFF, CHR 0xFF, CHR 0xFF, CHR 0xFF, CHR 0xFF, CHR 0xFF, CHR 0xFF,
       CHR 0xFF, CHR 0x01]"
  by code_simp

theorem wire_roundtrip_witness:
  "\<exists>b. grpc_encode wire_codec (MPauseRequest \<lparr>Timeout = 300, Expiry = -1\<rparr>) = Inr b \<and>
     dec_PauseRequest wire_codec (b @ [CHR 0x20, CHR 0x07]) = Inr \<lparr>Timeout = 300, Expiry = -1\<rparr>"
proof -
  have "encodeVarint 32 @ encodeVarint 7 @ [] = [CHR 0x20, CHR 0x07]" by code_simp
  moreover have "3 < (drop_bit 3 32 :: uint64)" "(32 :: uint64) AND 7 = WireVarint" by (simp_all add: WireVarint_def)
  ultimately have "unknown_fields [CHR 0x20, CHR 0x07]" using unknown_fields.varint [OF _ _ unknown_fields.none, of 32 7] by simp
  from wire_roundtrip [OF this, of "MPauseRequest \<lparr>Timeout = 300, Expiry = -1\<rparr>"] show ?thesis
    by (auto simp: sendable_def decodes_def)
qed

end
