(* ===== verification/Revisions.thy ===== *)
theory Revisions
  imports Kv
begin

text \<open>
  The history of the store of \<open>Kv\<close>: whatever transactions run, the entry of a key is the old one or has a revision
  that is newer than the whole old store. This is why the event with the greatest revision, which the revision filter
  of \<open>pkg/streams\<close> keeps, is the present entry of the key.
\<close>

definition revisions_ok :: "store \<Rightarrow> bool" where
  "revisions_ok s \<longleftrightarrow> distinct (map Key (kvs s)) \<and> (\<forall>x \<in> set (kvs s). ModRevision x \<le> revision s)"

text \<open>A transaction, or, below a prefix, one that writes elsewhere, of which only the revision is seen.\<close>

inductive store_step :: "store \<Rightarrow> store \<Rightarrow> bool" where
  transaction: "store_step s (snd (txn_effect t s))"
| elsewhere: "revision s \<le> r \<Longrightarrow> store_step s (s\<lparr>revision := r\<rparr>)"

lemma put_entries: "x \<in> set (put_kv r op xs) \<Longrightarrow> x \<in> set xs \<or> ModRevision x = r"
  by (auto simp: put_kv_def split: option.splits if_splits)

lemma put_keys: "distinct (map Key xs) \<Longrightarrow> distinct (map Key (put_kv r op xs))"
proof (cases "lookup_key xs (op_key op)")
  case None
  then have "op_key op \<notin> Key ` set xs" by (auto simp: lookup_key_def find_None_iff)
  with None show "distinct (map Key xs) \<Longrightarrow> ?thesis" by (simp add: put_kv_def)
next
  case (Some kv)
  then have "map Key (put_kv r op xs) = map Key xs" by (simp add: put_kv_def)
  then show "distinct (map Key xs) \<Longrightarrow> ?thesis" by simp
qed

lemma op_entries:
  assumes "op_effect r op xs = (resp, ys)"
  shows "x \<in> set ys \<Longrightarrow> x \<in> set xs \<or> ModRevision x = r \<and> wrote resp"
    and "distinct (map Key xs) \<Longrightarrow> distinct (map Key ys)"
  using assms put_entries [of x r op xs] put_keys [of xs r op]
  by (auto simp: op_effect_def distinct_map_filter split: opType.splits)

lemma ops_entries:
  "ops_effect r ops xs = (resps, ys) \<Longrightarrow> (\<forall>x \<in> set ys. x \<in> set xs \<or> ModRevision x = r \<and> list_ex wrote resps) \<and>
     (distinct (map Key xs) \<longrightarrow> distinct (map Key ys))"
proof (induction ops arbitrary: xs resps ys)
  case (Cons op ops)
  obtain resp xs1 where op: "op_effect r op xs = (resp, xs1)" by fastforce
  obtain resps1 ys1 where ops: "ops_effect r ops xs1 = (resps1, ys1)" by fastforce
  from Cons.prems op ops have "resps = resp # resps1" "ys = ys1" by simp_all
  with Cons.IH [OF ops] op_entries [OF op] show ?case by auto
qed simp

text \<open>One transaction, and any number of them.\<close>

lemma step_entries:
  assumes "store_step s s'" and "revisions_ok s"
  shows "revisions_ok s' \<and> revision s \<le> revision s' \<and> (\<forall>x \<in> set (kvs s'). x \<in> set (kvs s) \<or> revision s < ModRevision x)"
  using assms
proof cases
  case (transaction t)
  obtain resps ys where ops: "ops_effect (revision s + 1)
      (if list_all (holds (kvs s)) (IfAll t) then ThenDo t else ElseDo t) (kvs s) = (resps, ys)" by fastforce
  then have s': "s' = \<lparr>revision = (if list_ex wrote resps then revision s + 1 else revision s), kvs = ys\<rparr>"
    by (simp add: transaction txn_effect_def Let_def)
  from ops_entries [OF ops] assms(2) show ?thesis
    by (fastforce simp: s' revisions_ok_def)
next
  case (elsewhere r)
  with assms(2) show ?thesis by (fastforce simp: revisions_ok_def)
qed

lemma later_entries:
  assumes "store_step\<^sup>*\<^sup>* s s'" and "revisions_ok s"
  shows "revisions_ok s' \<and> revision s \<le> revision s' \<and> (\<forall>x \<in> set (kvs s'). x \<in> set (kvs s) \<or> revision s < ModRevision x)"
  using assms(1)
proof (induction rule: rtranclp_induct)
  case (step s1 s2)
  with step_entries [OF step.hyps(2)] show ?case by (meson order_trans le_less_trans)
qed (simp add: assms(2))

lemma lookup_entry: "revisions_ok s \<Longrightarrow> lookup_key (kvs s) k = Some x \<longleftrightarrow> x \<in> set (kvs s) \<and> Key x = k"
proof -
  have "distinct (map Key xs) \<Longrightarrow> lookup_key xs k = Some x \<longleftrightarrow> x \<in> set xs \<and> Key x = k" for xs
    by (induction xs) (auto simp: lookup_key_def)
  then show "revisions_ok s \<Longrightarrow> ?thesis" by (simp add: revisions_ok_def)
qed

text \<open>An earlier entry of a key that is at least as new as the present one is the present one.\<close>

lemma newest_entry:
  assumes "store_step\<^sup>*\<^sup>* s s'" and "revisions_ok s" and "lookup_key (kvs s) k = Some x" and "lookup_key (kvs s') k = Some y"
    and "ModRevision y \<le> ModRevision x"
  shows "x = y"
proof -
  have x: "x \<in> set (kvs s)" "Key x = k" using assms(2,3) by (simp_all add: lookup_entry)
  have y: "y \<in> set (kvs s')" "Key y = k" using later_entries [OF assms(1,2)] assms(4) by (simp_all add: lookup_entry)
  have "\<not> revision s < ModRevision y" using x(1) assms(2,5) by (auto simp: revisions_ok_def)
  then have "y \<in> set (kvs s)" using later_entries [OF assms(1,2)] y(1) by blast
  with y(2) have "lookup_key (kvs s) k = Some y" using assms(2) by (simp add: lookup_entry)
  with assms(3) show ?thesis by simp
qed

end
