(* ===== verification/Spec2Isabelle.thy ===== *)
theory Spec2Isabelle
  imports Proxy Supervise FailoverCmd Commands Namespace Concurrent Parallel AcceptanceRun Integration Fakes Wire Revisions
begin

text \<open>
  A verification development for \<open>pgsql-cluster-manager\<close> (\<open>pgcm\<close>), which runs zero-downtime failovers of a
  PostgreSQL cluster that Pacemaker manages, with PgBouncer in front of it and etcd as the shared store.

  The program. \<open>pgcm supervise\<close> runs on every database node: it publishes the address of the master that
  Pacemaker reports under a key of etcd, and serves the failover API. \<open>pgcm proxy\<close> follows this key and
  points PgBouncer at the host it names. \<open>pgcm failover\<close> drives a failover through the APIs of all nodes:
  health checks, an exclusive lock, a pause of every PgBouncer, the migration of the master, and the
  clean-ups of these steps.

  The theories, from the bottom, with the code they model:

  \<^item> \<open>Prelude\<close>: Go errors, panics and outcomes of calls, wrapping 64-bit durations, contexts as the moment
    at which they are done, and the collection \<open>never_panics\<close>.
  \<^item> \<open>Pipeline\<close> (\<open>pkg/failover/pipeline.go\<close>): steps and their deferred clean-ups, with the reference
    definition \<open>nested\<close> of what a pipeline means.
  \<^item> \<open>Streams\<close> (\<open>pkg/streams/filter.go\<close>): the revision and the dedupe filter; the locale \<open>keyed_filter\<close>.
  \<^item> \<open>Fold\<close> (\<open>pkg/streams/fold.go\<close>): the retrying fold as a state machine; the locale \<open>operation\<close>.
  \<^item> \<open>Text\<close>, \<open>Etree\<close> (\<open>vendor/github.com/beevik/etree\<close>): the string functions and the XPath subset in
    which Pacemaker is queried, with the reference evaluation \<open>levels\<close>.
  \<^item> \<open>Interfaces\<close>: the Go interfaces \<open>pauser\<close> and \<open>crm\<close>, the contracts \<open>pauser_contract\<close>, \<open>crm_contract\<close> and
    \<open>kv_source\<close> as locales.
  \<^item> \<open>Pacemaker\<close>, \<open>PacemakerStream\<close> (\<open>pkg/pacemaker\<close>): queries, commands and the polling stream.
  \<^item> \<open>Bouncer\<close> (\<open>pkg/pgbouncer\<close>): connections, configuration and console commands of PgBouncer.
  \<^item> \<open>Messages\<close> (\<open>pkg/failover/failover.pb.go\<close>, \<open>ptypes/timestamp.go\<close>): messages, stubs, handlers, timestamps.
    \<open>Varint\<close>, \<open>Wire\<close> (\<open>vendor/github.com/golang/protobuf/proto\<close>): the integers of the wire format and the codec of
    the messages.
  \<^item> \<open>Server\<close> (\<open>pkg/failover/server.go\<close>): the API of a node with the scheduled resumes; \<open>pausing_server\<close>.
  \<^item> \<open>Kv\<close> (\<open>vendor/github.com/coreos/etcd/clientv3\<close>): the requests to etcd, ranges, transactions and the store
    they act on; the locale \<open>kv_service\<close>. \<open>Revisions\<close>: the history of this store. \<open>Namespace\<close>
    (\<open>clientv3/namespace\<close>): the client of a namespace.
  \<^item> \<open>Etcd\<close> (\<open>pkg/etcd\<close>): the event stream of two goroutines, the conditional update.
  \<^item> \<open>Mutex\<close> (\<open>clientv3/concurrency\<close>): the lock of a failover, for any number of clients.
  \<^item> \<open>Failover\<close> (\<open>pkg/failover/failover.go\<close>): the failover procedure; the locale \<open>failover_nodes\<close>.
    \<open>Parallel\<close>: the goroutines of \<open>EachClient\<close>, in any interleaving. \<open>Concurrent\<close>: the control of \<open>Run\<close> cut at its
    actions, and any number of failovers at once over the lock of \<open>Mutex\<close>.
  \<^item> \<open>FailoverCmd\<close> (\<open>pkg/cmd/failover.go\<close>): the command, and the cluster of servers it acts on.
  \<^item> \<open>Config\<close> (\<open>pkg/cmd/flags.go\<close>, \<open>cmd.go\<close> and the option tables of the commands): flags and their lookup.
  \<^item> \<open>Commands\<close> (\<open>pkg/cmd/cmd.go\<close>, \<open>config.go\<close>, \<open>version.go\<close>): the tree of commands and how one is run,
    \<open>config show\<close>, the quit signals.
  \<^item> \<open>Proxy\<close>, \<open>Supervise\<close> (\<open>pkg/cmd/proxy.go\<close>, \<open>supervise.go\<close>): the two daemons, composed of the above.
  \<^item> \<open>Acceptance\<close>, \<open>AcceptanceRun\<close> (\<open>pkg/acceptance\<close>, \<open>cmd/pgcm-acceptance\<close>): the docker cluster of the acceptance
    tests, the script of the test and its program, over the polling of \<open>Gomega\<close>
    (\<open>vendor/github.com/onsi/gomega\<close>). \<open>Integration\<close> (\<open>pkg/etcd/integration\<close>, \<open>pkg/pgbouncer/integration\<close>): the helpers
    that start an etcd and a PgBouncer for a test. \<open>Fakes\<close> (\<open>pkg/failover/fakes.go\<close>): the doubles of the server tests.

  State and time. An effect takes the state of its world as an argument \<open>w\<close> and returns it changed; the
  type of the world is a parameter of every component, so that one model serves a single node, a
  cluster and the examples of the witnesses. A goroutine that waits is a control state of a step
  relation (\<open>stream_step\<close>, \<open>poll_step\<close>, \<open>srv_step\<close>, \<open>supervise_step\<close>, \<open>each_step\<close>, \<open>lock_step\<close>, \<open>command_step\<close>) or of a step function on events
  (\<open>fold_step\<close>), and the theorems hold for every interleaving. A failed type assertion, a nil
  dereference, a send on a closed channel and an index out of range are the third outcome \<open>Panic\<close>.

  The lemmas. Each component has the functional behaviour of its operations on every branch. The
  contracts are proved once as locales and interpreted on the model of the code: \<open>dedupe\<close>, \<open>revision\<close>
  (filters), \<open>proxy\<close>, \<open>publisher\<close> (operations of the fold), \<open>pgb\<close> (PgBouncer as a pauser), \<open>pcm\<close> (Pacemaker
  as a resource manager), \<open>poller\<close>, \<open>etcd\<close> (sources of events), \<open>served\<close> and \<open>namespaced\<close> (clients of etcd, plain
  and below a prefix), \<open>node\<close> (a server on a real pooler) and
  \<open>cluster\<close> (the nodes behind the clients of a failover). From them follow the properties that span
  components: a failover that reaches its clean-up in time leaves no pooler paused; a pause is lifted
  although its client dies; the address that a failover waits for is the one that the supervisor of the new
  master publishes (\<open>handover_completes\<close>, in this theory); the supervisor changes one key of its namespace and
  nothing else (\<open>namespaced_update\<close>, in this theory); two failovers do not run at the same time, as long as
  the lock is handed over while its \<open>Lock\<close> call still waits (\<open>failovers_exclusive\<close> and \<open>late_failovers_overlap\<close>, in
  \<open>Concurrent\<close>); the pooler serves the newest host of the stream, and
  this is the address of the node that a supervisor has published (\<open>proxy_follows_supervisor\<close>, in this theory);
  the key of the master holds what Pacemaker last reported; the messages of the API go over the wire unchanged.

  Bounds. The control of a failover ends after at most seven actions (\<open>control_runs\<close>). Loops over lists are structural recursions; \<open>traverse\<close> and the readers of the wire format, which consume
  their buffer, terminate by a measure, so that no model has fuel. Runs of goroutines are finite lists of events
  or reflexive transitive closures. Durations, varints, status codes and ports keep their width (64, 64, 32 and 16
  bits).

  Parameters, that is code which is not in the repository or does only input and output: the drivers of
  etcd, grpc and PostgreSQL, the encoding of TOML, XML parsing, \<open>text/template\<close>, MD5, the
  file system and the running of programs. What a theorem needs of them is a named hypothesis of
  documented behaviour (\<open>console_ok\<close>, \<open>commits\<close>, \<open>does\<close> and \<open>kv_serves\<close>, \<open>get_ok\<close>, \<open>codec_ok\<close>, \<open>connected\<close>,
  \<open>heeds_deadline\<close>, \<open>iterates\<close>), and the witnesses instantiate it. Two conditions are on the data:
  \<open>incrementable\<close> (the prefix of a namespace does not end in the byte 0xff) and \<open>entries_ok\<close> (the keys below the lock
  are entries of clients when the first one starts, each of its own age).

  Idealised: between two operations of a fold nobody else changes what the fold has written, and a call to a
  node takes effect at one moment.

  Not modelled: log lines and metrics, and what \<open>cobra\<close> adds to the commands; the keep-alive of an etcd
  session, of which only the loss of a lease is a step; the reading and writing of XML documents; the
  descriptors that protobuf generates, a compressed text that the program never reads; \<open>main\<close> of \<open>cmd/pgcm\<close>, which
  only calls \<open>Execute\<close>.
\<close>

section \<open>The hand-over of the master\<close>

text \<open>
  The one fact that links the three programs is what \<open>corosync-cfgtool\<close> prints for a node ID, on whichever
  node it runs: \<open>book\<close>.
\<close>

definition cfgtool_prints :: "'w pacemaker_executor \<Rightarrow> (string \<Rightarrow> string) \<Rightarrow> bool" where
  "cfgtool_prints p book \<longleftrightarrow> (\<forall>ctx n w out w'.
     CombinedOutput p ctx ''corosync-cfgtool'' [''-a'', n] w = (Inr out, w') \<longrightarrow> out = book n)"

lemma ResolveAddress_book:
  assumes "cfgtool_prints p book" and "ResolveAddress p ctx n w = (Inr addr, w')"
  shows "addr = TrimSpace (book n)"
proof -
  obtain out where "CombinedOutput p ctx ''corosync-cfgtool'' [''-a'', n] w = (Inr out, w')" "addr = TrimSpace out"
    using assms(2) by (auto simp: ResolveAddress_def split: if_splits prod.splits sum.splits)
  with assms(1) show ?thesis unfolding cfgtool_prints_def by blast
qed

lemma supervise_stores:
  assumes "commits commit st" and "cfgtool_prints p book"
    and "supervise_operation p commit ctx (Some kv) v = (Ok u, v')"
  shows "stored (st v') (Key kv) = Some (TrimSpace (book (Value kv)))"
proof -
  have "publishes p st kv v'" by (rule publisher.op_applies [OF assms(1,3)])
  then obtain ctx' w0 w1 addr where "ResolveAddress p ctx' (Value kv) w0 = (Inr addr, w1)" "stored (st v') (Key kv) = Some addr"
    unfolding publishes_def by blast
  with ResolveAddress_book [OF assms(2)] show ?thesis by auto
qed

text \<open>A run whose steps all succeed returns no error.\<close>

lemma Run_Ok:
  assumes "iterates f" and "clients f \<noteq> []" and "HealthCheckClients f ctx v0 = (Ok (), v1)" "AcquireLock f ctx v1 = (Ok (), v2)"
    "Failover.Pause f ctx v2 = (Ok (), v3)" "Failover.Migrate f ctx v3 = (Ok (), v4)"
  shows "fst (Run f ctx dctx v0) = Ok ()"
proof -
  obtain r v5 where u: "Failover.Unmigrate f dctx v4 = (r, v5)" by fastforce
  have "ranged f v4 \<noteq> []" using set_ranged [OF assms(1), of v4] assms(2) by (metis set_empty)
  then have "r \<noteq> Panic q" for q using u Unmigrate_panics [of f dctx v4 q] by auto
  then have "cleanup [Failover.Unmigrate f] dctx (Ok (), v4) = (Ok (), v5)"
    using cleanup_one [where d = "Failover.Unmigrate f", OF u, of "Ok ()"] by (cases r) auto
  then show ?thesis by (simp add: Run_healthy [OF assms(3)] assms(4-6))
qed

text \<open>
  C3. The address that the failover waits for is the one that the supervisor publishes: when the server has
  answered a migrate request for a standby, and a supervisor, on whichever node, then publishes this
  node as the master, the event of the published key ends the wait, so that the migration step
  succeeds if the event arrives in time, as the newest event of its stream. The failover as a whole then
  returns no error, if it got so far.
\<close>

theorem handover_completes:
  assumes laws: "commits commit st" "cfgtool_prints p book" "cfgtool_prints q book" "iterates f"
    and answer: "fst (Server_Migrate (node_server b p now) sctx sw) = Ok resp"
    and standby: "fst (Get p sctx [SyncXPath] (env sw)) = Ok [Some sync]"
    and master: "Value kv = SelectAttrValue sync ''id'' ''''" "Key kv = EtcdHostKey (opt f)"
    and publish: "supervise_operation q commit pctx (Some kv) v = (Ok u, v')"
    and event: "lookup_key (kvs (st v')) (EtcdHostKey (opt f)) = Some ev" "Key ev = EtcdHostKey (opt f)"
    and call: "ranged f w = (endpoint, client) # cs"
      "client_Migrate client (WithTimeout ctx (Failover.Now f w) (PacemakerTimeout (opt f))) w = (Inr resp, w1)"
    and delivered: "host_events f ctx w1 = before @ (t, ev) # after" "0 < ModRevision ev"
      "\<And>t' kv. (t', kv) \<in> set before \<Longrightarrow> t' \<le> t \<and> ModRevision kv < ModRevision ev"
    and in_time: "t < time_add (Failover.Now f w1) (PauseExpiry (opt f))"
  shows "(\<exists>t' \<le> t. Failover.Migrate f ctx w = (Ok (), wait_until f t' w1)) \<and>
    (\<forall>dctx v0 v1 v2. HealthCheckClients f ctx v0 = (Ok (), v1) \<and> AcquireLock f ctx v1 = (Ok (), v2) \<and>
       Failover.Pause f ctx v2 = (Ok (), w) \<longrightarrow> fst (Run f ctx dctx v0) = Ok ())"
proof -
  obtain e1 e2 where "ResolveAddress p sctx (Value kv) e1 = (Inr (Address resp), e2)"
    using Server_Migrate_Ok [OF answer] standby master(1) by auto
  then have "Address resp = TrimSpace (book (Value kv))" by (rule ResolveAddress_book [OF laws(2)])
  moreover have "stored (st v') (Key kv) = Some (TrimSpace (book (Value kv)))"
    by (rule supervise_stores [OF laws(1,3) publish])
  ultimately have "is_master (EtcdHostKey (opt f)) (Address resp) ev"
    using event master(2) by (simp add: stored_def is_master_def)
  from NotifyWhenMaster_fresh [OF delivered(1) this delivered(2,3)]
  obtain t' where "t' \<le> t" "NotifyWhenMaster f ctx (Address resp) w1 = Some t'" by blast
  with Migrate_in_time [OF call] in_time obtain t'' where m: "t'' \<le> t" "Failover.Migrate f ctx w = (Ok (), wait_until f t'' w1)" by force
  have "clients f \<noteq> []" using call(1) set_ranged [OF laws(4), of w] by auto
  with m Run_Ok [OF laws(4) _ _ _ _ m(2)] show ?thesis by blast
qed

text \<open>A failover of one node, whose server gives the answer \<open>resp\<close> and whose stream delivers \<open>ev\<close>.\<close>

definition handover_failover :: "MigrateResponse \<Rightarrow> KeyValue \<Rightarrow> nat Failover" where
  "handover_failover resp ev = (counting_failover [(7, ev)])
     \<lparr>clients := [(''pg01'', counting_client\<lparr>client_Migrate := (\<lambda>ctx n. (Inr resp, n + 1))\<rparr>)],
      locker_of := \<lparr>Lock = (\<lambda>ctx n. (None, n)), Unlock = (\<lambda>ctx n. (None, n))\<rparr>\<rparr>"

lemma example_cfgtool: "cfgtool_prints (example_executor q) (\<lambda>n. '' 10.0.0.1 '')"
  by (simp add: cfgtool_prints_def example_executor_def)

theorem handover_completes_witness:
  "\<exists>resp ev t. fst (Server_Migrate (node_server idle_bouncer (example_executor ''1'') (\<lambda>_. 0)) Background (fresh_server ())) = Ok resp \<and>
     Failover.Migrate (handover_failover resp ev) Background 2 = (Ok (), wait_until (handover_failover resp ev) t 3) \<and>
     fst (Run (handover_failover resp ev) Background Background 0) = Ok ()"
proof -
  let ?s = "node_server idle_bouncer (example_executor ''1'') (\<lambda>_ :: unit. 0)"
  obtain n where n: "FindElement (example_cib ''1'') SyncXPath = Ok (Some n)"
      "SelectAttrValue n ''uname'' '''' = ''pg02''" "SelectAttrValue n ''id'' '''' = ''2''" using example_sync by blast
  then have g: "Get (example_executor ''1'') Background [SyncXPath] () = (Ok [Some n], ())"
    by (simp add: Get_eq example_executor_def example_quorum)
  have v: "valid_node_id ''2''" by code_simp
  have "valid_time 0" by (simp add: valid_time_def minValidSeconds_def maxValidSeconds_def)
  then obtain ts where "Server_TimestampProto 0 = Ok ts" using Server_TimestampProto_valid by blast
  then obtain resp where resp: "fst (Server_Migrate ?s Background (fresh_server ())) = Ok resp"
    using g n v by (simp add: Server_Migrate_def pacemaker_crm_def fresh_server_def ResolveAddress_def
        Pacemaker.Migrate_def example_executor_def Let_def)
  let ?kv = "makeKv ''/master'' ''2'' 0"
  let ?ev = "\<lparr>Key = ''/master'', CreateRevision = 2, ModRevision = 2, Version = 1, Value = TrimSpace '' 10.0.0.1 '', Lease = 0\<rparr>"
  let ?st = "\<lparr>revision = 2, kvs = [?ev]\<rparr>"
  have publish: "supervise_operation (example_executor ''1'') memory_commit Background (Some ?kv) empty_store = (Ok (), ?st)"
    using v by (simp add: supervise_operation_def ResolveAddress_def example_executor_def makeKv_def memory_update
        empty_store_def stored_def lookup_key_def updated_def put_kv_def OpPut_def op_defs of_err_def)
  let ?f = "handover_failover resp ?ev"
  have f: "EtcdHostKey (opt ?f) = ''/master''" "host_events ?f Background 3 = [] @ (7, ?ev) # []" "\<And>n. Failover.Now ?f n = 0"
    "PauseExpiry (opt ?f) = 25 * Second"
    by (simp_all add: handover_failover_def counting_failover_def default_options_def)
  have nodes: "ranged ?f n = (''pg01'', counting_client\<lparr>client_Migrate := (\<lambda>ctx n. (Inr resp, n + 1))\<rparr>) # []" for n
    by (simp add: ranged_def handover_failover_def counting_failover_def)
  have iterates: "iterates ?f" by (simp add: iterates_def handover_failover_def counting_failover_def)
  have steps: "HealthCheckClients ?f Background 0 = (Ok (), 1)" "AcquireLock ?f Background 1 = (Ok (), 1)"
    "Failover.Pause ?f Background 1 = (Ok (), 2)"
    by (simp_all add: HealthCheckClients_def AcquireLock_def Failover.Pause_def EachClient_def nodes counting_client_def GetStatus_def
        Failover.err_of_def Let_def) (simp_all add: handover_failover_def)
  have "(\<exists>t' \<le> 7. Failover.Migrate ?f Background 2 = (Ok (), wait_until ?f t' 3)) \<and>
    (\<forall>dctx v0 v1 v2. HealthCheckClients ?f Background v0 = (Ok (), v1) \<and> AcquireLock ?f Background v1 = (Ok (), v2) \<and>
       Failover.Pause ?f Background v2 = (Ok (), 2) \<longrightarrow> fst (Run ?f Background dctx v0) = Ok ())"
  proof (rule handover_completes [OF memory_commits example_cfgtool example_cfgtool iterates resp _ _ _ publish _ _ nodes _ f(2)])
    show "fst (Get (example_executor ''1'') Background [SyncXPath] (env (fresh_server ()))) = Ok [Some n]"
      using g by (simp add: fresh_server_def)
    show "7 < time_add (Failover.Now ?f 3) (PauseExpiry (opt ?f))"
      by (simp add: f time_add_def Second_def)
  qed (simp_all add: n f makeKv_def lookup_key_def)
  with resp steps show ?thesis by blast
qed

section \<open>The pooler follows the supervisor\<close>

text \<open>
  C4. From Pacemaker to PgBouncer: once a supervisor has published the master, and the proxy's stream, by its watch or
  by a poll, has delivered the entry that the store then has, the pooler serves the address of this node when
  the fold is idle, whatever older entries the stream has sent before or sends again after it.
\<close>

theorem proxy_follows_supervisor:
  assumes laws: "commits commit st" "cfgtool_prints p book" "get_ok get"
    and publish: "supervise_operation p commit pctx (Some kv) v = (Ok u, v')"
    and entry: "lookup_key (kvs (st v')) (Key kv) = Some ev" "ev \<in> set (sent src)" "0 < ModRevision ev"
    and opt: "Keys so = [Key kv]"
    and stream: "(stream_step so get)\<^sup>*\<^sup>* (Etcd.NewStream so now w0) src"
    and history: "\<And>x. x \<in> set (sent src) \<Longrightarrow>
      \<exists>s. revisions_ok s \<and> store_step\<^sup>*\<^sup>* s (st v') \<and> lookup_key (kvs s) (Key kv) = Some x"
    and run: "proxy_run b os tm fo (sent src, closed src) es t w = Some s" "quiet s"
  shows "serves b os tm (TrimSpace (book (Value kv))) (world s)"
proof -
  have "\<exists>x \<in> set (sent src). 0 < ModRevision x" using entry by blast
  from newest_served [OF opt laws(3) stream this run]
  obtain x where x: "x \<in> set (sent src)" "\<forall>y \<in> set (sent src). ModRevision y \<le> ModRevision x"
    "serves b os tm (Value x) (world s)" by blast
  obtain s0 where "revisions_ok s0" "store_step\<^sup>*\<^sup>* s0 (st v')" "lookup_key (kvs s0) (Key kv) = Some x"
    using history [OF x(1)] by blast
  then have "x = ev" using newest_entry entry(1) x(2) entry(2) by blast
  moreover have "Value ev = TrimSpace (book (Value kv))"
    using supervise_stores [OF laws(1,2) publish] entry(1) by (simp add: stored_def)
  ultimately show ?thesis using x(3) by simp
qed

theorem proxy_follows_supervisor_witness:
  "\<exists>ev s. proxy_run (loading_bouncer False) file_os host_template example_fold ([ev], False) [Recv ev, Begin, Finish] 0 ([], []) = Some s \<and>
     serves (loading_bouncer False) file_os host_template ''10.0.0.1'' (world s)"
proof -
  let ?kv = "makeKv ''/master'' ''2'' 0"
  let ?ev = "\<lparr>Key = ''/master'', CreateRevision = 2, ModRevision = 2, Version = 1, Value = TrimSpace '' 10.0.0.1 '', Lease = 0\<rparr>"
  let ?st = "\<lparr>revision = 2, kvs = [?ev]\<rparr>"
  let ?s = "\<lparr>fold_pc = Receiving, clock = 0, world = (Value ?ev, Value ?ev)\<rparr>"
  have "valid_node_id ''2''" by code_simp
  then have publish: "supervise_operation (example_executor ''1'') memory_commit Background (Some ?kv) empty_store = (Ok (), ?st)"
    by (simp add: supervise_operation_def ResolveAddress_def example_executor_def makeKv_def memory_update
        empty_store_def stored_def lookup_key_def updated_def put_kv_def OpPut_def op_defs of_err_def)
  have key: "Key ?ev = ''/master''" and fresh: "0 < ModRevision ?ev" by simp_all
  from example_stream_sends [OF key] obtain src
    where src: "(stream_step example_stream missing_getter)\<^sup>*\<^sup>* (Etcd.NewStream example_stream 0 ()) src"
      "sent src = [?ev]" "\<not> closed src" by blast
  note run = example_proxy_run [OF fresh]
  have "serves (loading_bouncer False) file_os host_template (TrimSpace '' 10.0.0.1 '') (world ?s)"
  proof (rule proxy_follows_supervisor [OF memory_commits example_cfgtool missing_getter_ok publish _ _ fresh _ src(1)])
    show "proxy_run (loading_bouncer False) file_os host_template example_fold (sent src, closed src) [Recv ?ev, Begin, Finish] 0 ([], []) =
        Some ?s" using run src(2,3) by simp
    show "\<exists>s. revisions_ok s \<and> store_step\<^sup>*\<^sup>* s ?st \<and> lookup_key (kvs s) (Key ?kv) = Some x" if "x \<in> set (sent src)" for x
      using that src(2) by (intro exI [of _ ?st]) (simp add: revisions_ok_def lookup_key_def makeKv_def)
  qed (simp_all add: src(2) lookup_key_def makeKv_def example_stream_def quiet_def)
  moreover have "TrimSpace '' 10.0.0.1 '' = ''10.0.0.1''" by code_simp
  ultimately show ?thesis using run by (intro exI [of _ ?ev] exI [of _ ?s]) simp
qed

section \<open>Publishing in a namespace\<close>

text \<open>
  C10. The write of \<open>pgcm supervise\<close> through the client that \<open>mustEtcdClient\<close> builds: after a successful
  \<open>CompareAndUpdate\<close> the key below the namespace holds the value, and whether it succeeds or fails no other key of the
  whole store has changed, inside of the namespace or outside. If the key held the value before, there is
  no new revision, so that watchers see no event, and otherwise there is at most one.
\<close>

theorem namespaced_update:
  assumes "kv_serves kv st" and "incrementable ns"
    and "CompareAndUpdate (Commit (NewKV kv ns)) ctx key v w = (r, w')"
  shows "(r = None \<longrightarrow> stored (st w') (ns @ key) = Some v) \<and>
    (\<forall>k. k \<noteq> ns @ key \<longrightarrow> stored (st w') k = stored (st w) k) \<and>
    (stored (st w) (ns @ key) = Some v \<longrightarrow> revision (st w') = revision (st w)) \<and>
    (revision (st w') = revision (st w) \<or> revision (st w') = revision (st w) + 1)"
proof -
  have "commits (Commit (NewKV kv ns)) (\<lambda>w. view ns (st w))"
    using namespaced.all_served [of kv st ns] assms(1,2) by (simp add: kv_serves_def)
  note update = CompareAndUpdate_result [OF this assms(3)]
  have view: "stored (view ns s) k = stored s (ns @ k)" "revision (view ns s) = revision s" for s k
    by (simp_all add: stored_def view_def lookup_view option.map_comp comp_def)
  have other: "stored (st w') k = stored (st w) k" if k: "k \<noteq> ns @ key" for k
  proof (cases "prefix ns k")
    case True
    then obtain k' where "k = ns @ k'" by (auto simp: prefix_def)
    with update k show ?thesis unfolding view by simp
  next
    case False
    have "w' = snd (Commit (NewKV kv ns) ctx (update_txn key v) w)"
      using assms(3) by (auto simp: CompareAndUpdate_def split: prod.splits sum.splits)
    with commit_outside [OF assms(1,2)] lookup_outside [OF False] show ?thesis unfolding stored_def by metis
  qed
  have "stored (st w) (ns @ key) = Some v \<Longrightarrow> revision (st w') = revision (st w)"
    using update view(2) [of "st w"] view(2) [of "st w'"] unfolding view(1) by metis
  with update other show ?thesis unfolding view by (metis view(2))
qed

theorem namespaced_update_witness:
  "\<exists>r s. CompareAndUpdate (Commit (NewKV memory_kv ''/ns'')) Background ''/master'' ''10.0.0.2'' empty_store = (r, s) \<and>
     (r = None \<longrightarrow> stored s ''/ns/master'' = Some ''10.0.0.2'')"
proof -
  obtain r s where c: "CompareAndUpdate (Commit (NewKV memory_kv ''/ns'')) Background ''/master'' ''10.0.0.2'' empty_store = (r, s)"
    by fastforce
  have "incrementable ''/ns''" by (simp add: incrementable_def)
  from namespaced_update [OF memory_serves this c] c show ?thesis by auto
qed

end
